(* ===== verification/Go_Prelude.thy ===== *)
theory Go_Prelude
  imports Main "HOL-Library.Word" "HOL-Library.AList"
begin

text \<open>
  What every component of the model shares: Go's error values, the outcome of a Go
  function, the computation type \<open>io\<close> in which the effectful code is written, and the rules
  that carry the proofs about it.

  A computation takes the world (the operating system, the kernel, everything outside the
  program, of an arbitrary type \<open>'w\<close>) and delivers an outcome, the list of the calls it
  made with their answers, and the next world.  A property of a computation is stated on
  its outcome and its call list and proved for every world, that is for every behaviour of
  the environment.
\<close>

named_theorems outcome_simps \<open>equations that execute a computation step by step\<close>
named_theorems trace_intros \<open>rules that push a trace property through a computation\<close>

section \<open>Errors\<close>

text \<open>
  \<open>ErrorString\<close> is \<^verbatim>\<open>errors.New\<close>, \<open>Errno\<close> a kernel error number, \<open>Wrap\<close> is
  \<^verbatim>\<open>fmt.Errorf("...: %w", err)\<close>, \<open>Join\<close> is \<^verbatim>\<open>errors.Join\<close>.
\<close>

datatype error = ErrorString string | Errno nat | Wrap string error | Join "error list"

abbreviation (input) "ENOENT \<equiv> (2::nat)"
abbreviation (input) "EINTR \<equiv> (4::nat)"
abbreviation (input) "EAGAIN \<equiv> (11::nat)"
abbreviation (input) "EBUSY \<equiv> (16::nat)"

text \<open>\<^verbatim>\<open>errors.Is\<close> for an error number (\<^verbatim>\<open>os.ErrNotExist\<close> is matched by \<open>ENOENT\<close>).\<close>

fun errors_Is :: "error \<Rightarrow> nat \<Rightarrow> bool" where
  "errors_Is (ErrorString s) n = False"
| "errors_Is (Errno m) n = (m = n)"
| "errors_Is (Wrap s e) n = errors_Is e n"
| "errors_Is (Join es) n = list_ex (\<lambda>e. errors_Is e n) es"

section \<open>Outcomes and computations\<close>

text \<open>
  \<open>Ok x\<close> and \<open>Err e\<close> are the two ways a function of Go returns, \<open>Panic\<close> is a panic that
  leaves it, and \<open>Running\<close> says that a loop has not returned within the bound that was
  given to it.
\<close>

datatype 'a outcome = Ok 'a | Err error | Panic error | Running

type_synonym ('e, 'w, 'a) io = "'w \<Rightarrow> 'a outcome \<times> 'e list \<times> 'w"

definition retE :: "'a \<Rightarrow> ('e, 'w, 'a) io" where
  "retE x w = (Ok x, [], w)"

definition failE :: "error \<Rightarrow> ('e, 'w, 'a) io" where
  "failE e w = (Err e, [], w)"

definition panicE :: "error \<Rightarrow> ('e, 'w, 'a) io" where
  "panicE e w = (Panic e, [], w)"

text \<open>A function of Go that makes no calls.\<close>

definition outcomeE :: "'a outcome \<Rightarrow> ('e, 'w, 'a) io" where
  "outcomeE r w = (r, [], w)"

definition runningE :: "('e, 'w, 'a) io" where
  "runningE w = (Running, [], w)"

definition bindE :: "('e, 'w, 'a) io \<Rightarrow> ('a \<Rightarrow> ('e, 'w, 'b) io) \<Rightarrow> ('e, 'w, 'b) io" where
  "bindE m f w = (case m w of (r, es, w') \<Rightarrow>
     (case r of
        Ok x \<Rightarrow> (case f x w' of (r2, es2, w2) \<Rightarrow> (r2, es @ es2, w2))
      | Err e \<Rightarrow> (Err e, es, w')
      | Panic e \<Rightarrow> (Panic e, es, w')
      | Running \<Rightarrow> (Running, es, w')))"

text \<open>\<open>attempt m\<close> hands the returned value or error to the code that inspects \<^verbatim>\<open>err\<close>.\<close>

definition attempt :: "('e, 'w, 'a) io \<Rightarrow> ('e, 'w, error + 'a) io" where
  "attempt m w = (case m w of (r, es, w') \<Rightarrow>
     ((case r of Ok x \<Rightarrow> Ok (Inr x) | Err e \<Rightarrow> Ok (Inl e) | Panic e \<Rightarrow> Panic e | Running \<Rightarrow> Running),
      es, w'))"

text \<open>
  \<open>deferE m d\<close>: run \<open>m\<close>, then the deferred \<open>d\<close>, whether \<open>m\<close> returned or panicked; the
  outcome is that of \<open>m\<close> unless \<open>d\<close> itself panics.
\<close>

definition deferE :: "('e, 'w, 'a) io \<Rightarrow> ('e, 'w, unit) io \<Rightarrow> ('e, 'w, 'a) io" where
  "deferE m d w = (case m w of (r, es, w') \<Rightarrow>
     (if r = Running then (Running, es, w')
      else (case d w' of (r2, es2, w2) \<Rightarrow>
        ((case r2 of Panic e \<Rightarrow> Panic e | Running \<Rightarrow> Running | _ \<Rightarrow> r), es @ es2, w2))))"

text \<open>A function of Go that returns only an \<^verbatim>\<open>error\<close> (\<open>None\<close> is \<^verbatim>\<open>nil\<close>), used as a check.\<close>

definition checkE :: "error option \<Rightarrow> ('e, 'w, unit) io" where
  "checkE r = (case r of None \<Rightarrow> retE () | Some e \<Rightarrow> failE e)"

text \<open>\<^verbatim>\<open>time.NewTicker\<close> of that many nanoseconds: it panics unless they are positive.\<close>

definition NewTicker :: "int \<Rightarrow> ('e, 'w, unit) io" where
  "NewTicker d = (if d \<le> 0 then panicE (ErrorString ''non-positive interval for NewTicker'') else retE ())"

text \<open>A loop over a list; \<^verbatim>\<open>break\<close> does not occur in the loops it models.\<close>

fun forE :: "'a list \<Rightarrow> ('a \<Rightarrow> ('e, 'w, unit) io) \<Rightarrow> ('e, 'w, unit) io" where
  "forE [] body = retE ()"
| "forE (x # xs) body = bindE (body x) (\<lambda>_. forE xs body)"

text \<open>A loop over a list that carries a local variable.\<close>

fun foldE :: "('a \<Rightarrow> 's \<Rightarrow> ('e, 'w, 's) io) \<Rightarrow> 'a list \<Rightarrow> 's \<Rightarrow> ('e, 'w, 's) io" where
  "foldE body [] s = retE s"
| "foldE body (x # xs) s = bindE (body x s) (\<lambda>s'. foldE body xs s')"

section \<open>Computations with local state\<close>

text \<open>
  A function whose closures assign to its local variables runs over pairs of those
  variables and the world.
\<close>

definition liftE :: "('e, 'w, 'a) io \<Rightarrow> ('e, 's \<times> 'w, 'a) io" where
  "liftE m sw = (case sw of (s, w) \<Rightarrow> (case m w of (r, es, w') \<Rightarrow> (r, es, (s, w'))))"

definition getE :: "('e, 's \<times> 'w, 's) io" where
  "getE sw = (Ok (fst sw), [], sw)"

definition modE :: "('s \<Rightarrow> 's) \<Rightarrow> ('e, 's \<times> 'w, unit) io" where
  "modE f sw = (Ok (), [], (f (fst sw), snd sw))"

text \<open>The function itself: its variables live as long as the call.\<close>

definition localE :: "'s \<Rightarrow> ('e, 's \<times> 'w, 'a) io \<Rightarrow> ('e, 'w, 'a) io" where
  "localE s m w = (case m (s, w) of (r, es, sw) \<Rightarrow> (r, es, snd sw))"

section \<open>Executing a computation\<close>

lemma outcome_execs [outcome_simps]:
  "retE x w = (Ok x, [], w)" "failE e w = (Err e, [], w)" "panicE e w = (Panic e, [], w)"
  "runningE w = (Running, [], w)"
  "getE sw = (Ok (fst sw), [], sw)" "modE f sw = (Ok (), [], (f (fst sw), snd sw))"
  by (simp_all add: retE_def failE_def panicE_def runningE_def getE_def modE_def)

lemma bindE_exec [outcome_simps]:
  "m w = (Ok x, es, w') \<Longrightarrow> f x w' = (r, es2, w2) \<Longrightarrow> bindE m f w = (r, es @ es2, w2)"
  "m w = (Err e, es, w') \<Longrightarrow> bindE m f w = (Err e, es, w')"
  "m w = (Panic e, es, w') \<Longrightarrow> bindE m f w = (Panic e, es, w')"
  "m w = (Running, es, w') \<Longrightarrow> bindE m f w = (Running, es, w')"
  by (simp_all add: bindE_def)

lemma bindE_retE [simp]: "bindE (retE x) f = f x"
  by (simp add: bindE_def retE_def fun_eq_iff split: prod.split)

lemma bindE_failE [simp]: "bindE (failE e) f = failE e"
  by (simp add: bindE_def failE_def fun_eq_iff)

lemma bindE_assoc: "bindE (bindE m f) g = bindE m (\<lambda>x. bindE (f x) g)"
  by (simp add: bindE_def fun_eq_iff split: prod.split outcome.split)

lemma attempt_retE [simp]: "attempt (retE x) = retE (Inr x)"
  by (simp add: attempt_def retE_def fun_eq_iff)

lemma attempt_failE [simp]: "attempt (failE e) = retE (Inl e)"
  by (simp add: attempt_def failE_def retE_def fun_eq_iff)

text \<open>
  Partial correctness: \<open>ensures m Q\<close> says that from every world the outcome \<open>r\<close> and the
  call list \<open>es\<close> of \<open>m\<close> satisfy \<open>Q r es\<close>.  \<open>ensures_at\<close> is the same from one world.
\<close>

definition ensures_at :: "('e, 'w, 'a) io \<Rightarrow> 'w \<Rightarrow> ('a outcome \<Rightarrow> 'e list \<Rightarrow> 'w \<Rightarrow> bool) \<Rightarrow> bool" where
  "ensures_at m w Q = (case m w of (r, es, w') \<Rightarrow> Q r es w')"

lemma ensures_at_ret [simp]: "ensures_at (retE x) w Q = Q (Ok x) [] w"
  by (simp add: ensures_at_def retE_def)

lemma ensures_at_fail [simp]: "ensures_at (failE e) w Q = Q (Err e) [] w"
  by (simp add: ensures_at_def failE_def)

lemma ensures_at_panic [simp]: "ensures_at (panicE e) w Q = Q (Panic e) [] w"
  by (simp add: ensures_at_def panicE_def)

lemma ensures_at_running [simp]: "ensures_at runningE w Q = Q Running [] w"
  by (simp add: ensures_at_def runningE_def)

lemma ensures_at_outcome [simp]: "ensures_at (outcomeE r) w Q = Q r [] w"
  by (simp add: ensures_at_def outcomeE_def)

lemma ensures_at_get [simp]: "ensures_at getE sw Q = Q (Ok (fst sw)) [] sw"
  by (simp add: ensures_at_def getE_def)

lemma ensures_at_mod [simp]: "ensures_at (modE f) sw Q = Q (Ok ()) [] (f (fst sw), snd sw)"
  by (simp add: ensures_at_def modE_def)

lemma ensures_at_check:
  "ensures_at (checkE r) w Q = (case r of None \<Rightarrow> Q (Ok ()) [] w | Some e \<Rightarrow> Q (Err e) [] w)"
  by (simp add: checkE_def split: option.split)

lemma ensures_at_bind:
  "ensures_at (bindE m f) w Q =
   ensures_at m w (\<lambda>r es w'. case r of
       Ok x \<Rightarrow> ensures_at (f x) w' (\<lambda>r2 es2. Q r2 (es @ es2))
     | Err e \<Rightarrow> Q (Err e) es w' | Panic e \<Rightarrow> Q (Panic e) es w' | Running \<Rightarrow> Q Running es w')"
  by (simp add: ensures_at_def bindE_def split: prod.split outcome.split)

lemma ensures_at_attempt:
  "ensures_at (attempt m) w Q =
   ensures_at m w (\<lambda>r es w'. Q (case r of
       Ok x \<Rightarrow> Ok (Inr x) | Err e \<Rightarrow> Ok (Inl e) | Panic e \<Rightarrow> Panic e | Running \<Rightarrow> Running) es w')"
  by (simp add: ensures_at_def attempt_def split: prod.split)

lemma ensures_at_defer:
  "ensures_at (deferE m d) w Q =
   ensures_at m w (\<lambda>r es w'. if r = Running then Q Running es w'
     else ensures_at d w' (\<lambda>r2 es2.
       Q (case r2 of Panic e \<Rightarrow> Panic e | Running \<Rightarrow> Running | _ \<Rightarrow> r) (es @ es2)))"
  by (simp add: ensures_at_def deferE_def split: prod.split)

lemma ensures_at_lift:
  "ensures_at (liftE m) (s, w) Q = ensures_at m w (\<lambda>r es w'. Q r es (s, w'))"
  by (simp add: ensures_at_def liftE_def split: prod.split)

lemma ensures_at_local:
  "ensures_at (localE s m) w Q = ensures_at m (s, w) (\<lambda>r es sw. Q r es (snd sw))"
  by (simp add: ensures_at_def localE_def split: prod.split)

lemma ensures_at_mono:
  "ensures_at m w Q \<Longrightarrow> (\<And>r es w'. Q r es w' \<Longrightarrow> Q' r es w') \<Longrightarrow> ensures_at m w Q'"
  by (auto simp: ensures_at_def split: prod.splits)

lemma ensures_at_bindI:
  assumes "ensures_at m w R"
    and "\<And>x es w'. R (Ok x) es w' \<Longrightarrow> ensures_at (f x) w' (\<lambda>r es2. Q r (es @ es2))"
    and "\<And>e es w'. R (Err e) es w' \<Longrightarrow> Q (Err e) es w'"
    and "\<And>e es w'. R (Panic e) es w' \<Longrightarrow> Q (Panic e) es w'"
    and "\<And>es w'. R Running es w' \<Longrightarrow> Q Running es w'"
  shows "ensures_at (bindE m f) w Q"
  unfolding ensures_at_bind using assms by (auto intro!: ensures_at_mono [OF assms(1)] split: outcome.split)

lemma ensures_at_deferI:
  assumes "ensures_at m w R"
    and "\<And>es w'. R Running es w' \<Longrightarrow> Q Running es w'"
    and "\<And>r es w'. R r es w' \<Longrightarrow> r \<noteq> Running \<Longrightarrow> ensures_at d w' (\<lambda>r2 es2.
       Q (case r2 of Panic e \<Rightarrow> Panic e | Running \<Rightarrow> Running | _ \<Rightarrow> r) (es @ es2))"
  shows "ensures_at (deferE m d) w Q"
  unfolding ensures_at_defer using assms by (auto intro!: ensures_at_mono [OF assms(1)])

lemma ensures_at_conj:
  "ensures_at m w Q \<Longrightarrow> ensures_at m w Q' \<Longrightarrow> ensures_at m w (\<lambda>r es w'. Q r es w' \<and> Q' r es w')"
  by (auto simp: ensures_at_def split: prod.splits)

text \<open>An invariant of the carried variable and the calls so far, for a loop that returned.\<close>

lemma foldE_invariant:
  assumes "\<And>x s es w. x \<in> set xs \<Longrightarrow> I s es \<Longrightarrow>
      ensures_at (body x s) w (\<lambda>r es2 w'. \<forall>s'. r = Ok s' \<longrightarrow> I s' (es @ es2))"
    and "I s es"
  shows "ensures_at (foldE body xs s) w (\<lambda>r es2 w'. \<forall>s'. r = Ok s' \<longrightarrow> I s' (es @ es2))"
  using assms
proof (induction xs arbitrary: s es w)
  case (Cons x xs)
  show ?case unfolding foldE.simps
  proof (rule ensures_at_bindI [OF Cons.prems(1) [OF _ Cons.prems(2)]], goal_cases)
    case (2 s' es2 w')
    then show ?case using Cons.IH [of s' "es @ es2" w'] Cons.prems(1) by simp
  qed auto
qed simp

lemmas ensures_at_rules = ensures_at_check ensures_at_bind ensures_at_attempt ensures_at_defer ensures_at_lift
  ensures_at_local

section \<open>Successful computations\<close>

lemma bindE_OkE:
  assumes "bindE m f w = (Ok y, es, w')"
  obtains x es1 w1 es2 where "m w = (Ok x, es1, w1)" "f x w1 = (Ok y, es2, w')" "es = es1 @ es2"
  using assms by (auto simp: bindE_def split: prod.splits outcome.splits)

lemma deferE_OkE:
  assumes "deferE m d w = (Ok y, es, w')"
  obtains r es1 w1 es2 where "m w = (Ok y, es1, w1)" "d w1 = (r, es2, w')" "es = es1 @ es2"
  using assms by (auto simp: deferE_def split: prod.splits outcome.splits if_splits)

lemma checkE_OkE: "checkE c w = (Ok y, es, w') \<Longrightarrow> c = None \<and> es = [] \<and> w' = w"
  by (auto simp: checkE_def retE_def failE_def split: option.splits)

lemma attempt_InrE: "attempt m w = (Ok (Inr x), es, w') \<Longrightarrow> m w = (Ok x, es, w')"
  by (auto simp: attempt_def split: prod.splits outcome.splits)

text \<open>
  A loop that ended well: \<open>G\<close> is a property of the carried variable that a pass can lose but not regain, and
  \<open>Q\<close> what a pass that kept it has called.
\<close>

lemma foldE_segments:
  assumes step: "\<And>x s w s' es w'. body x s w = (Ok s', es, w') \<Longrightarrow> G s' \<Longrightarrow> G s \<and> Q x es"
    and "foldE body xs s w = (Ok s', es, w')" and "G s'"
  shows "G s \<and> (\<exists>segs. es = concat segs \<and> list_all2 Q xs segs)"
  using assms(2)
proof (induction xs arbitrary: s w es)
  case (Cons x xs)
  from Cons.prems obtain s1 es1 w1 es2 where b: "body x s w = (Ok s1, es1, w1)" and f: "foldE body xs s1 w1 = (Ok s', es2, w')"
    and es: "es = es1 @ es2" by (auto elim: bindE_OkE)
  obtain segs where g: "G s1" and s: "es2 = concat segs" "list_all2 Q xs segs" using Cons.IH [OF f] by auto
  show ?case using step [OF b g] s es by (auto intro!: exI [of _ "es1 # segs"])
qed (simp add: retE_def assms(3))

section \<open>Properties of the call list\<close>

text \<open>
  \<open>traces P m\<close>: from every world, the calls \<open>m\<close> makes satisfy \<open>P\<close>, also those of a loop that has
  not returned.  \<open>completes P m\<close>: they do when \<open>m\<close> has returned or panicked, so that its deferred
  calls were made.
\<close>

definition traces_if :: "bool \<Rightarrow> ('e list \<Rightarrow> bool) \<Rightarrow> ('e, 'w, 'a) io \<Rightarrow> bool" where
  "traces_if done P m = (\<forall>w. ensures_at m w (\<lambda>r es w'. done \<and> r = Running \<or> P es))"

abbreviation traces :: "('e list \<Rightarrow> bool) \<Rightarrow> ('e, 'w, 'a) io \<Rightarrow> bool" where
  "traces \<equiv> traces_if False"

abbreviation completes :: "('e list \<Rightarrow> bool) \<Rightarrow> ('e, 'w, 'a) io \<Rightarrow> bool" where
  "completes \<equiv> traces_if True"

lemma traces_ifD: "traces_if d P m \<Longrightarrow> m w = (r, es, w') \<Longrightarrow> \<not> (d \<and> r = Running) \<Longrightarrow> P es"
  by (auto simp: traces_if_def ensures_at_def split: prod.splits dest!: spec [of _ w])

lemma traces_imp: "traces P m \<Longrightarrow> (\<And>es. P es \<Longrightarrow> Q es) \<Longrightarrow> traces_if d Q m"
  by (auto simp: traces_if_def ensures_at_def split: prod.splits)

text \<open>
  A property of call lists that holds of the empty list and of the concatenation of two
  lists it holds of is kept by every way the code is put together, so for such a property it
  is enough to look at the single calls.
\<close>

locale trace_property =
  fixes P :: "'e list \<Rightarrow> bool"
  assumes nil: "P []"
    and append: "P es \<Longrightarrow> P es' \<Longrightarrow> P (es @ es')"
begin

lemma ret: "traces_if d P (retE x)"
  by (simp add: traces_if_def nil)

lemma fail: "traces_if d P (failE e)"
  by (simp add: traces_if_def nil)

lemma panic: "traces_if d P (panicE e)"
  by (simp add: traces_if_def nil)

lemma running: "traces_if d P runningE"
  by (simp add: traces_if_def nil)

lemma get: "traces_if d P getE"
  by (simp add: traces_if_def nil)

lemma modify: "traces_if d P (modE f)"
  by (simp add: traces_if_def nil)

lemma bind: "traces_if d P m \<Longrightarrow> (\<And>x. traces_if d P (f x)) \<Longrightarrow> traces_if d P (bindE m f)"
  by (fastforce simp: traces_if_def ensures_at_def bindE_def append split: prod.splits outcome.splits)

lemma attempts: "traces_if d P m \<Longrightarrow> traces_if d P (attempt m)"
  by (auto simp: traces_if_def ensures_at_def attempt_def split: prod.splits outcome.splits)

lemma deferred: "traces_if d P m \<Longrightarrow> traces_if d P m' \<Longrightarrow> traces_if d P (deferE m m')"
  by (fastforce simp: traces_if_def ensures_at_def deferE_def append split: prod.splits outcome.splits)

lemma lift: "traces_if d P m \<Longrightarrow> traces_if d P (liftE m)"
  by (auto simp: traces_if_def ensures_at_def liftE_def split: prod.splits)

lemma local: "traces_if d P m \<Longrightarrow> traces_if d P (localE s m)"
  by (auto simp: traces_if_def ensures_at_local)

lemma loop: "(\<And>x. x \<in> set xs \<Longrightarrow> traces_if d P (body x)) \<Longrightarrow> traces_if d P (forE xs body)"
  by (induction xs) (auto intro!: ret bind)

lemma fold: "(\<And>x s. x \<in> set xs \<Longrightarrow> traces_if d P (body x s)) \<Longrightarrow> traces_if d P (foldE body xs s)"
  by (induction xs arbitrary: s) (auto intro!: ret bind)

lemma cond: "(b \<Longrightarrow> traces_if d P m) \<Longrightarrow> (\<not> b \<Longrightarrow> traces_if d P m') \<Longrightarrow> traces_if d P (if b then m else m')"
  by simp

lemma case_sum: "(\<And>e. x = Inl e \<Longrightarrow> traces_if d P (f e)) \<Longrightarrow> (\<And>y. x = Inr y \<Longrightarrow> traces_if d P (g y)) \<Longrightarrow>
    traces_if d P (case x of Inl e \<Rightarrow> f e | Inr y \<Rightarrow> g y)"
  by (cases x) auto

lemma case_option: "(x = None \<Longrightarrow> traces_if d P m) \<Longrightarrow> (\<And>y. x = Some y \<Longrightarrow> traces_if d P (g y)) \<Longrightarrow>
    traces_if d P (case x of None \<Rightarrow> m | Some y \<Rightarrow> g y)"
  by (cases x) auto

lemma case_prod: "(\<And>a b. x = (a, b) \<Longrightarrow> traces_if d P (f a b)) \<Longrightarrow> traces_if d P (case x of (a, b) \<Rightarrow> f a b)"
  by (cases x) auto

lemma check: "traces_if d P (checkE r)"
  by (simp add: checkE_def ret fail split: option.split)

lemma let_in: "traces_if d P (f x) \<Longrightarrow> traces_if d P (let y = x in f y)"
  by (simp add: Let_def)

lemma pure: "traces_if d P (outcomeE r)"
  by (simp add: traces_if_def nil)

lemma ticker: "traces_if d P (NewTicker n)"
  by (simp add: NewTicker_def ret panic)

lemma case_list: "(xs = [] \<Longrightarrow> traces_if d P m) \<Longrightarrow> (\<And>y ys. xs = y # ys \<Longrightarrow> traces_if d P (f y ys)) \<Longrightarrow>
    traces_if d P (case xs of [] \<Rightarrow> m | y # ys \<Rightarrow> f y ys)"
  by (cases xs) auto

lemmas intros = check ret fail panic pure ticker running get modify bind attempts deferred lift local loop fold cond case_sum
  case_option case_prod case_list let_in

end

text \<open>"Every call satisfies \<open>p\<close>" is such a property.\<close>

interpretation every_call: trace_property "list_all p"
  by unfold_locales auto

section \<open>Invariants of the variables and the calls\<close>

text \<open>
  \<open>maintains I m\<close>: whatever the outcome, if \<open>I\<close> holds of the variables and of the calls made so far,
  then it holds of the variables and the calls after \<open>m\<close>.
\<close>

definition maintains :: "('s \<Rightarrow> 'e list \<Rightarrow> bool) \<Rightarrow> ('e, 's \<times> 'w, 'a) io \<Rightarrow> bool" where
  "maintains I m \<longleftrightarrow> (\<forall>s w es. I s es \<longrightarrow> ensures_at m (s, w) (\<lambda>r es2 sw. I (fst sw) (es @ es2)))"

lemma maintains_pure:
  "maintains I (retE x)" "maintains I (failE e)" "maintains I (panicE e)" "maintains I runningE" "maintains I getE"
  "maintains I (checkE c)" "maintains I (outcomeE r)" "maintains I (NewTicker n)"
  by (simp_all add: maintains_def checkE_def NewTicker_def split: option.split)

lemma maintainsD: "maintains I m \<Longrightarrow> I s es \<Longrightarrow> ensures_at m (s, w) (\<lambda>r es2 sw. I (fst sw) (es @ es2))"
  by (simp add: maintains_def)

lemma maintains_bind:
  assumes "maintains I m" and "\<And>x. maintains I (f x)"
  shows "maintains I (bindE m f)"
  unfolding maintains_def
proof (intro allI impI)
  fix s w es
  assume "I s es"
  then show "ensures_at (bindE m f) (s, w) (\<lambda>r es2 sw. I (fst sw) (es @ es2))"
  proof (rule ensures_at_bindI [OF maintainsD [OF assms(1)]], goal_cases)
    case (1 x es2 sw)
    then show ?case using maintainsD [OF assms(2), where s = "fst sw" and es = "es @ es2" and w = "snd sw"] by simp
  qed
qed

lemma maintains_bind_get:
  "(\<And>s w es. I s es \<Longrightarrow> ensures_at (f s) (s, w) (\<lambda>r es2 sw. I (fst sw) (es @ es2))) \<Longrightarrow> maintains I (bindE getE f)"
  unfolding maintains_def by (simp add: ensures_at_bind)

lemma maintains_attempt: "maintains I m \<Longrightarrow> maintains I (attempt m)"
  by (simp add: maintains_def ensures_at_attempt)

lemma maintains_defer:
  assumes "maintains I m" and "maintains I d"
  shows "maintains I (deferE m d)"
  unfolding maintains_def
proof (intro allI impI)
  fix s w es
  assume "I s es"
  then show "ensures_at (deferE m d) (s, w) (\<lambda>r es2 sw. I (fst sw) (es @ es2))"
  proof (rule ensures_at_deferI [OF maintainsD [OF assms(1)]], goal_cases)
    case (2 r es2 sw)
    then show ?case using maintainsD [OF assms(2), where s = "fst sw" and es = "es @ es2" and w = "snd sw"] by simp
  qed
qed

lemma maintains_mod: "(\<And>s es. I s es \<Longrightarrow> I (f s) es) \<Longrightarrow> maintains I (modE f)"
  by (simp add: maintains_def)

lemma maintains_lift:
  assumes "traces (list_all q) m" and "\<And>s es e. q e \<Longrightarrow> I s es \<Longrightarrow> I s (es @ [e])"
  shows "maintains I (liftE m)"
proof -
  have "I s (es @ es2)" if "I s es" "list_all q es2" for s es es2
    using that
  proof (induction es2 arbitrary: es)
    case (Cons e es2)
    then show ?case using Cons.IH [of "es @ [e]"] assms(2) [of e s es] by simp
  qed simp
  then show ?thesis using assms(1)
    by (auto simp: maintains_def ensures_at_lift traces_if_def intro: ensures_at_mono)
qed

lemma maintains_for: "(\<And>x. x \<in> set xs \<Longrightarrow> maintains I (body x)) \<Longrightarrow> maintains I (forE xs body)"
  by (induction xs) (auto intro!: maintains_bind maintains_pure)

lemma maintains_fold: "(\<And>x s. x \<in> set xs \<Longrightarrow> maintains I (body x s)) \<Longrightarrow> maintains I (foldE body xs s)"
  by (induction xs arbitrary: s) (auto intro!: maintains_bind maintains_pure)

lemma maintains_cond:
  "(b \<Longrightarrow> maintains I m) \<Longrightarrow> (\<not> b \<Longrightarrow> maintains I m') \<Longrightarrow> maintains I (if b then m else m')"
  "(\<And>e. x = Inl e \<Longrightarrow> maintains I (f e)) \<Longrightarrow> (\<And>y. x = Inr y \<Longrightarrow> maintains I (g y)) \<Longrightarrow>
    maintains I (case x of Inl e \<Rightarrow> f e | Inr y \<Rightarrow> g y)"
  "(z = None \<Longrightarrow> maintains I m) \<Longrightarrow> (\<And>y. z = Some y \<Longrightarrow> maintains I (k y)) \<Longrightarrow>
    maintains I (case z of None \<Rightarrow> m | Some y \<Rightarrow> k y)"
  "(\<And>a b. p = (a, b) \<Longrightarrow> maintains I (r a b)) \<Longrightarrow> maintains I (case p of (a, b) \<Rightarrow> r a b)"
  "maintains I (l y) \<Longrightarrow> maintains I (let z = y in l z)"
  by (auto split: sum.split option.split prod.split simp: Let_def)

lemmas maintains_intros = maintains_pure maintains_bind maintains_attempt maintains_defer maintains_for maintains_fold
  maintains_cond

section \<open>Words\<close>

unbundle bit_operations_syntax

lemma nat_bit_top: "2 ^ k \<le> n \<Longrightarrow> n < 2 ^ Suc k \<Longrightarrow> bit (n::nat) k"
proof -
  assume "2 ^ k \<le> n" "n < 2 ^ Suc k"
  then have "n div 2 ^ k = 1" by (intro div_nat_eqI) auto
  then show ?thesis by (simp add: bit_iff_odd)
qed

lemma nat_and_pred: "0 < (n::nat) \<Longrightarrow> n AND (n - 1) = 0 \<longleftrightarrow> (\<exists>k. n = 2 ^ k)"
proof
  assume n: "0 < n" and z: "n AND (n - 1) = 0"
  obtain k where k: "2 ^ k \<le> n" "n < 2 ^ Suc k" using n ex_power_ivl1 [of 2 n] by auto
  have "\<not> (bit n k \<and> bit (n - 1) k)" using z by (metis bit_0_eq bot_apply bot_bool_def bit_and_iff)
  then have "\<not> 2 ^ k \<le> n - 1" using nat_bit_top [OF k] nat_bit_top [of k "n - 1"] k by fastforce
  then show "\<exists>k. n = 2 ^ k" using k by (intro exI [of _ k]) linarith
next
  assume "\<exists>k. n = 2 ^ k"
  then obtain k where "n = 2 ^ k" by blast
  moreover have "(2::nat) ^ k - 1 = mask k" by (simp add: mask_eq_exp_minus_1)
  ultimately show "n AND (n - 1) = 0"
    by (auto intro!: bit_eqI simp only: bit_and_iff bit_exp_iff bit_mask_iff bit_0_eq)
qed

lemma word_and_pred:
  "(x::'a::len word) \<noteq> 0 \<Longrightarrow> x AND (x - 1) = 0 \<longleftrightarrow> (\<exists>k. unat x = 2 ^ k)"
proof -
  assume x: "x \<noteq> 0"
  then have "unat (x AND (x - 1)) = unat x AND (unat x - 1)"
    by (simp add: unsigned_and_eq unat_minus_one)
  moreover have "x AND (x - 1) = 0 \<longleftrightarrow> unat (x AND (x - 1)) = 0" by (simp add: unat_eq_0)
  ultimately show ?thesis using nat_and_pred [of "unat x"] x by (simp add: unat_gt_0)
qed

lemma word_and_push_bit: "(x::'a::len word) AND push_bit k 1 = 0 \<longleftrightarrow> \<not> bit x k"
  by (simp add: push_bit_eq_mult and_exp_eq_0_iff_not_bit)

lemma sub_wrap: "c \<le> a \<Longrightarrow> a - c < 2 ^ LENGTH('a) \<Longrightarrow> unat (of_nat a - of_nat c :: 'a::len word) = a - c"
  by (simp add: unat_of_nat take_bit_nat_eq_self flip: of_nat_diff)
section \<open>Lists and maps\<close>

lemma min_list_in: "xs \<noteq> [] \<Longrightarrow> Min (set xs) \<in> set xs"
  by simp

lemma set_takeWhile_imp: "x \<in> set (takeWhile p xs) \<Longrightarrow> p x \<and> x \<in> set xs"
  by (auto dest: set_takeWhileD)

end
