(* ===== verification/Go_Float.thy ===== *)
theory Go_Float
  imports Complex_Main "HOL-Library.Log_Nat"
begin

text \<open>
  Go's \<^verbatim>\<open>float64\<close>.  All times, intervals and thresholds of the agent are
  \<^verbatim>\<open>float64\<close> seconds, so every comparison of the code is made on values that were
  rounded.  A finite value is the rational it denotes; an operation computes the exact
  rational result and rounds it to the nearest binary64 value, ties to even, as the
  amd64 SSE2 instructions do.  The two zeros are one value: nothing in the program
  divides by a float that can be zero or looks at a sign bit.

  The facts the components use: rounding is monotone, and it is exact on integers of
  magnitude at most \<open>2 ^ 53\<close>.
\<close>

datatype f64 = NaN | PInf | NInf | Fin rat

section \<open>Rounding a rational to binary64\<close>

definition pow2 :: "int \<Rightarrow> rat" where
  "pow2 e = (if 0 \<le> e then 2 ^ nat e else 1 / 2 ^ nat (- e))"

definition ilog2 :: "rat \<Rightarrow> int" where
  "ilog2 x = (case quotient_of x of (p, q) \<Rightarrow>
     let l = bitlen p - bitlen q in if pow2 l \<le> x then l else l - 1)"

definition rne :: "rat \<Rightarrow> int" where
  "rne x = (let f = \<lfloor>x\<rfloor>; d = x - of_int f in
     if d < 1 / 2 then f else if 1 / 2 < d then f + 1 else if even f then f else f + 1)"

definition expo :: "rat \<Rightarrow> int" where
  "expo x = max (ilog2 \<bar>x\<bar> - 52) (- 1074)"

definition rndv :: "rat \<Rightarrow> rat" where
  "rndv x = (if x = 0 then 0 else of_int (rne (x / pow2 (expo x))) * pow2 (expo x))"

definition rnd :: "rat \<Rightarrow> f64" where
  "rnd x = (let y = rndv x in
     if pow2 1024 \<le> y then PInf else if y \<le> - pow2 1024 then NInf else Fin y)"

lemma pow2_pos [simp]: "0 < pow2 e" "pow2 e \<noteq> 0" "0 \<le> pow2 e"
  by (simp_all add: pow2_def)

lemma pow2_powi: "pow2 e = 2 powi e"
  by (simp add: pow2_def power_int_def field_simps)

lemma pow2_add: "pow2 (a + b) = pow2 a * pow2 b"
  by (simp add: pow2_powi power_int_add)

lemma pow2_mono: "a \<le> b \<Longrightarrow> pow2 a \<le> pow2 b"
  by (simp add: pow2_powi power_int_increasing)

lemma pow2_less_cancel: "pow2 a < pow2 b \<Longrightarrow> a < b"
  by (meson linorder_not_less pow2_mono)

lemma pow2_nat: "0 \<le> e \<Longrightarrow> pow2 e = of_int (2 ^ nat e)"
  by (simp add: pow2_def)

lemma bitlen_bounds': "0 < p \<Longrightarrow> 2 powi (bitlen p - 1) \<le> rat_of_int p \<and> rat_of_int p < 2 powi (bitlen p)"
proof -
  assume p: "0 < p"
  have "0 \<le> log 2 (real_of_int p)" using p by simp
  then have b: "0 < bitlen p" using p zero_le_floor [of "log 2 (real_of_int p)"] by (simp add: bitlen_def floorlog_def del: zero_le_floor)
  from bitlen_bounds [OF p] have "2 ^ nat (bitlen p - 1) \<le> p" "p < 2 ^ nat (bitlen p)" by auto
  then have "rat_of_int (2 ^ nat (bitlen p - 1)) \<le> of_int p" "rat_of_int p < of_int (2 ^ nat (bitlen p))"
    by (simp_all only: of_int_le_iff of_int_less_iff)
  then show ?thesis using b by (simp add: power_int_def)
qed

lemma ilog2_bounds: "0 < x \<Longrightarrow> pow2 (ilog2 x) \<le> x \<and> x < pow2 (ilog2 x + 1)"
proof -
  assume x: "0 < x"
  obtain p q where pq: "quotient_of x = (p, q)" by (cases "quotient_of x")
  have q: "0 < q" using pq by (rule quotient_of_denom_pos)
  have xe: "x = of_int p / of_int q" using pq by (rule quotient_of_div)
  have p: "0 < p" using x xe q by (simp add: zero_less_divide_iff)
  define l where "l = bitlen p - bitlen q"
  have P: "2 powi (bitlen p - 1) \<le> rat_of_int p" "rat_of_int p < 2 powi (bitlen p)"
    using bitlen_bounds' [OF p] by auto
  have Q: "2 powi (bitlen q - 1) \<le> rat_of_int q" "rat_of_int q < 2 powi (bitlen q)"
    using bitlen_bounds' [OF q] by auto
  have qp: "0 < rat_of_int q" using q by simp
  have "x < 2 powi bitlen p / 2 powi (bitlen q - 1)"
    unfolding xe by (rule frac_less) (use P Q p in auto)
  also have "\<dots> = pow2 (l + 1)" by (simp add: pow2_powi l_def power_int_diff power_int_add field_simps)
  finally have up: "x < pow2 (l + 1)" .
  have "pow2 (l - 1) = 2 powi (bitlen p - 1) / 2 powi bitlen q"
    by (simp add: pow2_powi l_def power_int_diff power_int_add field_simps)
  also have "\<dots> \<le> x" unfolding xe by (rule frac_le) (use P Q p qp in auto)
  finally have lo: "pow2 (l - 1) \<le> x" .
  show ?thesis
    using up lo by (auto simp: ilog2_def pq l_def [symmetric] Let_def not_le)
qed

lemma ilog2_mono: "0 < x \<Longrightarrow> x \<le> y \<Longrightarrow> ilog2 x \<le> ilog2 y"
proof -
  assume "0 < x" "x \<le> y"
  then have "pow2 (ilog2 x) < pow2 (ilog2 y + 1)"
    using ilog2_bounds [of x] ilog2_bounds [of y] by linarith
  then show ?thesis using pow2_less_cancel by fastforce
qed

lemma rne_floor: "\<lfloor>x\<rfloor> \<le> rne x" "rne x \<le> \<lfloor>x\<rfloor> + 1"
  by (auto simp: rne_def Let_def)

lemma rne_of_int [simp]: "rne (of_int n) = n"
  by (simp add: rne_def)

lemma rne_mono: "x \<le> y \<Longrightarrow> rne x \<le> rne y"
proof -
  assume le: "x \<le> y"
  show ?thesis
  proof (cases "\<lfloor>x\<rfloor> = \<lfloor>y\<rfloor>")
    case True
    then show ?thesis using le by (auto simp: rne_def Let_def)
  next
    case False
    then have "\<lfloor>x\<rfloor> + 1 \<le> \<lfloor>y\<rfloor>" using floor_mono [OF le] by linarith
    then show ?thesis using rne_floor(2) [of x] rne_floor(1) [of y] by linarith
  qed
qed

lemma rne_uminus: "rne (- x) = - rne x"
proof (cases "x = of_int \<lfloor>x\<rfloor>")
  case True
  then obtain n where "x = of_int n" by blast
  then show ?thesis using rne_of_int [of "- n"] by simp
next
  case False
  then have "of_int \<lfloor>x\<rfloor> < x" "x < of_int \<lfloor>x\<rfloor> + 1"
    using floor_correct [of x] le_less [of "rat_of_int \<lfloor>x\<rfloor>" x] by auto
  then have "\<lfloor>- x\<rfloor> = - \<lfloor>x\<rfloor> - 1"
    by (intro floor_unique) auto
  then show ?thesis by (auto simp: rne_def Let_def)
qed

lemma expo_uminus [simp]: "expo (- x) = expo x"
  by (simp add: expo_def)

lemma rndv_uminus [simp]: "rndv (- x) = - rndv x"
  by (simp add: rndv_def rne_uminus)

lemma rndv_0 [simp]: "rndv 0 = 0"
  by (simp add: rndv_def)

lemma rndv_nonneg: "0 \<le> x \<Longrightarrow> 0 \<le> rndv x"
proof -
  assume "0 \<le> x"
  then have "rne 0 \<le> rne (x / pow2 (expo x))" by (intro rne_mono) simp
  then show ?thesis by (simp add: rndv_def rne_of_int [of 0, simplified])
qed

text \<open>A value on the grid of \<open>x\<close> bounds the rounded value as it bounds \<open>x\<close>.\<close>

lemma rndv_le_grid: "0 < x \<Longrightarrow> x \<le> of_int n * pow2 (expo x) \<Longrightarrow> rndv x \<le> of_int n * pow2 (expo x)"
proof -
  assume x: "0 < x" and le: "x \<le> of_int n * pow2 (expo x)"
  then have "x / pow2 (expo x) \<le> of_int n" by (simp add: field_simps)
  then have "rne (x / pow2 (expo x)) \<le> n" using rne_mono rne_of_int by metis
  then show ?thesis using x by (simp add: rndv_def)
qed

lemma rndv_ge_grid: "0 < x \<Longrightarrow> of_int n * pow2 (expo x) \<le> x \<Longrightarrow> of_int n * pow2 (expo x) \<le> rndv x"
proof -
  assume x: "0 < x" and le: "of_int n * pow2 (expo x) \<le> x"
  then have "of_int n \<le> x / pow2 (expo x)" by (simp add: field_simps)
  then have "n \<le> rne (x / pow2 (expo x))" using rne_mono rne_of_int by metis
  then show ?thesis using x by (simp add: rndv_def)
qed

lemma rndv_mono_pos:
  assumes "0 < x" "x \<le> y" shows "rndv x \<le> rndv y"
proof (cases "expo x = expo y")
  case True
  have "rne (x / pow2 (expo y)) \<le> rne (y / pow2 (expo y))"
    by (rule rne_mono) (use assms in \<open>simp add: divide_right_mono\<close>)
  then show ?thesis using assms True by (simp add: rndv_def)
next
  case False
  have l: "ilog2 x \<le> ilog2 y" using assms ilog2_mono by blast
  with False assms have ey: "expo y = ilog2 y - 52" and lt: "expo x < expo y" and lx: "ilog2 x < ilog2 y"
    by (auto simp: expo_def max_def split: if_splits)
  define B where "B = pow2 (ilog2 y)"
  have By: "B = of_int (2 ^ 52) * pow2 (expo y)"
    unfolding B_def ey by (simp add: pow2_powi power_int_diff)
  have "B = of_int (2 ^ nat (ilog2 y - expo x)) * pow2 (expo x)"
    using lt ey pow2_nat [of "ilog2 y - expo x"] pow2_add [of "ilog2 y - expo x" "expo x"] by (simp add: B_def)
  moreover have "x \<le> B"
    using ilog2_bounds [OF assms(1)] pow2_mono [of "ilog2 x + 1" "ilog2 y"] lx by (simp add: B_def)
  ultimately have "rndv x \<le> B" using rndv_le_grid [OF assms(1)] by metis
  also have "B \<le> y" using ilog2_bounds [of y] assms by (simp add: B_def)
  then have "B \<le> rndv y" using rndv_ge_grid [of y] By assms by (metis less_le_trans)
  finally show ?thesis .
qed

lemma rndv_mono: "x \<le> y \<Longrightarrow> rndv x \<le> rndv y"
proof -
  assume le: "x \<le> y"
  consider "0 < x" | "x \<le> 0" "0 \<le> y" | "y < 0" by linarith
  then show ?thesis
  proof cases
    case 1 then show ?thesis using le by (rule rndv_mono_pos)
  next
    case 2
    then have "0 \<le> rndv (- x)" "0 \<le> rndv y" by (intro rndv_nonneg; simp)+
    then show ?thesis by simp
  next
    case 3
    then have "rndv (- y) \<le> rndv (- x)" using le by (intro rndv_mono_pos) auto
    then show ?thesis by simp
  qed
qed

text \<open>Rounding is exact on \<open>m * 2 ^ k\<close> with a significand of at most 53 bits.\<close>

lemma rndv_exact_pos:
  assumes "0 < m" "m \<le> 2 ^ 53" "- 1074 \<le> k" shows "rndv (of_int m * pow2 k) = of_int m * pow2 k"
proof -
  define x where "x = of_int m * pow2 k"
  have x: "0 < x" using assms by (simp add: x_def)
  show ?thesis
  proof (cases "expo x \<le> k")
    case True
    have "x = of_int (m * 2 ^ nat (k - expo x)) * pow2 (expo x)"
      using True pow2_nat [of "k - expo x"] pow2_add [of "k - expo x" "expo x"] by (simp add: x_def)
    then have "rndv x = x"
      using rndv_le_grid [OF x] rndv_ge_grid [OF x] by (metis order_antisym order_refl)
    then show ?thesis by (simp add: x_def)
  next
    case False
    then have e: "expo x = ilog2 x - 52" using assms(3) using x by (auto simp: expo_def max_def split: if_splits)
    have "pow2 (ilog2 x) \<le> x" using ilog2_bounds [OF x] by simp
    also have "x \<le> pow2 (k + 53)"
    proof -
      have "rat_of_int m \<le> of_int (2 ^ 53)" using assms by (simp only: of_int_le_iff)
      then show ?thesis by (simp add: x_def pow2_add) (simp add: pow2_def)
    qed
    finally have "ilog2 x \<le> k + 53" using pow2_mono pow2_less_cancel
      by (metis leI linorder_not_less pow2_powi power_int_strict_increasing one_less_numeral_iff semiring_norm(76) less_le_not_le)
    with False e have "ilog2 x = k + 53" by linarith
    then have "x = pow2 (k + 53)" using \<open>pow2 (ilog2 x) \<le> x\<close> \<open>x \<le> pow2 (k + 53)\<close> by simp
    then have "x = of_int (2 ^ 52) * pow2 (expo x)"
      using e \<open>ilog2 x = k + 53\<close> by (simp add: pow2_powi power_int_add)
    then have "rndv x = x"
      using rndv_le_grid [OF x] rndv_ge_grid [OF x] by (metis order_antisym order_refl)
    then show ?thesis by (simp add: x_def)
  qed
qed

lemma rndv_of_int: "\<bar>n\<bar> \<le> 2 ^ 53 \<Longrightarrow> rndv (of_int n) = of_int n"
proof -
  assume n: "\<bar>n\<bar> \<le> 2 ^ 53"
  have p: "rndv (of_int m) = of_int m" if "0 < m" "m \<le> 2 ^ 53" for m
    using rndv_exact_pos [of m 0] that by (simp add: pow2_def)
  consider "n = 0" | "0 < n" | "0 < - n" by linarith
  then show ?thesis
  proof cases
    case 3
    then have "rndv (of_int (- n)) = of_int (- n)" using n by (intro p) auto
    then show ?thesis by simp
  qed (use n p in auto)
qed

section \<open>Rounding to a value\<close>

lemma rndv_small: "x \<noteq> 0 \<Longrightarrow> expo x < 971 \<Longrightarrow> \<bar>rndv x\<bar> < pow2 1024"
proof -
  assume x: "x \<noteq> 0" and e: "expo x < 971"
  have "\<bar>x\<bar> < pow2 (ilog2 \<bar>x\<bar> + 1)" using x ilog2_bounds [of "\<bar>x\<bar>"] by simp
  also have "\<dots> \<le> pow2 1023" using e by (intro pow2_mono) (simp add: expo_def)
  finally have lt: "\<bar>x\<bar> \<le> pow2 1023" by simp
  have "rndv \<bar>x\<bar> \<le> rndv (pow2 1023)" using lt by (rule rndv_mono)
  also have "rndv (pow2 1023) = pow2 1023" using rndv_exact_pos [of 1 1023] by simp
  also have "pow2 1023 < pow2 1024" using pow2_add [of 1 1023] pow2_pos [of 1023] by (simp add: pow2_def [of 1])
  finally have "rndv \<bar>x\<bar> < pow2 1024" .
  moreover have "\<bar>rndv x\<bar> = rndv \<bar>x\<bar>" using rndv_nonneg [of "\<bar>x\<bar>"] by (cases "0 \<le> x") auto
  ultimately show ?thesis by simp
qed

text \<open>The overflow test by the exponent: what evaluates.\<close>

lemma rnd_code [code]:
  "rnd x = (if x = 0 then Fin 0 else if expo x < 971 then Fin (rndv x)
     else if pow2 1024 \<le> rndv x then PInf else if rndv x \<le> - pow2 1024 then NInf else Fin (rndv x))"
proof (cases "x = 0")
  case True
  then show ?thesis using pow2_pos(1) [of 1024] by (simp add: rnd_def Let_def not_le)
next
  case False
  then show ?thesis using rndv_small [of x] by (auto simp: rnd_def Let_def abs_less_iff)
qed

fun f64_le :: "f64 \<Rightarrow> f64 \<Rightarrow> bool" where
  "f64_le NaN b = False"
| "f64_le a NaN = False"
| "f64_le NInf b = True"
| "f64_le a PInf = True"
| "f64_le (Fin x) (Fin y) = (x \<le> y)"
| "f64_le a b = False"

definition f64_lt :: "f64 \<Rightarrow> f64 \<Rightarrow> bool" where
  "f64_lt a b = (f64_le a b \<and> \<not> f64_le b a)"

definition is_fin :: "f64 \<Rightarrow> bool" where
  "is_fin a = (case a of Fin _ \<Rightarrow> True | _ \<Rightarrow> False)"

definition IsInf :: "f64 \<Rightarrow> bool" where
  "IsInf a = (a = PInf \<or> a = NInf)"

fun f64_neg :: "f64 \<Rightarrow> f64" where
  "f64_neg NaN = NaN" | "f64_neg PInf = NInf" | "f64_neg NInf = PInf" | "f64_neg (Fin x) = Fin (- x)"

fun f64_add :: "f64 \<Rightarrow> f64 \<Rightarrow> f64" where
  "f64_add NaN b = NaN"
| "f64_add a NaN = NaN"
| "f64_add PInf b = (if b = NInf then NaN else PInf)"
| "f64_add NInf b = (if b = PInf then NaN else NInf)"
| "f64_add (Fin x) (Fin y) = rnd (x + y)"
| "f64_add (Fin x) b = b"

definition f64_sub :: "f64 \<Rightarrow> f64 \<Rightarrow> f64" where
  "f64_sub a b = f64_add a (f64_neg b)"

fun f64_sgn :: "f64 \<Rightarrow> rat" where
  "f64_sgn (Fin x) = sgn x" | "f64_sgn PInf = 1" | "f64_sgn NInf = - 1" | "f64_sgn NaN = 0"

definition f64_inf :: "rat \<Rightarrow> f64" where
  "f64_inf s = (if 0 < s then PInf else if s < 0 then NInf else NaN)"

fun f64_mul :: "f64 \<Rightarrow> f64 \<Rightarrow> f64" where
  "f64_mul (Fin x) (Fin y) = rnd (x * y)"
| "f64_mul a b = f64_inf (f64_sgn a * f64_sgn b)"

text \<open>
  Division.  The divisors of the program are the constant \<open>10 ^ 9\<close> and a positive count, so a
  zero divisor (whose sign of zero would decide the result) is given as \<open>NaN\<close> and never occurs.
\<close>

fun f64_div :: "f64 \<Rightarrow> f64 \<Rightarrow> f64" where
  "f64_div (Fin x) (Fin y) = (if y = 0 then NaN else rnd (x / y))"
| "f64_div (Fin x) PInf = Fin 0"
| "f64_div (Fin x) NInf = Fin 0"
| "f64_div NaN b = NaN"
| "f64_div a (Fin y) = f64_inf (f64_sgn a * sgn y)"
| "f64_div a b = NaN"

definition f64_of_int :: "int \<Rightarrow> f64" where
  "f64_of_int n = rnd (of_int n)"

text \<open>
  The conversion \<^verbatim>\<open>int64(x)\<close> truncates towards zero; where the value does not fit, the
  amd64 instruction delivers the "integer indefinite" value \<open>- 2 ^ 63\<close>.
\<close>

definition rat_trunc :: "rat \<Rightarrow> int" where
  "rat_trunc x = (if 0 \<le> x then \<lfloor>x\<rfloor> else \<lceil>x\<rceil>)"

fun f64_to_int64 :: "f64 \<Rightarrow> int" where
  "f64_to_int64 (Fin x) =
     (if - (2 ^ 63) \<le> rat_trunc x \<and> rat_trunc x < 2 ^ 63 then rat_trunc x else - (2 ^ 63))"
| "f64_to_int64 a = - (2 ^ 63)"

section \<open>Order\<close>

lemma f64_le_refl [simp]: "f64_le a a \<longleftrightarrow> a \<noteq> NaN"
  by (cases a) auto

lemma f64_le_not_NaN: "f64_le a b \<Longrightarrow> a \<noteq> NaN \<and> b \<noteq> NaN"
  by (cases a; cases b) auto

lemma f64_le_trans: "f64_le a b \<Longrightarrow> f64_le b c \<Longrightarrow> f64_le a c"
  by (cases a; cases b; cases c) auto

lemma f64_le_linear: "a \<noteq> NaN \<Longrightarrow> b \<noteq> NaN \<Longrightarrow> f64_le a b \<or> f64_le b a"
  by (cases a; cases b) auto

lemma f64_lt_iff: "f64_lt a b \<longleftrightarrow> a \<noteq> NaN \<and> b \<noteq> NaN \<and> \<not> f64_le b a"
  by (cases a; cases b) (auto simp: f64_lt_def)

lemma f64_le_antisym: "f64_le a b \<Longrightarrow> f64_le b a \<Longrightarrow> a = b"
  by (cases a; cases b) auto

lemma f64_lt_Fin [simp]: "f64_lt (Fin x) (Fin y) \<longleftrightarrow> x < y"
  by (auto simp: f64_lt_def)

lemma f64_le_NInf [simp]: "f64_le a NInf \<longleftrightarrow> a = NInf" "f64_le NInf a \<longleftrightarrow> a \<noteq> NaN"
  by (cases a; auto)+

lemma f64_le_PInf [simp]: "f64_le PInf a \<longleftrightarrow> a = PInf" "f64_le a PInf \<longleftrightarrow> a \<noteq> NaN"
  by (cases a; auto)+

lemma is_fin_Fin [simp]: "is_fin (Fin x)" "\<not> is_fin PInf" "\<not> is_fin NInf" "\<not> is_fin NaN"
  by (auto simp: is_fin_def)

lemma is_finE: "is_fin a \<Longrightarrow> (\<And>x. a = Fin x \<Longrightarrow> P) \<Longrightarrow> P"
  by (cases a) auto

lemma is_fin_not_NaN: "is_fin a \<Longrightarrow> a \<noteq> NaN"
  by auto

lemma rnd_not_NaN [simp]: "rnd x \<noteq> NaN"
  by (simp add: rnd_def Let_def)

lemma rnd_mono: "x \<le> y \<Longrightarrow> f64_le (rnd x) (rnd y)"
  using rndv_mono [of x y] pow2_pos(1) [of 1024] by (auto simp: rnd_def Let_def not_le)

lemma rnd_int: "\<bar>n\<bar> \<le> 2 ^ 53 \<Longrightarrow> rnd (of_int n) = Fin (of_int n)"
proof -
  assume n: "\<bar>n\<bar> \<le> 2 ^ 53"
  have "\<bar>rat_of_int n\<bar> \<le> of_int (2 ^ 53)" using n by (simp only: of_int_le_iff flip: of_int_abs)
  moreover have "rat_of_int (2 ^ 53) < pow2 1024" using pow2_mono [of 54 1024] by (simp add: pow2_def [of 54])
  ultimately have "\<bar>rat_of_int n\<bar> < pow2 1024" by (rule le_less_trans)
  then show ?thesis using rndv_of_int [OF n] by (auto simp: rnd_def Let_def abs_less_iff)
qed

lemma rnd_numeral [simp]:
  "numeral k \<le> (2 ^ 53 :: int) \<Longrightarrow> rnd (numeral k) = Fin (numeral k)"
  "numeral k \<le> (2 ^ 53 :: int) \<Longrightarrow> rnd (- numeral k) = Fin (- numeral k)"
  "rnd 0 = Fin 0" "rnd 1 = Fin 1" "rnd (- 1) = Fin (- 1)"
  using rnd_int [of "numeral k"] rnd_int [of "- numeral k"] rnd_int [of 0] rnd_int [of 1] rnd_int [of "- 1"]
  by simp_all

section \<open>Subtraction of times\<close>

lemma f64_sub_Fin [simp]: "f64_sub (Fin x) (Fin y) = rnd (x - y)"
  by (simp add: f64_sub_def)

lemma f64_sub_NInf [simp]: "f64_sub (Fin x) NInf = PInf"
  by (simp add: f64_sub_def)

lemma f64_sub_self: "is_fin a \<Longrightarrow> f64_sub a a = Fin 0"
  by (auto elim: is_finE)

lemma f64_sub_not_NaN: "is_fin a \<Longrightarrow> b \<noteq> NaN \<Longrightarrow> f64_sub a b \<noteq> NaN"
  by (cases b) (auto elim!: is_finE simp: f64_sub_def)

lemma f64_sub_mono: "is_fin a \<Longrightarrow> is_fin b \<Longrightarrow> f64_le a b \<Longrightarrow> c \<noteq> NaN \<Longrightarrow> f64_le (f64_sub a c) (f64_sub b c)"
  by (cases c) (auto elim!: is_finE simp: rnd_mono, simp_all add: f64_sub_def)

lemma f64_sub_antimono: "is_fin c \<Longrightarrow> f64_le a b \<Longrightarrow> f64_le (f64_sub c b) (f64_sub c a)"
  by (cases a; cases b) (auto elim!: is_finE simp: rnd_mono, simp_all add: f64_sub_def)

end
