(* ===== verification/Timers.thy ===== *)
theory Timers
  imports Go_Prelude Go_Float
begin

text \<open>
  Two contracts that several components of the agent share, stated on what the code can see:
  a stream of samples taken at clock readings that never go back.

  \<open>stall_timer\<close>: a state machine that restarts a timer at every sample that breaks a run of
  samples without progress, and reports a stall when the timer has run for a threshold.  Its
  client lemma says what such a report means for the whole history of samples.

  \<open>rate_limiter\<close>: a budget that is asked before every kick and told of it afterwards.  Its
  client lemma says that the kicks keep the cooldown and the hourly maximum.
\<close>

section \<open>Clock readings\<close>

text \<open>Finite readings that never go back.\<close>

definition clock_ok :: "f64 list \<Rightarrow> bool" where
  "clock_ok ts \<longleftrightarrow> list_all is_fin ts \<and> sorted_wrt f64_le ts"

lemma clock_ok_snoc: "clock_ok (ts @ [t]) \<longleftrightarrow> clock_ok ts \<and> is_fin t \<and> (\<forall>u \<in> set ts. f64_le u t)"
  by (auto simp: clock_ok_def sorted_wrt_append)

lemma clock_ok_fin: "clock_ok ts \<Longrightarrow> t \<in> set ts \<Longrightarrow> is_fin t"
  by (auto simp: clock_ok_def list_all_iff)

lemma clock_ok_nth: "clock_ok ts \<Longrightarrow> i \<le> j \<Longrightarrow> j < length ts \<Longrightarrow> f64_le (ts ! i) (ts ! j)"
proof (cases "i = j")
  case True
  assume "clock_ok ts" "j < length ts"
  then have "is_fin (ts ! j)" by (simp add: clock_ok_fin)
  then show ?thesis using True by (auto elim: is_finE)
qed (auto simp: clock_ok_def sorted_wrt_iff_nth_less)

section \<open>Stall timers\<close>

text \<open>
  The meaning of a stall report after the samples \<open>xs\<close>: the last sample shows a backlog, and
  some earlier sample lies at least \<open>thr\<close> seconds back with no progress between any two
  neighbouring samples since.
\<close>

definition stall_window ::
  "('x \<Rightarrow> 'x \<Rightarrow> bool) \<Rightarrow> ('x \<Rightarrow> bool) \<Rightarrow> ('x \<Rightarrow> f64) \<Rightarrow> f64 \<Rightarrow> 'x list \<Rightarrow> bool" where
  "stall_window keeps ok clk thr xs \<longleftrightarrow> xs \<noteq> [] \<and> ok (last xs) \<and>
     (\<exists>i < length xs. f64_le thr (f64_sub (clk (last xs)) (clk (xs ! i))) \<and>
        (\<forall>j. i < j \<and> j < length xs \<longrightarrow> keeps (xs ! (j - 1)) (xs ! j)))"

text \<open>Where the timer stands after \<open>xs\<close>: at the sample that began the current run.\<close>

definition run_start :: "('x \<Rightarrow> 'x \<Rightarrow> bool) \<Rightarrow> 'x list \<Rightarrow> nat \<Rightarrow> bool" where
  "run_start keeps xs i \<longleftrightarrow> i < length xs \<and> (i = 0 \<or> \<not> keeps (xs ! (i - 1)) (xs ! i)) \<and>
     (\<forall>j. i < j \<and> j < length xs \<longrightarrow> keeps (xs ! (j - 1)) (xs ! j))"

lemma run_start_snoc_keep:
  "run_start keeps xs i \<Longrightarrow> keeps (last xs) x \<Longrightarrow> run_start keeps (xs @ [x]) i"
proof -
  assume r: "run_start keeps xs i" and k: "keeps (last xs) x"
  then have i: "i < length xs" and n: "xs \<noteq> []" by (auto simp: run_start_def)
  have "keeps ((xs @ [x]) ! (j - 1)) ((xs @ [x]) ! j)" if "i < j" "j < length (xs @ [x])" for j
    using r k that n by (cases "j = length xs") (auto simp: run_start_def nth_append last_conv_nth)
  then show ?thesis using r i by (auto simp: run_start_def nth_append)
qed

lemma run_start_snoc_reset:
  "xs = [] \<or> \<not> keeps (last xs) x \<Longrightarrow> run_start keeps (xs @ [x]) (length xs)"
  by (cases "xs = []") (auto simp: run_start_def nth_append last_conv_nth)

lemma run_start_last:
  "run_start keeps xs i \<Longrightarrow> i' < length xs \<Longrightarrow>
   (\<forall>j. i' < j \<and> j < length xs \<longrightarrow> keeps (xs ! (j - 1)) (xs ! j)) \<Longrightarrow> i \<le> i'"
  by (fastforce simp: run_start_def not_le [symmetric])

locale stall_timer =
  fixes step :: "'st \<Rightarrow> 'x \<Rightarrow> bool \<times> 'st"
    and since :: "'st \<Rightarrow> f64"
    and keeps :: "'x \<Rightarrow> 'x \<Rightarrow> bool"
    and ok :: "'x \<Rightarrow> bool"
    and clk :: "'x \<Rightarrow> f64"
    and thr :: f64
    and after :: "'st \<Rightarrow> 'x option \<Rightarrow> bool"
  assumes step_after: "after st p \<Longrightarrow> after (snd (step st x)) (Some x)"
    and step_since: "after st p \<Longrightarrow> since (snd (step st x)) =
        (if \<exists>y. p = Some y \<and> keeps y x then since st else clk x)"
    and step_verdict: "after st p \<Longrightarrow> fst (step st x) \<longleftrightarrow>
        ok x \<and> f64_le thr (f64_sub (clk x) (since (snd (step st x))))"
begin

lemma run_since:
  "after st None \<Longrightarrow> xs \<noteq> [] \<Longrightarrow>
   after (fold (\<lambda>x st. snd (step st x)) xs st) (Some (last xs)) \<and>
   (\<exists>i. run_start keeps xs i \<and> since (fold (\<lambda>x st. snd (step st x)) xs st) = clk (xs ! i))"
proof (induction xs rule: rev_induct)
  case Nil
  then show ?case by simp
next
  case (snoc x xs)
  let ?st = "fold (\<lambda>x st. snd (step st x)) xs st"
  show ?case
  proof (cases "xs = []")
    case True
    then show ?thesis
      using snoc.prems step_after [of st None x] step_since [of st None x] run_start_snoc_reset [of "[]" keeps x]
      by auto
  next
    case False
    with snoc obtain i where a: "after ?st (Some (last xs))" and i: "run_start keeps xs i" "since ?st = clk (xs ! i)"
      by blast
    then have l: "i < length xs" by (simp add: run_start_def)
    show ?thesis
    proof (cases "keeps (last xs) x")
      case True
      then show ?thesis using a i l step_after [OF a] step_since [OF a] run_start_snoc_keep [of keeps xs i x]
        by (auto simp: nth_append intro!: exI [of _ i])
    next
      case False
      then show ?thesis using a step_after [OF a] step_since [OF a] run_start_snoc_reset [of xs keeps x]
        by (auto simp: nth_append intro!: exI [of _ "length xs"])
    qed
  qed
qed

theorem verdict_iff_window:
  assumes a: "after st None" and c: "clock_ok (map clk (xs @ [x]))"
  shows "fst (step (fold (\<lambda>x st. snd (step st x)) xs st) x) \<longleftrightarrow> stall_window keeps ok clk thr (xs @ [x])"
proof -
  let ?st = "fold (\<lambda>x st. snd (step st x)) xs st"
  have "\<exists>p. after ?st p" using run_since [OF a, of xs] a by (cases "xs = []") auto
  then obtain p where p: "after ?st p" by blast
  obtain i where i: "run_start keeps (xs @ [x]) i" "since (snd (step ?st x)) = clk ((xs @ [x]) ! i)"
    using run_since [OF a, of "xs @ [x]"] by auto
  have il: "i < length (xs @ [x])" using i(1) by (simp add: run_start_def)
  have v: "fst (step ?st x) \<longleftrightarrow> ok x \<and> f64_le thr (f64_sub (clk x) (clk ((xs @ [x]) ! i)))"
    using step_verdict [OF p] i(2) by simp
  have fin: "is_fin (clk x)" using c by (simp add: clock_ok_snoc)
  have mono: "f64_le (f64_sub (clk x) (clk ((xs @ [x]) ! i'))) (f64_sub (clk x) (clk ((xs @ [x]) ! i)))"
    if "i \<le> i'" "i' < length (xs @ [x])" for i'
    using f64_sub_antimono [OF fin] clock_ok_nth [OF c, of i i'] that il by (metis length_map nth_map)
  show ?thesis
  proof
    assume "fst (step ?st x)"
    then show "stall_window keeps ok clk thr (xs @ [x])"
      using v i(1) il unfolding stall_window_def run_start_def by (auto intro!: exI [of _ i])
  next
    assume "stall_window keeps ok clk thr (xs @ [x])"
    then obtain i' where "i' < length (xs @ [x])" "f64_le thr (f64_sub (clk x) (clk ((xs @ [x]) ! i')))" "ok x"
      "\<forall>j. i' < j \<and> j < length (xs @ [x]) \<longrightarrow> keeps ((xs @ [x]) ! (j - 1)) ((xs @ [x]) ! j)"
      unfolding stall_window_def by auto
    then show "fst (step ?st x)" using v mono run_start_last [OF i(1)] f64_le_trans by blast
  qed
qed

end

section \<open>Rate limits\<close>

text \<open>A kick counts against the hour as long as the code's own test says so.\<close>

definition recent :: "f64 \<Rightarrow> f64 \<Rightarrow> bool" where
  "recent now t = f64_lt (f64_sub now t) (Fin 3600)"

text \<open>
  A sequence of kicks keeps the policy: each comes at least \<open>cooldown\<close> after the one before,
  and with each, no more than \<open>maximum\<close> fall into the hour that ends with it.
\<close>

definition rate_ok :: "f64 \<Rightarrow> int \<Rightarrow> f64 list \<Rightarrow> bool" where
  "rate_ok cooldown maximum ks \<longleftrightarrow>
     (\<forall>j < length ks. (0 < j \<longrightarrow> f64_le cooldown (f64_sub (ks ! j) (ks ! (j - 1)))) \<and>
        int (length (filter (recent (ks ! j)) (take (Suc j) ks))) \<le> maximum)"

lemma rate_ok_Nil [simp]: "rate_ok c m []"
  by (simp add: rate_ok_def)

lemma recent_self: "is_fin now \<Longrightarrow> recent now now"
  by (simp add: recent_def f64_sub_self)

lemma rate_ok_snoc:
  assumes "rate_ok c m ks" and "is_fin now"
    and "ks \<noteq> [] \<Longrightarrow> f64_le c (f64_sub now (last ks))"
    and "int (length (filter (recent now) ks)) < m"
  shows "rate_ok c m (ks @ [now])"
  using assms by (auto simp: rate_ok_def nth_append last_conv_nth recent_self less_Suc_eq)

lemma recent_mono: "is_fin t0 \<Longrightarrow> is_fin now \<Longrightarrow> f64_le t0 now \<Longrightarrow> t \<noteq> NaN \<Longrightarrow> recent now t \<Longrightarrow> recent t0 t"
  using f64_sub_mono [of t0 now t] f64_sub_not_NaN [of t0 t] f64_le_trans
  by (auto simp: recent_def f64_lt_iff)

locale rate_limiter =
  fixes allowed :: "'d \<Rightarrow> f64 \<Rightarrow> bool \<times> 'd"
    and kicked :: "'d \<Rightarrow> f64 \<Rightarrow> 'd"
    and cooldown :: f64
    and maximum :: int
    and tracks :: "'d \<Rightarrow> f64 list \<Rightarrow> f64 \<Rightarrow> bool"
  assumes allowed_tracks: "tracks d ks t \<Longrightarrow> f64_le t now \<Longrightarrow> is_fin now \<Longrightarrow> tracks (snd (allowed d now)) ks now"
    and allowed_iff: "tracks d ks t \<Longrightarrow> f64_le t now \<Longrightarrow> is_fin now \<Longrightarrow> fst (allowed d now) \<longleftrightarrow>
        (ks \<noteq> [] \<longrightarrow> f64_le cooldown (f64_sub now (last ks))) \<and>
        int (length (filter (recent now) ks)) < maximum"
    and kicked_tracks: "tracks d ks now \<Longrightarrow> is_fin now \<Longrightarrow> tracks (kicked d now) (ks @ [now]) now"
begin

lemma ask_and_kick:
  assumes "rate_ok cooldown maximum ks" "tracks d ks t" "f64_le t now" "is_fin now" "fst (allowed d now)"
  shows "rate_ok cooldown maximum (ks @ [now]) \<and> tracks (kicked (snd (allowed d now)) now) (ks @ [now]) now"
  using assms allowed_iff allowed_tracks kicked_tracks by (auto intro!: rate_ok_snoc)

end

end
