(* ===== verification/Model.thy ===== *)
theory Model
  imports Timers
begin

unbundle bit_operations_syntax

text \<open>
  \<^verbatim>\<open>internal/watch/model.go\<close>: the snapshot of a vhost TX queue and its validation, the row
  reported per queue, and the stall detector with its recovery budget.
\<close>

type_synonym u8 = "8 word"
type_synonym u16 = "16 word"
type_synonym u32 = "32 word"
type_synonym u64 = "64 word"

section \<open>Snapshots\<close>

record Snapshot =
  sn_TimestampNS :: u64
  sn_VQ :: u64
  sn_KickFile :: u64
  sn_Context :: u64
  sn_Avail :: u64
  sn_Used :: u64
  sn_Backend :: u64
  sn_Features :: u64
  sn_WorkFlags :: u64
  sn_Work :: u64
  sn_Wait :: u64
  sn_PollWQH :: u64
  sn_ContextWQH :: u64
  sn_Num :: u32
  sn_EventID :: u32
  sn_LastAvail :: u16
  sn_LastUsed :: u16
  sn_LittleEndian :: u8
  sn_Reserved :: "u8 \<times> u8 \<times> u8"

definition zero_Snapshot :: Snapshot where
  "zero_Snapshot = \<lparr>sn_TimestampNS = 0, sn_VQ = 0, sn_KickFile = 0, sn_Context = 0, sn_Avail = 0,
     sn_Used = 0, sn_Backend = 0, sn_Features = 0, sn_WorkFlags = 0, sn_Work = 0, sn_Wait = 0,
     sn_PollWQH = 0, sn_ContextWQH = 0, sn_Num = 0, sn_EventID = 0, sn_LastAvail = 0,
     sn_LastUsed = 0, sn_LittleEndian = 0, sn_Reserved = (0, 0, 0)\<rparr>"

definition Identity :: "Snapshot \<Rightarrow> Snapshot" where
  "Identity s = s\<lparr>sn_TimestampNS := 0, sn_WorkFlags := 0, sn_LastAvail := 0, sn_LastUsed := 0\<rparr>"

definition Validate :: "Snapshot \<Rightarrow> error option" where
  "Validate s =
    (if sn_VQ s = 0 \<or> sn_KickFile s = 0 \<or> sn_Context s = 0 \<or> sn_Avail s = 0 \<or> sn_Used s = 0 \<or>
        sn_Backend s = 0
     then Some (ErrorString ''queue is not configured with a kick and backend'')
     else if sn_PollWQH s = 0 \<or> sn_PollWQH s \<noteq> sn_ContextWQH s
     then Some (ErrorString ''kick eventfd does not match the attached vhost waiter'')
     else if sn_Num s < 1 \<or> sn_Num s > 32768 \<or> sn_Num s AND (sn_Num s - 1) \<noteq> 0
     then Some (ErrorString ''invalid split-ring size'')
     else if sn_Features s AND push_bit 34 1 \<noteq> 0 \<or> sn_Features s AND push_bit 33 1 \<noteq> 0 \<or>
             sn_LittleEndian s \<noteq> 1
     then Some (ErrorString ''only little-endian split rings without IOMMU translation are supported'')
     else None)"

record Counters =
  ct_Signals :: u64
  ct_Writes :: u64
  ct_Wakeups :: u64
  ct_Handlers :: u64
  ct_LastSignalNS :: u64
  ct_LastWriteNS :: u64
  ct_LastWakeupNS :: u64
  ct_LastHandlerNS :: u64
  ct_Active :: u64

definition zero_Counters :: Counters where
  "zero_Counters = \<lparr>ct_Signals = 0, ct_Writes = 0, ct_Wakeups = 0, ct_Handlers = 0, ct_LastSignalNS = 0,
     ct_LastWriteNS = 0, ct_LastWakeupNS = 0, ct_LastHandlerNS = 0, ct_Active = 0\<rparr>"

record QueueRow =
  row_VhostFD :: int
  row_EventID :: u32
  row_Num :: u32
  row_Avail :: u16
  row_Used :: u16
  row_Consumed :: u16
  row_Pending :: u16
  row_Outstanding :: u16
  row_Stalled :: bool
  row_Busy :: bool
  row_Stages :: Counters

section \<open>The detector\<close>

record Detector =
  d_Threshold :: f64
  d_Cooldown :: f64
  d_Maximum :: int
  d_Since :: f64
  d_LastKick :: f64
  d_Reported :: bool
  d_identity :: Snapshot
  d_used :: u16
  d_consumed :: u16
  d_have :: bool
  d_attempts :: "f64 list"

definition NewDetector :: "f64 \<Rightarrow> f64 \<Rightarrow> int \<Rightarrow> Detector" where
  "NewDetector threshold cooldown maximum =
     \<lparr>d_Threshold = threshold, d_Cooldown = cooldown, d_Maximum = maximum, d_Since = Fin 0,
      d_LastKick = NInf, d_Reported = False, d_identity = zero_Snapshot, d_used = 0, d_consumed = 0,
      d_have = False, d_attempts = []\<rparr>"

definition Observe :: "Detector \<Rightarrow> Snapshot \<Rightarrow> u16 \<Rightarrow> u16 \<Rightarrow> bool \<Rightarrow> f64 \<Rightarrow> bool \<times> Detector" where
  "Observe d s avail used busy now =
    (let pending = avail - sn_LastAvail s;
         outstanding = avail - used;
         invalid = (ucast pending > sn_Num s \<or> ucast outstanding > sn_Num s);
         d1 = (if \<not> d_have d \<or> d_identity d \<noteq> Identity s \<or> d_used d \<noteq> used \<or>
                  d_consumed d \<noteq> sn_LastAvail s \<or> pending = 0 \<or> busy \<or> invalid
               then d\<lparr>d_Since := now, d_Reported := False\<rparr> else d);
         d2 = d1\<lparr>d_identity := Identity s, d_used := used, d_consumed := sn_LastAvail s, d_have := True\<rparr>
     in (pending > 0 \<and> \<not> invalid \<and> \<not> busy \<and> f64_le (d_Threshold d2) (f64_sub now (d_Since d2)), d2))"

definition Allowed :: "Detector \<Rightarrow> f64 \<Rightarrow> bool \<times> Detector" where
  "Allowed d now =
    (let d' = d\<lparr>d_attempts := filter (\<lambda>t. f64_lt (f64_sub now t) (Fin 3600)) (d_attempts d)\<rparr>
     in (f64_le (d_Cooldown d') (f64_sub now (d_LastKick d')) \<and>
         int (length (d_attempts d')) < d_Maximum d', d'))"

definition Kicked :: "Detector \<Rightarrow> f64 \<Rightarrow> Detector" where
  "Kicked d now = d\<lparr>d_LastKick := now, d_attempts := d_attempts d @ [now]\<rparr>"

section \<open>What a snapshot's identity and validation mean\<close>

lemma Identity_idem [simp]: "Identity (Identity s) = Identity s"
  by (simp add: Identity_def)

lemma Identity_fields [simp]:
  "sn_VQ (Identity s) = sn_VQ s" "sn_EventID (Identity s) = sn_EventID s" "sn_Num (Identity s) = sn_Num s"
  "sn_Context (Identity s) = sn_Context s" "sn_Wait (Identity s) = sn_Wait s"
  "sn_Avail (Identity s) = sn_Avail s" "sn_Used (Identity s) = sn_Used s"
  by (simp_all add: Identity_def)

lemma ring_size_iff:
  "\<not> (sn_Num s < 1 \<or> sn_Num s > 32768 \<or> sn_Num s AND (sn_Num s - 1) \<noteq> 0) \<longleftrightarrow>
   (\<exists>k \<le> 15. unat (sn_Num s) = 2 ^ k)" (is "?L \<longleftrightarrow> ?R")
proof
  assume l: ?L
  then have nz: "sn_Num s \<noteq> 0" by auto
  with l obtain k where k: "unat (sn_Num s) = 2 ^ k" using word_and_pred by auto
  have "unat (sn_Num s) \<le> 32768" using l by (simp add: not_less word_le_nat_alt)
  then have "(2::nat) ^ k \<le> 2 ^ 15" using k by simp
  then have "k \<le> 15" by (rule power_le_imp_le_exp [rotated]) simp
  with k show ?R by blast
next
  assume ?R
  then obtain k where k: "k \<le> 15" "unat (sn_Num s) = 2 ^ k" by blast
  then have nz: "sn_Num s \<noteq> 0" by (metis power_not_zero unat_0 zero_neq_numeral)
  have "(2::nat) ^ k \<le> 2 ^ 15" using k by (intro power_increasing) auto
  then have "sn_Num s \<le> 32768" using k by (simp add: word_le_nat_alt)
  moreover have "sn_Num s AND (sn_Num s - 1) = 0" using word_and_pred [OF nz] k by blast
  moreover have "\<not> sn_Num s < 1" using nz by (simp add: word_less_nat_alt unat_gt_0)
  ultimately show ?L by auto
qed

text \<open>
  C28. \<^verbatim>\<open>Snapshot.Validate\<close> accepts a snapshot exactly when the queue has all of its kernel
  objects, its kick eventfd's wait queue is the one the vhost poll is attached to, its size is a power
  of two of at most 32768 (the bit trick of the code decides that), and it is a little-endian
  split ring without IOMMU translation.
\<close>

theorem Validate_accepts_iff:
  "Validate s = None \<longleftrightarrow>
     sn_VQ s \<noteq> 0 \<and> sn_KickFile s \<noteq> 0 \<and> sn_Context s \<noteq> 0 \<and> sn_Avail s \<noteq> 0 \<and> sn_Used s \<noteq> 0 \<and>
     sn_Backend s \<noteq> 0 \<and> sn_PollWQH s \<noteq> 0 \<and> sn_PollWQH s = sn_ContextWQH s \<and>
     (\<exists>k \<le> 15. unat (sn_Num s) = 2 ^ k) \<and>
     \<not> bit (sn_Features s) 34 \<and> \<not> bit (sn_Features s) 33 \<and> sn_LittleEndian s = 1"
  using ring_size_iff [of s] word_and_push_bit [of "sn_Features s" 34] word_and_push_bit [of "sn_Features s" 33]
  by (auto simp: Validate_def)

text \<open>
  Two snapshots have the same identity exactly when they differ in nothing but the
  timestamp, the work flags and the two ring positions: no change of a kernel address, of the
  features, of the size or of the eventfd goes unnoticed.
\<close>

theorem Identity_eq_iff:
  "Identity a = Identity b \<longleftrightarrow>
     (\<exists>ts wf la lu. b = a\<lparr>sn_TimestampNS := ts, sn_WorkFlags := wf, sn_LastAvail := la, sn_LastUsed := lu\<rparr>)"
proof
  assume "Identity a = Identity b"
  then show "\<exists>ts wf la lu. b = a\<lparr>sn_TimestampNS := ts, sn_WorkFlags := wf, sn_LastAvail := la, sn_LastUsed := lu\<rparr>"
    by (cases a; cases b)
      (auto simp: Identity_def intro!: exI [of _ "sn_TimestampNS b"] exI [of _ "sn_WorkFlags b"]
         exI [of _ "sn_LastAvail b"] exI [of _ "sn_LastUsed b"])
qed (auto simp: Identity_def)

section \<open>The detector as a stall timer\<close>

type_synonym sample = "Snapshot \<times> u16 \<times> u16 \<times> bool \<times> f64"

definition observe_sample :: "Detector \<Rightarrow> sample \<Rightarrow> bool \<times> Detector" where
  "observe_sample d x = (case x of (s, avail, used, busy, now) \<Rightarrow> Observe d s avail used busy now)"

definition sample_time :: "sample \<Rightarrow> f64" where
  "sample_time x = (case x of (s, avail, used, busy, now) \<Rightarrow> now)"

text \<open>Unconsumed descriptors on a consistent ring that no worker is serving.\<close>

definition sample_backlog :: "sample \<Rightarrow> bool" where
  "sample_backlog x = (case x of (s, avail, used, busy, now) \<Rightarrow>
     avail \<noteq> sn_LastAvail s \<and> unat (avail - sn_LastAvail s) \<le> unat (sn_Num s) \<and>
     unat (avail - used) \<le> unat (sn_Num s) \<and> \<not> busy)"

text \<open>The same queue, with nothing completed and nothing consumed since.\<close>

definition sample_stuck :: "sample \<Rightarrow> sample \<Rightarrow> bool" where
  "sample_stuck y x = (case (y, x) of ((s0, avail0, used0, busy0, now0), (s, avail, used, busy, now)) \<Rightarrow>
     Identity s0 = Identity s \<and> used0 = used \<and> sn_LastAvail s0 = sn_LastAvail s)"

definition detector_after :: "f64 \<Rightarrow> Detector \<Rightarrow> sample option \<Rightarrow> bool" where
  "detector_after thr d p \<longleftrightarrow> d_Threshold d = thr \<and> (case p of None \<Rightarrow> \<not> d_have d
     | Some (s, avail, used, busy, now) \<Rightarrow> d_have d \<and> d_identity d = Identity s \<and> d_used d = used \<and>
         d_consumed d = sn_LastAvail s)"

lemma u16_in_ring: "(n::u32) < ucast (p::u16) \<longleftrightarrow> unat n < unat p"
proof -
  have "uint (ucast p :: u32) = uint p" by (rule uint_up_ucast) (simp add: is_up)
  then have "unat (ucast p :: u32) = unat p" by (metis nat_uint_eq)
  then show ?thesis by (simp only: word_less_nat_alt)
qed

lemma u16_fits_ring: "ucast (p::u16) \<le> (n::u32) \<longleftrightarrow> unat p \<le> unat n"
  using u16_in_ring [of n p] by (simp flip: not_less)

interpretation detector: stall_timer observe_sample d_Since
  "\<lambda>y x. sample_backlog x \<and> sample_stuck y x" sample_backlog sample_time thr "detector_after thr" for thr
proof
  fix st :: Detector and p and x :: sample
  assume a: "detector_after thr st p"
  obtain s avail used busy now where x: "x = (s, avail, used, busy, now)" by (cases x)
  show "detector_after thr (snd (observe_sample st x)) (Some x)"
    using a by (auto simp: x observe_sample_def Observe_def Let_def detector_after_def split: option.splits)
  show "d_Since (snd (observe_sample st x)) = (if \<exists>y. p = Some y \<and> sample_backlog x \<and> sample_stuck y x
      then d_Since st else sample_time x)"
    using a by (auto simp: x observe_sample_def Observe_def Let_def detector_after_def sample_backlog_def
      sample_stuck_def sample_time_def u16_in_ring not_less split: option.splits)
  show "fst (observe_sample st x) = (sample_backlog x \<and>
      f64_le thr (f64_sub (sample_time x) (d_Since (snd (observe_sample st x)))))"
    using a by (auto simp: x observe_sample_def Observe_def Let_def detector_after_def sample_backlog_def
      sample_time_def u16_in_ring not_less word_gt_0)
qed

lemma detector_after_new [simp]: "detector_after thr (NewDetector thr c m) None"
  by (simp add: detector_after_def NewDetector_def)

text \<open>
  C25. A detector that has seen a history of samples, at clock readings that never go back, reports a stall at the last of
  them exactly when that one shows a consistent, unserved backlog and some sample at least the threshold earlier is followed
  only by samples that each show a consistent, unserved backlog of the same queue with the completed and the consumed
  position unchanged from the sample before.  The sample the time is counted from only gives the reference: it need not
  show a backlog itself, so a backlog that appears between two samples is counted from the earlier one.
\<close>

theorem detector_reports_exactly_stalls:
  assumes "clock_ok (map sample_time (xs @ [x]))"
  shows "fst (observe_sample (fold (\<lambda>x d. snd (observe_sample d x)) xs (NewDetector thr c m)) x) \<longleftrightarrow>
    stall_window (\<lambda>y x. sample_backlog x \<and> sample_stuck y x) sample_backlog sample_time thr (xs @ [x])"
  using detector.verdict_iff_window [OF detector_after_new assms] .

definition stuck_snapshot :: Snapshot where
  "stuck_snapshot = zero_Snapshot\<lparr>sn_VQ := 1, sn_KickFile := 2, sn_Context := 3, sn_Avail := 4, sn_Used := 5,
     sn_Backend := 6, sn_PollWQH := 7, sn_ContextWQH := 7, sn_Num := 256, sn_LittleEndian := 1,
     sn_LastAvail := 10\<rparr>"

lemma clock_ok_Cons: "clock_ok (t # ts) \<longleftrightarrow> is_fin t \<and> (\<forall>u \<in> set ts. f64_le t u) \<and> clock_ok ts"
  by (auto simp: clock_ok_def)

lemma clock_ok_Nil [simp]: "clock_ok []"
  by (simp add: clock_ok_def)

theorem detector_reports_exactly_stalls_witness:
  "fst (observe_sample (fold (\<lambda>x d. snd (observe_sample d x))
     [(stuck_snapshot, 20, 10, False, Fin 0), (stuck_snapshot, 40, 10, False, Fin 2)]
     (NewDetector (Fin 3) (Fin 30) 3)) (stuck_snapshot, 248, 10, False, Fin 3)) \<and>
   stall_window (\<lambda>y x. sample_backlog x \<and> sample_stuck y x) sample_backlog sample_time (Fin 3)
     ([(stuck_snapshot, 20, 10, False, Fin 0), (stuck_snapshot, 40, 10, False, Fin 2)] @
      [(stuck_snapshot, 248, 10, False, Fin 3)])"
  (is "?report \<and> ?window")
proof -
  have c: "clock_ok (map sample_time ([(stuck_snapshot, 20, 10, False, Fin 0),
      (stuck_snapshot, 40, 10, False, Fin 2)] @ [(stuck_snapshot, 248, 10, False, Fin 3)]))"
    by (simp add: sample_time_def clock_ok_Cons)
  have r: ?report
    by (simp add: observe_sample_def Observe_def Let_def NewDetector_def stuck_snapshot_def zero_Snapshot_def
      u16_in_ring word_less_nat_alt Identity_def)
  with detector_reports_exactly_stalls [OF c, of "Fin 3" "Fin 30" 3] show ?thesis by blast
qed

text \<open>The same reading with every ring position moved on by \<open>k\<close>, wrapping at 65536.\<close>

definition shift_sample :: "u16 \<Rightarrow> sample \<Rightarrow> sample" where
  "shift_sample k x = (case x of (s, avail, used, busy, now) \<Rightarrow>
     (s\<lparr>sn_LastAvail := sn_LastAvail s + k, sn_LastUsed := sn_LastUsed s + k\<rparr>, avail + k, used + k, busy, now))"

definition shift_detector :: "u16 \<Rightarrow> Detector \<Rightarrow> Detector" where
  "shift_detector k d = (if d_have d then d\<lparr>d_used := d_used d + k, d_consumed := d_consumed d + k\<rparr> else d)"

lemma Observe_shift:
  "observe_sample (shift_detector k d) (shift_sample k x) =
     (fst (observe_sample d x), shift_detector k (snd (observe_sample d x)))"
  by (cases x) (auto simp: observe_sample_def shift_sample_def shift_detector_def Observe_def Let_def Identity_def)

lemma Observe_shift_fold:
  "fold (\<lambda>x d. snd (observe_sample d x)) (map (shift_sample k) xs) (shift_detector k d) =
     shift_detector k (fold (\<lambda>x d. snd (observe_sample d x)) xs d)"
  by (induction xs arbitrary: d) (simp_all add: Observe_shift)

text \<open>
  C29. The 16-bit ring positions wrap and the detector does not notice: moving all ring positions of a whole history of
  samples (published, completed and consumed) on by the same distance, whatever of them wraps at 65536, changes
  none of its verdicts.
\<close>

theorem detector_ignores_ring_wrap:
  "fst (observe_sample (fold (\<lambda>x d. snd (observe_sample d x)) (map (shift_sample k) xs) (NewDetector thr c m))
     (shift_sample k x)) =
   fst (observe_sample (fold (\<lambda>x d. snd (observe_sample d x)) xs (NewDetector thr c m)) x)"
proof -
  have "shift_detector k (NewDetector thr c m) = NewDetector thr c m"
    by (simp add: shift_detector_def NewDetector_def)
  then show ?thesis using Observe_shift_fold [of k xs "NewDetector thr c m"] by (simp add: Observe_shift)
qed

section \<open>The detector as a rate limiter\<close>

text \<open>
  \<open>budget_tracks cd mx d ks t\<close>: the detector \<open>d\<close> of that policy has recorded the kicks \<open>ks\<close>; of
  those it forgot, none can count against the hour at any time from \<open>t\<close> on.
\<close>

definition budget_tracks :: "f64 \<Rightarrow> int \<Rightarrow> Detector \<Rightarrow> f64 list \<Rightarrow> f64 \<Rightarrow> bool" where
  "budget_tracks cd mx d ks t \<longleftrightarrow> cd \<noteq> NaN \<and> d_Cooldown d = cd \<and> d_Maximum d = mx \<and> list_all is_fin ks \<and>
     d_LastKick d = (if ks = [] then NInf else last ks) \<and> set (d_attempts d) \<subseteq> set ks \<and>
     (\<forall>now. is_fin now \<and> f64_le t now \<longrightarrow>
        filter (recent now) (d_attempts d) = filter (recent now) ks)"

lemma budget_tracks_new: "cd \<noteq> NaN \<Longrightarrow> budget_tracks cd mx (NewDetector thr cd mx) [] t"
  by (simp add: budget_tracks_def NewDetector_def)

lemma budget_tracks_later: "budget_tracks cd mx d ks t \<Longrightarrow> f64_le t t' \<Longrightarrow> budget_tracks cd mx d ks t'"
  using f64_le_trans by (fastforce simp: budget_tracks_def)

text \<open>The fields the budget does not look at.\<close>

lemma budget_tracks_fields [simp]:
  "budget_tracks cd mx (d\<lparr>d_Since := a\<rparr>) ks t = budget_tracks cd mx d ks t"
  "budget_tracks cd mx (d\<lparr>d_Reported := b\<rparr>) ks t = budget_tracks cd mx d ks t"
  by (simp_all add: budget_tracks_def)

lemma budget_tracks_Observe [simp]:
  "budget_tracks cd mx (snd (Observe d s avail used busy now)) ks t = budget_tracks cd mx d ks t"
  by (simp add: budget_tracks_def Observe_def Let_def)

lemma Allowed_recent: "d_attempts (snd (Allowed d now)) = filter (recent now) (d_attempts d)"
  by (simp add: Allowed_def Let_def recent_def [abs_def])

lemma filter_recent_later:
  assumes "list_all is_fin ks" "is_fin now" "is_fin t" "f64_le t now"
  shows "filter (recent now) (filter (recent t) ks) = filter (recent now) ks"
proof -
  have "recent t x" if "x \<in> set ks" "recent now x" for x
    using recent_mono [of t now x] that assms by (auto simp: list_all_iff dest: is_fin_not_NaN)
  then show ?thesis by (auto intro!: filter_cong)
qed

interpretation budget: rate_limiter Allowed Kicked cd mx "budget_tracks cd mx" for cd mx
proof
  fix d ks t now
  assume b: "budget_tracks cd mx d ks t" "f64_le t now" "is_fin now"
  have eq: "filter (recent now) (d_attempts d) = filter (recent now) ks"
    using b by (simp add: budget_tracks_def)
  have fin: "list_all is_fin (d_attempts d)" "list_all is_fin ks"
    using b by (auto simp: budget_tracks_def list_all_iff)
  have later: "filter (recent n) (d_attempts (snd (Allowed d now))) = filter (recent n) ks"
    if "is_fin n" "f64_le now n" for n
    using filter_recent_later [OF fin(2) that(1) b(3) that(2)] by (simp only: Allowed_recent eq)
  have rest: "d_Cooldown (snd (Allowed d now)) = d_Cooldown d" "d_Maximum (snd (Allowed d now)) = d_Maximum d"
    "d_LastKick (snd (Allowed d now)) = d_LastKick d"
    by (simp_all add: Allowed_def Let_def)
  have sub: "set (d_attempts (snd (Allowed d now))) \<subseteq> set (d_attempts d)"
    by (auto simp: Allowed_recent)
  show "budget_tracks cd mx (snd (Allowed d now)) ks now"
    using b sub unfolding budget_tracks_def rest by (blast intro: later)
  show "fst (Allowed d now) = ((ks \<noteq> [] \<longrightarrow> f64_le cd (f64_sub now (last ks))) \<and>
      int (length (filter (recent now) ks)) < mx)"
    using b Allowed_recent [of d now] eq
    by (auto simp: Allowed_def Let_def budget_tracks_def recent_def elim!: is_finE)
next
  fix d ks now
  assume "budget_tracks cd mx d ks now" "is_fin now"
  then show "budget_tracks cd mx (Kicked d now) (ks @ [now]) now"
    by (auto simp: budget_tracks_def Kicked_def)
qed

text \<open>What the agent does with a detector: look at a sample, ask for a kick, record one.\<close>

datatype budget_op = Look Snapshot u16 u16 bool f64 | Ask f64 | Record f64

fun budget_step :: "budget_op \<Rightarrow> Detector \<Rightarrow> Detector" where
  "budget_step (Look s avail used busy t) d = snd (Observe d s avail used busy t)"
| "budget_step (Ask t) d = snd (Allowed d t)"
| "budget_step (Record t) d = Kicked d t"

fun budget_time :: "budget_op \<Rightarrow> f64" where
  "budget_time (Look s avail used busy t) = t"
| "budget_time (Ask t) = t"
| "budget_time (Record t) = t"

fun recorded :: "budget_op list \<Rightarrow> f64 list" where
  "recorded [] = []"
| "recorded (Record t # ops) = t # recorded ops"
| "recorded (_ # ops) = recorded ops"

lemma recorded_append [simp]: "recorded (ops @ ops') = recorded ops @ recorded ops'"
  by (induction ops rule: recorded.induct) auto

lemma budget_tracks_history:
  assumes "cd \<noteq> NaN" and "clock_ok (map budget_time ops)"
    and "is_fin t" and "\<forall>u \<in> set (map budget_time ops). f64_le u t"
  shows "budget_tracks cd mx (fold budget_step ops (NewDetector thr cd mx)) (recorded ops) t"
  using assms
proof (induction ops arbitrary: t rule: rev_induct)
  case Nil
  then show ?case by (simp add: budget_tracks_new)
next
  case (snoc op ops)
  let ?d = "fold budget_step ops (NewDetector thr cd mx)"
  have u: "is_fin (budget_time op)" "f64_le (budget_time op) t" and c: "clock_ok (map budget_time ops)"
    and le: "\<forall>u \<in> set (map budget_time ops). f64_le u (budget_time op)"
    using snoc.prems by (auto simp: clock_ok_snoc)
  from u have refl: "f64_le (budget_time op) (budget_time op)" by (auto elim: is_finE)
  have ih: "budget_tracks cd mx ?d (recorded ops) (budget_time op)"
    by (rule snoc.IH [OF snoc.prems(1) c u(1) le])
  have "budget_tracks cd mx (budget_step op ?d) (recorded (ops @ [op])) (budget_time op)"
    using ih u refl budget.allowed_tracks [OF ih refl u(1)] budget.kicked_tracks [OF ih u(1)] by (cases op) auto
  then show ?case using budget_tracks_later u(2) by simp
qed

text \<open>
  C26. The budget is exact: after any sequence of observations, questions and recorded kicks, at clock readings that
  never go back, \<^verbatim>\<open>Allowed\<close> grants a further kick precisely when the cooldown has passed since the last
  recorded kick and fewer than the maximum of all the recorded kicks fall into the past hour, although the code forgets the
  older ones.
\<close>

theorem Allowed_iff_policy:
  assumes "cd \<noteq> NaN" and "clock_ok (map budget_time ops @ [now])"
  shows "fst (Allowed (fold budget_step ops (NewDetector thr cd mx)) now) \<longleftrightarrow>
     (recorded ops \<noteq> [] \<longrightarrow> f64_le cd (f64_sub now (last (recorded ops)))) \<and>
     int (length (filter (recent now) (recorded ops))) < mx"
proof -
  have n: "is_fin now" "clock_ok (map budget_time ops)" "\<forall>u \<in> set (map budget_time ops). f64_le u now"
    using assms(2) by (auto simp: clock_ok_snoc)
  then have "f64_le now now" by (auto elim: is_finE)
  with budget.allowed_iff [OF budget_tracks_history [OF assms(1) n(2,1,3)]] n(1) show ?thesis by simp
qed

theorem Allowed_iff_policy_witness:
  "fst (Allowed (fold budget_step [Ask (Fin 0), Record (Fin 0), Ask (Fin 31), Record (Fin 31)]
      (NewDetector (Fin 3) (Fin 30) 2)) (Fin 3601)) \<and>
   \<not> fst (Allowed (fold budget_step [Ask (Fin 0), Record (Fin 0), Ask (Fin 31), Record (Fin 31)]
      (NewDetector (Fin 3) (Fin 30) 2)) (Fin 3599))"
proof -
  have "clock_ok (map budget_time [Ask (Fin 0), Record (Fin 0), Ask (Fin 31), Record (Fin 31)] @ [Fin 3601])"
    "clock_ok (map budget_time [Ask (Fin 0), Record (Fin 0), Ask (Fin 31), Record (Fin 31)] @ [Fin 3599])"
    by (simp_all add: clock_ok_Cons)
  from this [THEN Allowed_iff_policy [rotated], of "Fin 30" "Fin 3" 2]
  show ?thesis by (simp add: recent_def)
qed

end
