(* ===== verification/Host.thy ===== *)
theory Host
  imports Model
begin

text \<open>
  The host: everything the agent calls that is not its own code.  The calls are the fields of
  a record of functions on an arbitrary world, so that a theorem about a component holds
  whatever the kernel, QEMU and the other processes do between two calls.  Every call the
  code makes, with its answer, is an event of the call list.

  The bindings are those of \<^verbatim>\<open>golang.org/x/sys/unix\<close>, of \<^verbatim>\<open>os\<close>, of the BPF maps
  (\<^verbatim>\<open>github.com/cilium/ebpf\<close>), of the clock, of the context that cancels a worker and of the
  JSON encoder that the log writes to.
\<close>

section \<open>Log values\<close>

text \<open>
  The dynamic values of a log line.  The text of an error (\<^verbatim>\<open>err.Error()\<close>) is represented by
  the error itself, that of a duration or a time by its nanoseconds.  \<open>JUint64\<close> is a value whose dynamic type is
  \<^verbatim>\<open>uint64\<close>, which one place asserts; no dynamic type of another number matters, they are \<open>JInt\<close>.
\<close>

datatype jval = JString string | JInt int | JUint64 u64 | JFloat f64 | JBool bool | JError error
  | JRows "QueueRow list" | JCounters Counters | JDuration int | JTime int

type_synonym fields = "(string \<times> jval) list"

section \<open>Domain files\<close>

text \<open>
  What the XML decoder delivers of a libvirt runtime file (\<^verbatim>\<open>domainStatus\<close> of
  \<^verbatim>\<open>internal/selection/selection.go\<close>).
\<close>

record domainStatus =
  ds_State :: string
  ds_PID :: int
  ds_Name :: string
  ds_UUID :: string

section \<open>Events\<close>

datatype event =
    EReadFile string "error + string"
  | EReadDir string "error + (string \<times> bool) list"
  | EReadlink string "error + string"
  | EOpen string "error + int"
  | EDecodeXML int nat "error + domainStatus"
  | EPidfdOpen int "error + int"
  | EPidfdGetfd int int "error + int"
  | EPoll int "error + (int \<times> u16)"
  | EProcessVMReadv int "(u64 \<times> nat) list" "error + u8 list"
  | EClose int
  | EFcntlGetfl int "error + u64"
  | EWrite int "u8 list" "error + int"
  | EIoctl int nat "error option"
  | ESampleUpdate Snapshot "error option"
  | ESampleLookup "error + Snapshot"
  | EStatsLookup u64 "error + Counters"
  | EMapDelete string u64
  | EBpfPrepare string "error + nat"
  | EBpfLoad "error + nat"
  | EOwnerUpdate u32 "error option"
  | EBpfAttach bool string string "error + nat"
  | EBpfDetach nat
  | EBpfUnload nat
  | EMkdirAll string "error option"
  | EFlock int "error option"
  | EClock "error + (int \<times> int)"
  | ECtxErr nat "error option"
  | ESelect nat bool
  | EEncode fields "error option"
  | EWithTimeout int
  | ESpawn string int
  | ECancel string
  | EPollDone string "error option option"
  | EJoin string "error option"
  | EMkdirTemp "error + string"
  | ERemoveAll string
  | EWriteFile string string "error option"
  | EMake "string list" "error option"
  | EStat string "error option"
  | EFinitModule int string "error option"
  | EDeleteModule string "error option"
  | ESleep int
  | EUname "error + string"
  | ENow int
  | ETick "int option"

section \<open>The calls\<close>

record 'w host =
  h_ReadFile :: "string \<Rightarrow> 'w \<Rightarrow> (error + string) \<times> 'w"
  h_ReadDir :: "string \<Rightarrow> 'w \<Rightarrow> (error + (string \<times> bool) list) \<times> 'w"
  h_Readlink :: "string \<Rightarrow> 'w \<Rightarrow> (error + string) \<times> 'w"
  h_PidfdOpen :: "int \<Rightarrow> 'w \<Rightarrow> (error + int) \<times> 'w"
  h_PidfdGetfd :: "int \<Rightarrow> int \<Rightarrow> 'w \<Rightarrow> (error + int) \<times> 'w"
  h_Poll :: "int \<Rightarrow> 'w \<Rightarrow> (error + (int \<times> u16)) \<times> 'w"
  h_polls :: nat
  h_ProcessVMReadv :: "int \<Rightarrow> nat \<Rightarrow> (u64 \<times> nat) list \<Rightarrow> 'w \<Rightarrow> (error + u8 list) \<times> 'w"
  h_Close :: "int \<Rightarrow> 'w \<Rightarrow> 'w"
  h_FcntlGetfl :: "int \<Rightarrow> 'w \<Rightarrow> (error + u64) \<times> 'w"
  h_Write :: "int \<Rightarrow> u8 list \<Rightarrow> 'w \<Rightarrow> (error + int) \<times> 'w"
  h_Ioctl :: "int \<Rightarrow> nat \<Rightarrow> 'w \<Rightarrow> error option \<times> 'w"
  h_SampleUpdate :: "Snapshot \<Rightarrow> 'w \<Rightarrow> error option \<times> 'w"
  h_SampleLookup :: "'w \<Rightarrow> (error + Snapshot) \<times> 'w"
  h_StatsLookup :: "u64 \<Rightarrow> 'w \<Rightarrow> (error + Counters) \<times> 'w"
  h_HasMap :: "string \<Rightarrow> bool"
  h_MapDelete :: "string \<Rightarrow> u64 \<Rightarrow> 'w \<Rightarrow> 'w"
  h_ClockGettime :: "'w \<Rightarrow> (error + (int \<times> int)) \<times> 'w"
  h_UnixNano :: "'w \<Rightarrow> int \<times> 'w"
  h_CtxErr :: "nat \<Rightarrow> 'w \<Rightarrow> error option \<times> 'w"
  h_Select :: "nat \<Rightarrow> 'w \<Rightarrow> bool \<times> 'w"
  h_Encode :: "fields \<Rightarrow> 'w \<Rightarrow> error option \<times> 'w"
  h_MkdirAll :: "string \<Rightarrow> 'w \<Rightarrow> error option \<times> 'w"
  h_DecodeXML :: "int \<Rightarrow> nat \<Rightarrow> 'w \<Rightarrow> (error + domainStatus) \<times> 'w"
  h_OpenFile :: "string \<Rightarrow> 'w \<Rightarrow> (error + int) \<times> 'w"
  h_Flock :: "int \<Rightarrow> 'w \<Rightarrow> error option \<times> 'w"
  h_Uname :: "'w \<Rightarrow> string \<times> 'w"

definition callE :: "('w \<Rightarrow> (error + 'a) \<times> 'w) \<Rightarrow> (error + 'a \<Rightarrow> 'e) \<Rightarrow> ('e, 'w, 'a) io" where
  "callE call ev w = (case call w of (r, w') \<Rightarrow>
     ((case r of Inl e \<Rightarrow> Err e | Inr x \<Rightarrow> Ok x), [ev r], w'))"

definition callO :: "('w \<Rightarrow> error option \<times> 'w) \<Rightarrow> (error option \<Rightarrow> 'e) \<Rightarrow> ('e, 'w, unit) io" where
  "callO call ev w = (case call w of (r, w') \<Rightarrow>
     ((case r of Some e \<Rightarrow> Err e | None \<Rightarrow> Ok ()), [ev r], w'))"

definition callV :: "('w \<Rightarrow> 'a \<times> 'w) \<Rightarrow> ('a \<Rightarrow> 'e list) \<Rightarrow> ('e, 'w, 'a) io" where
  "callV call ev w = (case call w of (r, w') \<Rightarrow> (Ok r, ev r, w'))"

definition callU :: "('w \<Rightarrow> 'w) \<Rightarrow> 'e \<Rightarrow> ('e, 'w, unit) io" where
  "callU call ev w = (Ok (), [ev], call w)"

abbreviation ReadFile :: "'w host \<Rightarrow> string \<Rightarrow> (event, 'w, string) io" where
  "ReadFile h path \<equiv> callE (h_ReadFile h path) (EReadFile path)"

abbreviation ReadDir :: "'w host \<Rightarrow> string \<Rightarrow> (event, 'w, (string \<times> bool) list) io" where
  "ReadDir h path \<equiv> callE (h_ReadDir h path) (EReadDir path)"

abbreviation Readlink :: "'w host \<Rightarrow> string \<Rightarrow> (event, 'w, string) io" where
  "Readlink h path \<equiv> callE (h_Readlink h path) (EReadlink path)"

abbreviation PidfdOpen :: "'w host \<Rightarrow> int \<Rightarrow> (event, 'w, int) io" where
  "PidfdOpen h pid \<equiv> callE (h_PidfdOpen h pid) (EPidfdOpen pid)"

abbreviation PidfdGetfd :: "'w host \<Rightarrow> int \<Rightarrow> int \<Rightarrow> (event, 'w, int) io" where
  "PidfdGetfd h pidfd fd \<equiv> callE (h_PidfdGetfd h pidfd fd) (EPidfdGetfd pidfd fd)"

abbreviation Poll :: "'w host \<Rightarrow> int \<Rightarrow> (event, 'w, int \<times> u16) io" where
  "Poll h fd \<equiv> callE (h_Poll h fd) (EPoll fd)"

abbreviation ProcessVMReadv :: "'w host \<Rightarrow> int \<Rightarrow> nat \<Rightarrow> (u64 \<times> nat) list \<Rightarrow> (event, 'w, u8 list) io" where
  "ProcessVMReadv h pid cap remote \<equiv> callE (h_ProcessVMReadv h pid cap remote) (EProcessVMReadv pid remote)"

abbreviation Close :: "'w host \<Rightarrow> int \<Rightarrow> (event, 'w, unit) io" where
  "Close h fd \<equiv> callU (h_Close h fd) (EClose fd)"

abbreviation FcntlGetfl :: "'w host \<Rightarrow> int \<Rightarrow> (event, 'w, u64) io" where
  "FcntlGetfl h fd \<equiv> callE (h_FcntlGetfl h fd) (EFcntlGetfl fd)"

abbreviation Write :: "'w host \<Rightarrow> int \<Rightarrow> u8 list \<Rightarrow> (event, 'w, int) io" where
  "Write h fd data \<equiv> callE (h_Write h fd data) (EWrite fd data)"

abbreviation Ioctl :: "'w host \<Rightarrow> int \<Rightarrow> nat \<Rightarrow> (event, 'w, unit) io" where
  "Ioctl h fd cmd \<equiv> callO (h_Ioctl h fd cmd) (EIoctl fd cmd)"

abbreviation SampleUpdate :: "'w host \<Rightarrow> Snapshot \<Rightarrow> (event, 'w, unit) io" where
  "SampleUpdate h s \<equiv> callO (h_SampleUpdate h s) (ESampleUpdate s)"

abbreviation SampleLookup :: "'w host \<Rightarrow> (event, 'w, Snapshot) io" where
  "SampleLookup h \<equiv> callE (h_SampleLookup h) ESampleLookup"

abbreviation StatsLookup :: "'w host \<Rightarrow> u64 \<Rightarrow> (event, 'w, Counters) io" where
  "StatsLookup h vq \<equiv> callE (h_StatsLookup h vq) (EStatsLookup vq)"

abbreviation MapDelete :: "'w host \<Rightarrow> string \<Rightarrow> u64 \<Rightarrow> (event, 'w, unit) io" where
  "MapDelete h name key \<equiv> callU (h_MapDelete h name key) (EMapDelete name key)"

abbreviation CtxErr :: "'w host \<Rightarrow> nat \<Rightarrow> (event, 'w, error option) io" where
  "CtxErr h ctx \<equiv> callV (h_CtxErr h ctx) (\<lambda>r. [ECtxErr ctx r])"

text \<open>
  Waiting for the context or the next tick: \<open>True\<close> when the context was done.
\<close>

abbreviation Select :: "'w host \<Rightarrow> nat \<Rightarrow> (event, 'w, bool) io" where
  "Select h ctx \<equiv> callV (h_Select h ctx) (\<lambda>r. [ESelect ctx r])"

abbreviation MkdirAll :: "'w host \<Rightarrow> string \<Rightarrow> (event, 'w, unit) io" where
  "MkdirAll h path \<equiv> callO (h_MkdirAll h path) (EMkdirAll path)"

abbreviation OpenFile :: "'w host \<Rightarrow> string \<Rightarrow> (event, 'w, int) io" where
  "OpenFile h path \<equiv> callE (h_OpenFile h path) (EOpen path)"

abbreviation DecodeXML :: "'w host \<Rightarrow> int \<Rightarrow> nat \<Rightarrow> (event, 'w, domainStatus) io" where
  "DecodeXML h fd limit \<equiv> callE (h_DecodeXML h fd limit) (EDecodeXML fd limit)"

abbreviation Flock :: "'w host \<Rightarrow> int \<Rightarrow> (event, 'w, unit) io" where
  "Flock h fd \<equiv> callO (h_Flock h fd) (EFlock fd)"

abbreviation Uname :: "'w host \<Rightarrow> (event, 'w, string) io" where
  "Uname h \<equiv> callV (h_Uname h) (\<lambda>_. [])"

lemma ensures_at_callE:
  "ensures_at (callE call ev) w Q = (case call w of (Inl e, w') \<Rightarrow> Q (Err e) [ev (Inl e)] w'
     | (Inr x, w') \<Rightarrow> Q (Ok x) [ev (Inr x)] w')"
  by (simp add: ensures_at_def callE_def split: prod.split sum.split)

lemma ensures_at_callO:
  "ensures_at (callO call ev) w Q = (case call w of (Some e, w') \<Rightarrow> Q (Err e) [ev (Some e)] w'
     | (None, w') \<Rightarrow> Q (Ok ()) [ev None] w')"
  by (simp add: ensures_at_def callO_def split: prod.split option.split)

lemma ensures_at_callV:
  "ensures_at (callV call ev) w Q = (case call w of (x, w') \<Rightarrow> Q (Ok x) (ev x) w')"
  by (simp add: ensures_at_def callV_def split: prod.split)

lemma ensures_at_callU: "ensures_at (callU call ev) w Q = Q (Ok ()) [ev] (call w)"
  by (simp add: ensures_at_def callU_def)

lemmas ensures_at_calls = ensures_at_callE ensures_at_callO ensures_at_callV ensures_at_callU

lemma traces_callE: "(\<And>r. P [ev r]) \<Longrightarrow> traces_if d P (callE call ev)"
  by (simp add: traces_if_def ensures_at_callE split: prod.split sum.split)

lemma traces_callO: "(\<And>r. P [ev r]) \<Longrightarrow> traces_if d P (callO call ev)"
  by (simp add: traces_if_def ensures_at_callO split: prod.split option.split)

lemma traces_callV: "(\<And>r. P (ev r)) \<Longrightarrow> traces_if d P (callV call ev)"
  by (simp add: traces_if_def ensures_at_callV split: prod.split)

lemma traces_callU: "P [ev] \<Longrightarrow> traces_if d P (callU call ev)"
  by (simp add: traces_if_def ensures_at_callU)

lemmas traces_calls = traces_callE traces_callO traces_callV traces_callU

section \<open>The clock and the log\<close>

definition time_Second :: f64 where
  "time_Second = Fin 1000000000"

text \<open>\<^verbatim>\<open>monotonic\<close>: the reading of the monotonic clock in seconds.\<close>

definition seconds :: "int \<times> int \<Rightarrow> f64" where
  "seconds ts = f64_add (f64_of_int (fst ts)) (f64_div (f64_of_int (snd ts)) time_Second)"

text \<open>The clock call itself; the reading of a log line is part of the line, not an event of its own.\<close>

definition clock :: "'w host \<Rightarrow> (error + int \<times> int \<Rightarrow> event list) \<Rightarrow> (event, 'w, f64) io" where
  "clock h ev w = (case h_ClockGettime h w of (r, w') \<Rightarrow>
     ((case r of Inl e \<Rightarrow> Panic e | Inr ts \<Rightarrow> Ok (seconds ts)), ev r, w'))"

abbreviation monotonic :: "'w host \<Rightarrow> (event, 'w, f64) io" where
  "monotonic h \<equiv> clock h (\<lambda>r. [EClock r])"

record logger =
  l_err :: "error option"
  l_pid :: int
  l_domain :: string

definition emit :: "'w host \<Rightarrow> logger \<Rightarrow> string \<Rightarrow> fields \<Rightarrow> (event, 'w, logger) io" where
  "emit h l event fs =
    (if l_err l \<noteq> None then retE l
     else bindE (callV (h_UnixNano h) (\<lambda>_. [])) (\<lambda>nano.
       bindE (clock h (\<lambda>_. [])) (\<lambda>mono.
       let f1 = AList.update ''monotonic'' (JFloat mono)
                  (AList.update ''time'' (JFloat (f64_div (f64_of_int nano) time_Second))
                    (AList.update ''event'' (JString event) fs));
           f2 = (if l_pid l \<noteq> 0 then AList.update ''pid'' (JInt (l_pid l)) f1 else f1);
           f3 = (if l_domain l \<noteq> '''' then AList.update ''domain'' (JString (l_domain l)) f2 else f2)
       in bindE (callV (h_Encode h f3) (\<lambda>r. [EEncode f3 r])) (\<lambda>r.
         retE (l\<lparr>l_err := r\<rparr>)))))"

lemma callE_OkE: "callE f ev w = (Ok y, es, w') \<Longrightarrow> es = [ev (Inr y)]"
  by (auto simp: callE_def split: prod.splits sum.splits)

lemma ensures_at_clock:
  "ensures_at (clock h ev) w Q = (case h_ClockGettime h w of (Inl e, w') \<Rightarrow> Q (Panic e) (ev (Inl e)) w'
     | (Inr ts, w') \<Rightarrow> Q (Ok (seconds ts)) (ev (Inr ts)) w')"
  by (simp add: ensures_at_def clock_def split: prod.split sum.split)

lemma traces_clock: "(\<And>r. P (ev r)) \<Longrightarrow> traces_if d P (clock h ev)"
  by (simp add: traces_if_def ensures_at_clock split: prod.split sum.split)

section \<open>Readings of the clock\<close>

text \<open>What the kernel promises of a reading: normalised nanoseconds, and a range that spans ages.\<close>

definition timespec_ok :: "int \<times> int \<Rightarrow> bool" where
  "timespec_ok ts \<longleftrightarrow> 0 \<le> fst ts \<and> fst ts < 2 ^ 53 \<and> 0 \<le> snd ts \<and> snd ts < 1000000000"

definition timespec_le :: "int \<times> int \<Rightarrow> int \<times> int \<Rightarrow> bool" where
  "timespec_le a b \<longleftrightarrow> fst a < fst b \<or> fst a = fst b \<and> snd a \<le> snd b"

lemma rnd_in: "0 \<le> x \<Longrightarrow> x \<le> of_int n \<Longrightarrow> n \<le> 2 ^ 53 \<Longrightarrow> rnd x = Fin (rndv x) \<and> 0 \<le> rndv x \<and> rndv x \<le> of_int n"
proof -
  assume x: "0 \<le> x" "x \<le> of_int n" and n: "n \<le> 2 ^ 53"
  have "0 \<le> n" using x by (metis of_int_0_le_iff order_trans)
  with n have r: "rndv (of_int n) = of_int n" by (intro rndv_of_int) simp
  then have "rndv x \<le> of_int n" using rndv_mono [OF x(2)] by simp
  moreover have "0 \<le> rndv x" using x by (intro rndv_nonneg)
  moreover have "rat_of_int n \<le> of_int (2 ^ 53)" using n by (simp only: of_int_le_iff)
  moreover have "rat_of_int (2 ^ 53) < pow2 1024" using pow2_mono [of 54 1024] by (simp add: pow2_def [of 54])
  ultimately show ?thesis using pow2_pos(1) [of 1024] by (auto simp: rnd_def Let_def not_le)
qed

lemma seconds_eq:
  assumes "timespec_ok ts"
  shows "seconds ts = rnd (of_int (fst ts) + rndv (of_int (snd ts) / 1000000000))"
    and "0 \<le> rndv (rat_of_int (snd ts) / 1000000000)" and "rndv (rat_of_int (snd ts) / 1000000000) \<le> 1"
proof -
  have s: "rnd (of_int (fst ts)) = Fin (of_int (fst ts))" "rnd (of_int (snd ts)) = Fin (of_int (snd ts))"
    using assms by (auto intro!: rnd_int simp: timespec_ok_def)
  have "rat_of_int (snd ts) \<le> of_int 1000000000" using assms unfolding timespec_ok_def of_int_le_iff by simp
  then have "0 \<le> rat_of_int (snd ts) / 1000000000" "rat_of_int (snd ts) / 1000000000 \<le> of_int 1"
    using assms by (auto simp: timespec_ok_def)
  from rnd_in [OF this]
  show "0 \<le> rndv (rat_of_int (snd ts) / 1000000000)" "rndv (rat_of_int (snd ts) / 1000000000) \<le> 1"
    "seconds ts = rnd (of_int (fst ts) + rndv (of_int (snd ts) / 1000000000))"
    by (auto simp: seconds_def f64_of_int_def s time_Second_def)
qed

lemma seconds_fin: "timespec_ok ts \<Longrightarrow> is_fin (seconds ts)"
proof -
  assume t: "timespec_ok ts"
  have "rat_of_int (fst ts) \<le> of_int (2 ^ 53 - 1)" using t unfolding timespec_ok_def of_int_le_iff by simp
  moreover have "0 \<le> rat_of_int (fst ts)" using t by (simp add: timespec_ok_def)
  ultimately have "0 \<le> of_int (fst ts) + rndv (of_int (snd ts) / 1000000000)"
    "of_int (fst ts) + rndv (of_int (snd ts) / 1000000000) \<le> of_int (2 ^ 53)"
    using seconds_eq(2,3) [OF t] by (simp_all add: of_int_diff)
  from rnd_in [OF this] show ?thesis by (simp add: seconds_eq(1) [OF t])
qed

lemma seconds_mono:
  assumes "timespec_ok a" "timespec_ok b" "timespec_le a b" shows "f64_le (seconds a) (seconds b)"
proof -
  have "of_int (fst a) + rndv (of_int (snd a) / 1000000000) \<le> of_int (fst b) + rndv (of_int (snd b) / 1000000000)"
  proof (cases "fst a < fst b")
    case True
    then have "rat_of_int (fst a) + 1 \<le> of_int (fst b)" by (metis of_int_1 of_int_add of_int_le_iff zless_imp_add1_zle)
    then show ?thesis using seconds_eq(3) [OF assms(1)] seconds_eq(2) [OF assms(2)] by linarith
  next
    case False
    with assms(3) show ?thesis by (auto simp: timespec_le_def intro!: rndv_mono divide_right_mono)
  qed
  then show ?thesis by (simp add: seconds_eq(1) assms rnd_mono)
qed

section \<open>An idle host\<close>

text \<open>
  The host on which nothing is there: calls fail, the clock stands still.  Concrete hosts, on which theorems are
  applied, are updates of it.
\<close>

definition idle_host :: "'w host" where
  "idle_host =
    \<lparr>h_ReadFile = (\<lambda>p w. (Inl (Errno ENOENT), w)), h_ReadDir = (\<lambda>p w. (Inl (Errno ENOENT), w)),
     h_Readlink = (\<lambda>p w. (Inl (Errno ENOENT), w)), h_PidfdOpen = (\<lambda>p w. (Inl (Errno 3), w)),
     h_PidfdGetfd = (\<lambda>p fd w. (Inl (Errno 9), w)), h_Poll = (\<lambda>fd w. (Inl (Errno 9), w)), h_polls = 1,
     h_ProcessVMReadv = (\<lambda>pid cap remote w. (Inl (Errno 3), w)),
     h_Close = (\<lambda>fd w. w), h_FcntlGetfl = (\<lambda>fd w. (Inl (Errno 9), w)), h_Write = (\<lambda>fd d w. (Inl (Errno 9), w)),
     h_Ioctl = (\<lambda>fd c w. (Some (Errno 9), w)), h_SampleUpdate = (\<lambda>s w. (Some (Errno 9), w)),
     h_SampleLookup = (\<lambda>w. (Inl (Errno ENOENT), w)), h_StatsLookup = (\<lambda>vq w. (Inl (Errno ENOENT), w)),
     h_HasMap = (\<lambda>n. True), h_MapDelete = (\<lambda>n k w. w), h_ClockGettime = (\<lambda>w. (Inr (0, 0), w)), h_UnixNano = (\<lambda>w. (0, w)),
     h_CtxErr = (\<lambda>c w. (None, w)), h_Select = (\<lambda>c w. (True, w)), h_Encode = (\<lambda>f w. (None, w)),
     h_MkdirAll = (\<lambda>p w. (None, w)), h_DecodeXML = (\<lambda>fd n w. (Inl (Errno 5), w)),
     h_OpenFile = (\<lambda>p w. (Inr 3, w)), h_Flock = (\<lambda>fd w. (None, w)), h_Uname = (\<lambda>w. (''6.8'', w))\<rparr>"

end
