(* ===== verification/Go_Strings.thy ===== *)
theory Go_Strings
  imports Go_Prelude "HOL-Library.Sublist"
begin

text \<open>
  What the program uses of Go's \<^verbatim>\<open>strings\<close> and \<^verbatim>\<open>strconv\<close>, on byte strings.  White space and
  letter case are those of ASCII, the only ones that occur in the files of \<^verbatim>\<open>/proc\<close> that the program
  parses, in numbers and in UUIDs.  The facts: printing and parsing of integers and of comma
  separated lists are inverse to each other.
\<close>

abbreviation byte :: "char \<Rightarrow> nat" where
  "byte \<equiv> of_char"

abbreviation newline :: char where
  "newline \<equiv> CHR 0x0A"

definition is_space :: "char \<Rightarrow> bool" where
  "is_space c = (9 \<le> byte c \<and> byte c \<le> 13 \<or> byte c = 32)"

definition is_digit :: "char \<Rightarrow> bool" where
  "is_digit c = (48 \<le> byte c \<and> byte c \<le> 57)"

definition TrimSpace :: "string \<Rightarrow> string" where
  "TrimSpace s = rev (dropWhile is_space (rev (dropWhile is_space s)))"

definition HasPrefix :: "string \<Rightarrow> string \<Rightarrow> bool" where
  "HasPrefix s p = (take (length p) s = p)"

definition HasSuffix :: "string \<Rightarrow> string \<Rightarrow> bool" where
  "HasSuffix s p = (length p \<le> length s \<and> drop (length s - length p) s = p)"

fun split_by :: "(char \<Rightarrow> bool) \<Rightarrow> string \<Rightarrow> string list" where
  "split_by sep [] = [[]]"
| "split_by sep (c # cs) =
     (if sep c then [] # split_by sep cs
      else (case split_by sep cs of [] \<Rightarrow> [[c]] | w # ws \<Rightarrow> (c # w) # ws))"

definition Split :: "string \<Rightarrow> char \<Rightarrow> string list" where
  "Split s sep = split_by (\<lambda>c. c = sep) s"

definition Fields :: "string \<Rightarrow> string list" where
  "Fields s = filter (\<lambda>w. w \<noteq> []) (split_by is_space s)"

definition Cut :: "string \<Rightarrow> char \<Rightarrow> string \<times> string \<times> bool" where
  "Cut s sep = (if sep \<in> set s
     then (takeWhile (\<lambda>c. c \<noteq> sep) s, tl (dropWhile (\<lambda>c. c \<noteq> sep) s), True) else (s, [], False))"

definition ToLower :: "string \<Rightarrow> string" where
  "ToLower s = map (\<lambda>c. if 65 \<le> byte c \<and> byte c \<le> 90 then char_of (byte c + 32) else c) s"

definition LastIndexByte :: "string \<Rightarrow> char \<Rightarrow> int" where
  "LastIndexByte s c = (if c \<in> set s
     then int (length s) - 1 - int (length (takeWhile (\<lambda>x. x \<noteq> c) (rev s))) else - 1)"

fun str_Join :: "string list \<Rightarrow> string \<Rightarrow> string" where
  "str_Join [] sep = []"
| "str_Join [w] sep = w"
| "str_Join (w # ws) sep = w @ sep @ str_Join ws sep"

section \<open>Paths\<close>

text \<open>
  \<^verbatim>\<open>filepath.Clean\<close>: the elements of a path one after the other, \<open>out\<close> the elements kept so
  far, the last one first.
\<close>

fun clean_elems :: "bool \<Rightarrow> string list \<Rightarrow> string list \<Rightarrow> string list" where
  "clean_elems rooted [] out = rev out"
| "clean_elems rooted (x # xs) out =
    (if x = [] \<or> x = ''.'' then clean_elems rooted xs out
     else if x = ''..'' then
       (if out \<noteq> [] \<and> hd out \<noteq> ''..'' then clean_elems rooted xs (tl out)
        else if rooted then clean_elems rooted xs out else clean_elems rooted xs (x # out))
     else clean_elems rooted xs (x # out))"

definition filepath_Clean :: "string \<Rightarrow> string" where
  "filepath_Clean path =
    (let rooted = (path \<noteq> [] \<and> hd path = CHR ''/'');
         out = (if rooted then ''/'' else '''') @ str_Join (clean_elems rooted (Split path (CHR ''/'')) []) ''/''
     in if out = [] then ''.'' else out)"

definition filepath_Join :: "string list \<Rightarrow> string" where
  "filepath_Join elems =
    (case filter (\<lambda>e. e \<noteq> []) elems of [] \<Rightarrow> [] | es \<Rightarrow> filepath_Clean (str_Join es ''/''))"

section \<open>Numbers\<close>

definition digit :: "nat \<Rightarrow> char" where
  "digit d = char_of (48 + d)"

fun nat_str :: "nat \<Rightarrow> string" where
  "nat_str n = (if n < 10 then [digit n] else nat_str (n div 10) @ [digit (n mod 10)])"

declare nat_str.simps [simp del]

definition Itoa :: "int \<Rightarrow> string" where
  "Itoa n = (if n < 0 then CHR ''-'' # nat_str (nat (- n)) else nat_str (nat n))"

definition parse_digits :: "string \<Rightarrow> nat" where
  "parse_digits s = foldl (\<lambda>acc c. acc * 10 + (byte c - 48)) 0 s"

text \<open>\<^verbatim>\<open>strconv.ParseUint(s, 10, bits)\<close>: digits only.\<close>

definition ParseUint :: "string \<Rightarrow> nat \<Rightarrow> error + nat" where
  "ParseUint s bits =
    (if s = [] \<or> \<not> list_all is_digit s then Inl (ErrorString ''strconv.ParseUint: invalid syntax'')
     else if 2 ^ bits \<le> parse_digits s then Inl (ErrorString ''strconv.ParseUint: value out of range'')
     else Inr (parse_digits s))"

text \<open>\<^verbatim>\<open>strconv.Atoi\<close>: an optional sign, then digits, within 64 bits.\<close>

definition Atoi :: "string \<Rightarrow> error + int" where
  "Atoi s =
    (let neg = (s \<noteq> [] \<and> hd s = CHR ''-'');
         ds = (if s \<noteq> [] \<and> (hd s = CHR ''-'' \<or> hd s = CHR ''+'') then tl s else s);
         n = (if neg then - int (parse_digits ds) else int (parse_digits ds))
     in if ds = [] \<or> \<not> list_all is_digit ds then Inl (ErrorString ''strconv.Atoi: invalid syntax'')
        else if n < - (2 ^ 63) \<or> 2 ^ 63 \<le> n then Inl (ErrorString ''strconv.Atoi: value out of range'')
        else Inr n)"

section \<open>Facts\<close>

lemma byte_digit: "d < 10 \<Longrightarrow> byte (digit d) = 48 + d"
  by (simp add: digit_def)

lemma is_digit_digit: "d < 10 \<Longrightarrow> is_digit (digit d)"
  by (simp add: is_digit_def byte_digit)

lemma parse_digits_snoc: "parse_digits (s @ [c]) = parse_digits s * 10 + (byte c - 48)"
  by (simp add: parse_digits_def)

lemma nat_str_digits: "list_all is_digit (nat_str n) \<and> nat_str n \<noteq> []"
proof (induction n rule: nat_str.induct)
  case (1 n)
  then show ?case by (subst (1 2) nat_str.simps) (auto simp: is_digit_digit)
qed

lemma parse_nat_str: "parse_digits (nat_str n) = n"
proof (induction n rule: nat_str.induct)
  case (1 n)
  show ?case
  proof (cases "n < 10")
    case True
    then show ?thesis by (subst nat_str.simps) (simp add: parse_digits_def byte_digit)
  next
    case False
    then show ?thesis using 1 by (subst nat_str.simps) (simp add: parse_digits_snoc byte_digit)
  qed
qed

lemma is_digit_distinct: "is_digit c \<Longrightarrow> c \<noteq> CHR '','' \<and> c \<noteq> CHR ''-'' \<and> c \<noteq> CHR ''+'' \<and> \<not> is_space c"
  by (auto simp: is_digit_def is_space_def)

lemma nat_str_head: "hd (nat_str n) \<noteq> CHR ''-'' \<and> hd (nat_str n) \<noteq> CHR ''+''"
  using nat_str_digits [of n] is_digit_distinct [of "hd (nat_str n)"] by (cases "nat_str n") auto

lemma Atoi_Itoa: "- (2 ^ 63) \<le> n \<Longrightarrow> n < 2 ^ 63 \<Longrightarrow> Atoi (Itoa n) = Inr n"
  using nat_str_digits nat_str_head by (auto simp: Atoi_def Itoa_def Let_def parse_nat_str)

lemma Itoa_inject [simp]: "Itoa a = Itoa b \<longleftrightarrow> a = b"
proof
  assume "Itoa a = Itoa b"
  then show "a = b" using parse_nat_str nat_str_head
    by (auto simp: Itoa_def split: if_splits) (metis list.sel(1) nat_str_head eq_nat_nat_iff neg_0_le_iff_le
      not_less parse_nat_str equation_minus_iff less_imp_le minus_minus)+
qed simp

lemma Itoa_no_sep: "c \<in> set (Itoa n) \<Longrightarrow> c \<noteq> CHR '','' \<and> \<not> is_space c"
  using nat_str_digits [of "nat n"] nat_str_digits [of "nat (- n)"] is_digit_distinct
  by (auto simp: Itoa_def list_all_iff is_space_def split: if_splits)

lemma Itoa_nonempty [simp]: "Itoa n \<noteq> []"
  using nat_str_digits by (auto simp: Itoa_def)

lemma TrimSpace_id: "list_all (\<lambda>c. \<not> is_space c) s \<Longrightarrow> TrimSpace s = s"
proof -
  assume a: "list_all (\<lambda>c. \<not> is_space c) s"
  then have "dropWhile is_space s = s" "dropWhile is_space (rev s) = rev s"
    by (auto simp: list_all_iff dropWhile_eq_self_iff intro: hd_in_set)
      (metis Nil_is_rev_conv hd_in_set set_rev)
  then show ?thesis by (simp add: TrimSpace_def)
qed

lemma split_by_nonempty [simp]: "split_by sep s \<noteq> []"
  by (induction s) (auto split: list.splits)

lemma split_by_no_sep: "list_all (\<lambda>c. \<not> sep c) s \<Longrightarrow> split_by sep s = [s]"
  by (induction s) auto

lemma split_by_append:
  "list_all (\<lambda>c. \<not> sep c) w \<Longrightarrow> sep c \<Longrightarrow> split_by sep (w @ c # s) = w # split_by sep s"
  by (induction w) auto

lemma Split_Join:
  "ws \<noteq> [] \<Longrightarrow> (\<And>w. w \<in> set ws \<Longrightarrow> c \<notin> set w) \<Longrightarrow> Split (str_Join ws [c]) c = ws"
proof (induction ws "[c]" rule: str_Join.induct)
  case (2 w)
  then show ?case by (auto simp: Split_def list_all_iff intro!: split_by_no_sep)
next
  case (3 w v vs)
  then show ?case using split_by_append [of "\<lambda>x. x = c" w c] by (fastforce simp: Split_def list_all_iff)
qed simp

end
