(* ===== verification/Bpf.thy ===== *)
theory Bpf
  imports Host Go_Strings
begin

text \<open>
  \<^verbatim>\<open>internal/watch/bpf_linux.go\<close>: loading the probes, and the snapshot of a queue by a harmless
  ioctl on a pinned duplicate of its vhost file.  The \<^verbatim>\<open>ebpf\<close> and \<^verbatim>\<open>link\<close> packages are parameters.
  The mutex that serialises snapshots of several workers has no counterpart: a computation of the model is
  the sequence of calls of one worker.
\<close>

record 'w ebpf =
  e_RemoveMemlock :: "'w \<Rightarrow> (error + nat) \<times> 'w"
  e_LoadCollectionSpec :: "string \<Rightarrow> 'w \<Rightarrow> (error + nat) \<times> 'w"
  e_NewCollection :: "nat \<Rightarrow> 'w \<Rightarrow> (error + nat) \<times> 'w"
  e_MapValueSize :: "nat \<Rightarrow> string \<Rightarrow> nat option"
  e_HasProgram :: "nat \<Rightarrow> string \<Rightarrow> bool"
  e_Getpid :: u32
  e_OwnerUpdate :: "nat \<Rightarrow> u32 \<Rightarrow> 'w \<Rightarrow> error option \<times> 'w"
  e_Attach :: "bool \<Rightarrow> string \<Rightarrow> string \<Rightarrow> 'w \<Rightarrow> (error + nat) \<times> 'w"
  e_CloseLink :: "nat \<Rightarrow> 'w \<Rightarrow> 'w"
  e_CloseCollection :: "nat \<Rightarrow> 'w \<Rightarrow> 'w"

record BPF =
  b_collection :: nat
  b_links :: "nat list"
  b_traceStages :: bool

section \<open>Loading and unloading\<close>

definition BPF_Close :: "'w ebpf \<Rightarrow> BPF \<Rightarrow> (event, 'w, unit) io" where
  "BPF_Close eb b =
     bindE (forE (rev (b_links b)) (\<lambda>l. callU (e_CloseLink eb l) (EBpfDetach l)))
       (\<lambda>_. callU (e_CloseCollection eb (b_collection b)) (EBpfUnload (b_collection b)))"

text \<open>The size the wire format gives to the value of each map the agent reads or writes.\<close>

definition wire_layout :: "(string \<times> nat) list" where
  "wire_layout = [(''owner'', 4), (''sample'', 120), (''stats'', 72)]"

fun check_layout :: "'w ebpf \<Rightarrow> nat \<Rightarrow> (string \<times> nat) list \<Rightarrow> error option" where
  "check_layout eb c [] = None"
| "check_layout eb c ((name, sz) # rest) =
     (if e_MapValueSize eb c name \<noteq> Some sz
      then Some (ErrorString (''unexpected BPF wire layout for '' @ name)) else check_layout eb c rest)"

definition probes :: "(string \<times> string \<times> bool) list" where
  "probes =
    [(''snapshot_tx'', ''vhost_net_ioctl'', False), (''signal_event'', ''eventfd_signal_mask'', False),
     (''write_event'', ''eventfd_write'', False), (''wake_event'', ''vhost_poll_wakeup'', False),
     (''handler_enter'', ''handle_tx_kick'', False), (''handler_exit'', ''handle_tx_kick'', True)]"

fun attach_probes :: "'w ebpf \<Rightarrow> (string \<times> string \<times> bool) list \<Rightarrow> BPF \<Rightarrow> (event, 'w, error option \<times> BPF) io" where
  "attach_probes eb [] b = retE (None, b)"
| "attach_probes eb ((name, symbol, ret) # rest) b =
    (if name \<noteq> ''snapshot_tx'' \<and> \<not> b_traceStages b then attach_probes eb rest b
     else if \<not> e_HasProgram eb (b_collection b) name
     then retE (Some (ErrorString (''missing BPF program '' @ name)), b)
     else bindE (attempt (callE (e_Attach eb ret symbol name) (EBpfAttach ret symbol name))) (\<lambda>r.
       case r of
         Inl e \<Rightarrow> retE (Some (Wrap (''attach '' @ name) e), b)
       | Inr l \<Rightarrow> attach_probes eb rest (b\<lparr>b_links := b_links b @ [l]\<rparr>)))"

definition OpenBPF :: "'w ebpf \<Rightarrow> string \<Rightarrow> bool \<Rightarrow> (event, 'w, BPF) io" where
  "OpenBPF eb path traceStages =
    bindE (callE (e_RemoveMemlock eb) (EBpfPrepare ''memlock'')) (\<lambda>_.
    bindE (callE (e_LoadCollectionSpec eb path) (EBpfPrepare path)) (\<lambda>spec.
    bindE (callE (e_NewCollection eb spec) EBpfLoad) (\<lambda>collection.
    let b = \<lparr>b_collection = collection, b_links = [], b_traceStages = traceStages\<rparr> in
    bindE
      (case check_layout eb collection wire_layout of
         Some e \<Rightarrow> retE (Some e, b)
       | None \<Rightarrow>
           bindE (attempt (callO (e_OwnerUpdate eb collection (e_Getpid eb)) (EOwnerUpdate (e_Getpid eb)))) (\<lambda>r.
           case r of Inl e \<Rightarrow> retE (Some e, b) | Inr _ \<Rightarrow> attach_probes eb probes b))
      (\<lambda>r. case r of
         (Some e, b') \<Rightarrow> bindE (BPF_Close eb b') (\<lambda>_. failE e)
       | (None, b') \<Rightarrow> retE b'))))"

section \<open>Snapshots and counters\<close>

abbreviation VHOST_GET_FEATURES :: nat where
  "VHOST_GET_FEATURES \<equiv> 0x8008af00"

definition BPF_Snapshot :: "'w host \<Rightarrow> int \<Rightarrow> (event, 'w, Snapshot) io" where
  "BPF_Snapshot h fd =
    bindE (Readlink h (''/proc/self/fd/'' @ Itoa fd)) (\<lambda>path.
    if path \<noteq> ''/dev/vhost-net'' then failE (ErrorString ''snapshot FD is no longer /dev/vhost-net'')
    else bindE (SampleUpdate h zero_Snapshot) (\<lambda>_.
      bindE (Ioctl h fd VHOST_GET_FEATURES) (\<lambda>_.
      bindE (SampleLookup h) (\<lambda>s.
      if sn_TimestampNS s = 0 then failE (ErrorString ''BPF did not observe the snapshot ioctl'')
      else bindE (checkE (Validate s)) (\<lambda>_. retE s)))))"

definition BPF_Counters :: "'w host \<Rightarrow> bool \<Rightarrow> u64 \<Rightarrow> (event, 'w, Counters) io" where
  "BPF_Counters h traceStages vq = (if \<not> traceStages then retE zero_Counters else StatsLookup h vq)"

text \<open>
  A map that the collection does not have is a nil pointer, on which \<^verbatim>\<open>Delete\<close> panics.  (For the maps \<^verbatim>\<open>sample\<close>
  and \<^verbatim>\<open>stats\<close> that are read above, \<^verbatim>\<open>OpenBPF\<close> has made sure that they are there; for the others that are
  deleted from here it has not.)
\<close>

definition BPF_Forget :: "'w host \<Rightarrow> Snapshot \<Rightarrow> (event, 'w, unit) io" where
  "BPF_Forget h s =
    forE [(''stats'', sn_VQ s), (''contexts'', sn_Context s), (''works'', sn_Work s), (''waits'', sn_Wait s)]
      (\<lambda>(name, key). if \<not> h_HasMap h name then panicE (ErrorString ''nil pointer dereference'') else MapDelete h name key)"

section \<open>What a snapshot guarantees\<close>

text \<open>
  The calls of a snapshot of \<open>fd\<close> that delivered \<open>s\<close>: the duplicate was seen to be a vhost-net
  file, the sample was cleared, the ioctl ran on that duplicate and the probe filled the sample.
\<close>

definition snapshot_events :: "int \<Rightarrow> Snapshot \<Rightarrow> event list" where
  "snapshot_events fd s =
    [EReadlink (''/proc/self/fd/'' @ Itoa fd) (Inr ''/dev/vhost-net''), ESampleUpdate zero_Snapshot None,
     EIoctl fd VHOST_GET_FEATURES None, ESampleLookup (Inr s)]"

lemma Snapshot_ok:
  "ensures_at (BPF_Snapshot h fd) w (\<lambda>r es w'. \<forall>s. r = Ok s \<longrightarrow>
     es = snapshot_events fd s \<and> Validate s = None \<and> sn_TimestampNS s \<noteq> 0)"
  by (simp add: BPF_Snapshot_def snapshot_events_def ensures_at_rules ensures_at_calls split: prod.split sum.split option.split)

text \<open>Whatever it answers, a snapshot opens, closes and writes nothing.\<close>

fun reads_only :: "event \<Rightarrow> bool" where
  "reads_only (EReadlink _ _) = True"
| "reads_only (ESampleUpdate _ _) = True"
| "reads_only (ESampleLookup _) = True"
| "reads_only (EIoctl _ _ _) = True"
| "reads_only (EStatsLookup _ _) = True"
| "reads_only (EMapDelete _ _) = True"
| "reads_only _ = False"

lemma Snapshot_reads_only: "traces (list_all reads_only) (BPF_Snapshot h fd)"
  unfolding BPF_Snapshot_def by (intro every_call.intros traces_calls) auto

lemma Counters_reads_only: "traces (list_all reads_only) (BPF_Counters h ts vq)"
  unfolding BPF_Counters_def by (intro every_call.intros traces_calls) auto

lemma Forget_reads_only: "traces (list_all reads_only) (BPF_Forget h s)"
  unfolding BPF_Forget_def by (intro every_call.intros traces_calls) auto

lemma Snapshot_ioctl_guarded:
  "ensures_at (BPF_Snapshot h fd) w (\<lambda>r es w'. \<forall>fd' cmd res. EIoctl fd' cmd res \<in> set es \<longrightarrow>
     fd' = fd \<and> cmd = VHOST_GET_FEATURES \<and>
     hd es = EReadlink (''/proc/self/fd/'' @ Itoa fd) (Inr ''/dev/vhost-net''))"
  by (simp add: BPF_Snapshot_def ensures_at_rules ensures_at_calls split: prod.split sum.split option.split)

end
