(* ===== verification/Descriptors.thy ===== *)
theory Descriptors
  imports Host "HOL-Library.Multiset"
begin

text \<open>
  Accounting for what a computation acquires and has to give back, and the accounts of the
  descriptors the agent holds and of the probes it has attached.
\<close>

section \<open>Accounts\<close>

text \<open>
  An account reads off a call list what is held after the calls when \<open>M\<close> was held before, and is \<open>None\<close>
  when something is given back that is not held.  The pattern \<^verbatim>\<open>x, err := open(); defer close(x)\<close> keeps
  every account balanced if the body does.
\<close>

locale accounting =
  fixes held :: "'e list \<Rightarrow> 'r multiset \<Rightarrow> 'r multiset option"
  assumes held_nil: "held [] M = Some M"
    and held_append: "held (es @ es') M = Option.bind (held es M) (held es')"
begin

lemma scoped:
  assumes "\<forall>w. ensures_at m w (\<lambda>r es w'. case r of
      Ok x \<Rightarrow> \<forall>M. held es M = Some (M + F x) | Running \<Rightarrow> True | _ \<Rightarrow> \<forall>M. held es M = Some M)"
    and "\<And>x. completes (\<lambda>es. \<forall>M. held es M = Some M) (body x)"
    and "\<And>x w. ensures_at (d x) w (\<lambda>r es w'. r = Ok () \<and> (\<forall>M. held es (M + F x) = Some M))"
  shows "completes (\<lambda>es. \<forall>M. held es M = Some M) (bindE m (\<lambda>x. deferE (body x) (d x)))"
  unfolding traces_if_def
proof (intro allI, rule ensures_at_bindI [OF assms(1) [THEN spec]], goal_cases)
  case (1 w x es w')
  then have o: "held es M = Some (M + F x)" for M by simp
  have "ensures_at (body x) w' (\<lambda>r es w'. r = Running \<or> (\<forall>M. held es M = Some M))" using assms(2) by (simp add: traces_if_def)
  then show ?case
  proof (rule ensures_at_deferI, goal_cases)
    case (2 r es1 w1)
    then show ?case by (intro ensures_at_mono [OF assms(3)]) (auto simp: held_append o)
  qed auto
qed auto

end

sublocale accounting \<subseteq> balance: trace_property "\<lambda>es. \<forall>M. held es M = Some M"
  by unfold_locales (auto simp: held_nil held_append)

section \<open>Descriptors\<close>

text \<open>
  The descriptors the agent itself holds, read off the call list.  \<open>fds es M\<close> is the collection of
  open descriptors after the calls \<open>es\<close> when \<open>M\<close> was open before; it is \<open>None\<close> when a
  descriptor is closed that is not open.  A computation is \<open>neutral\<close> when it ends with exactly the
  descriptors it started with and never closes one it does not hold.
\<close>

fun opened :: "event \<Rightarrow> int option" where
  "opened (EPidfdGetfd _ _ (Inr fd)) = Some fd"
| "opened (EPidfdOpen _ (Inr fd)) = Some fd"
| "opened (EOpen _ (Inr fd)) = Some fd"
| "opened _ = None"

fun closed :: "event \<Rightarrow> int option" where
  "closed (EClose fd) = Some fd"
| "closed _ = None"

fun fds :: "event list \<Rightarrow> int multiset \<Rightarrow> int multiset option" where
  "fds [] M = Some M"
| "fds (e # es) M = (case closed e of
     Some fd \<Rightarrow> if fd \<in># M then fds es (M - {#fd#}) else None
   | None \<Rightarrow> (case opened e of Some fd \<Rightarrow> fds es (add_mset fd M) | None \<Rightarrow> fds es M))"

definition neutral :: "event list \<Rightarrow> bool" where
  "neutral es \<longleftrightarrow> (\<forall>M. fds es M = Some M)"

lemma fds_append: "fds (es @ es') M = Option.bind (fds es M) (fds es')"
  by (induction es arbitrary: M) (auto split: option.splits)

interpretation descriptors: accounting fds
  by unfold_locales (auto simp: fds_append)

interpretation neutral: trace_property neutral
  by unfold_locales (auto simp: neutral_def fds_append)

text \<open>Calls that neither open nor close.\<close>

abbreviation keeps_fds :: "event \<Rightarrow> bool" where
  "keeps_fds e \<equiv> opened e = None \<and> closed e = None"

lemma neutral_keeps: "list_all keeps_fds es \<Longrightarrow> neutral es"
  by (induction es) (auto simp: neutral_def)

lemma neutral_scope: "neutral es \<Longrightarrow> opened e = Some fd \<Longrightarrow> closed e = None \<Longrightarrow> neutral (e # es @ [EClose fd])"
  by (auto simp: neutral_def fds_append)

text \<open>The pattern \<^verbatim>\<open>fd, err := open(); defer unix.Close(fd)\<close>.\<close>

definition opens_fd :: "(error + int \<Rightarrow> event) \<Rightarrow> bool" where
  "opens_fd ev \<longleftrightarrow> (\<forall>r. closed (ev r) = None \<and> opened (ev r) = (case r of Inl e \<Rightarrow> None | Inr fd \<Rightarrow> Some fd))"

lemma opens_fd_calls [simp]: "opens_fd (EPidfdGetfd a b)" "opens_fd (EPidfdOpen a)" "opens_fd (EOpen p)"
  by (auto simp: opens_fd_def split: sum.split)

lemma neutral_failed_open: "opens_fd ev \<Longrightarrow> neutral [ev (Inl e)]"
  by (simp add: neutral_def opens_fd_def)

lemma neutral_opened: "opens_fd ev \<Longrightarrow> neutral es \<Longrightarrow> neutral (ev (Inr fd) # es @ [EClose fd])"
  by (rule neutral_scope) (auto simp: opens_fd_def)

text \<open>\<open>acquires m f\<close>: where \<open>m\<close> returns \<open>x\<close> it has opened the descriptor \<open>f x\<close>, else nothing.\<close>

definition acquires :: "(event, 'w, 'a) io \<Rightarrow> ('a \<Rightarrow> int) \<Rightarrow> bool" where
  "acquires m f \<longleftrightarrow> (\<forall>w. ensures_at m w (\<lambda>r es w'. case r of
     Ok x \<Rightarrow> \<forall>M. fds es M = Some (add_mset (f x) M) | Running \<Rightarrow> True | _ \<Rightarrow> neutral es))"

lemma acquires_call: "opens_fd ev \<Longrightarrow> acquires (callE call ev) (\<lambda>fd. fd)"
  by (simp add: acquires_def ensures_at_callE neutral_failed_open opens_fd_def split: prod.split sum.split)

lemma acquires_lift: "acquires m f \<Longrightarrow> acquires (liftE m) f"
  by (auto simp: acquires_def ensures_at_lift)

definition closes :: "(event, 'w, unit) io \<Rightarrow> int \<Rightarrow> bool" where
  "closes m fd \<longleftrightarrow> (\<forall>w. ensures_at m w (\<lambda>r es w'. r = Ok () \<and> es = [EClose fd]))"

lemma closes_Close: "closes (Close h fd) fd" "closes (liftE (Close h fd)) fd"
  by (auto simp: closes_def ensures_at_callU ensures_at_lift)

lemma completes_scoped_by:
  assumes "acquires m f" and "\<And>x. completes neutral (body x)" and "\<And>x. closes (d x) (f x)"
  shows "completes neutral (bindE m (\<lambda>x. deferE (body x) (d x)))"
proof -
  have n: "neutral = (\<lambda>es. \<forall>M. fds es M = Some M)" by (simp add: neutral_def fun_eq_iff)
  show ?thesis unfolding n
  proof (rule descriptors.scoped [where F = "\<lambda>x. {#f x#}"], goal_cases)
    case 1
    show ?case by (intro allI ensures_at_mono [OF assms(1) [unfolded acquires_def, THEN spec]])
      (auto simp: neutral_def split: outcome.splits)
  next
    case (2 x)
    then show ?case using assms(2) by (simp add: n)
  next
    case (3 x w)
    then show ?case using assms(3) [of x] by (auto simp: closes_def intro: ensures_at_mono)
  qed
qed

lemma completes_scoped:
  "acquires m f \<Longrightarrow> (\<And>x. completes neutral (body x)) \<Longrightarrow>
   completes neutral (bindE m (\<lambda>x. deferE (body x) (Close h (f x))))"
  by (rule completes_scoped_by [OF _ _ closes_Close(1)])

lemma completes_scoped_lift:
  "acquires m f \<Longrightarrow> (\<And>x. completes neutral (body x)) \<Longrightarrow>
   completes neutral (bindE (liftE m) (\<lambda>x. deferE (body x) (liftE (Close h (f x)))))"
  by (rule completes_scoped_by [OF acquires_lift _ closes_Close(2)])

lemma completes_keeps: "traces (list_all keeps_fds) m \<Longrightarrow> traces_if d neutral m"
  by (erule traces_imp) (rule neutral_keeps)

text \<open>
  The pattern \<^verbatim>\<open>fd, err := open(); err = f(fd); unix.Close(fd)\<close>, where \<open>f\<close> cannot panic.
\<close>

definition no_panic :: "('e, 'w, 'a) io \<Rightarrow> bool" where
  "no_panic m \<longleftrightarrow> (\<forall>w. ensures_at m w (\<lambda>r es w'. \<forall>e. r \<noteq> Panic e))"

lemma completes_closed_after:
  assumes "acquires m f" and "\<And>x. completes neutral (body x)" and "\<And>x. no_panic (body x)"
    and "\<And>x r. completes neutral (rest x r)"
  shows "completes neutral (bindE m (\<lambda>x. bindE (attempt (body x)) (\<lambda>r. bindE (Close h (f x)) (\<lambda>_. rest x r))))"
  unfolding traces_if_def
proof (intro allI, rule ensures_at_bindI [OF assms(1) [unfolded acquires_def, THEN spec]], goal_cases)
  case (1 w x es w1)
  then have o: "fds es M = Some (add_mset (f x) M)" for M by simp
  obtain r2 es2 w2 where b: "body x w1 = (r2, es2, w2)" by (cases "body x w1")
  have n: "r2 = Running \<or> neutral es2" using traces_ifD [OF assms(2) b] by blast
  have p: "r2 \<noteq> Panic e" for e using assms(3) [of x] b
    by (auto simp: no_panic_def ensures_at_def split: prod.splits dest!: spec [of _ w1])
  have rest: "ensures_at (rest x y) w3 (\<lambda>r es3 w'. r = Running \<or> neutral es3)" for y w3
    using assms(4) [of x y] by (simp add: traces_if_def)
  have fin: "neutral es2 \<Longrightarrow> ensures_at (rest x y) w3
      (\<lambda>r es3 w'. r = Running \<or> neutral (es @ es2 @ EClose (f x) # es3))" for y w3
    by (rule ensures_at_mono [OF rest]) (auto simp: neutral_def fds_append o)
  show ?case using b n p fin
    by (cases r2) (auto simp: ensures_at_rules ensures_at_calls ensures_at_def [of "body x"])
qed auto


section \<open>Probes\<close>

text \<open>The links (\<open>Inl\<close>) and collections (\<open>Inr\<close>) that are in place.\<close>

fun attached :: "event list \<Rightarrow> (nat + nat) multiset \<Rightarrow> (nat + nat) multiset option" where
  "attached [] M = Some M"
| "attached (EBpfAttach _ _ _ (Inr l) # es) M = attached es (add_mset (Inl l) M)"
| "attached (EBpfLoad (Inr c) # es) M = attached es (add_mset (Inr c) M)"
| "attached (EBpfDetach l # es) M = (if Inl l \<in># M then attached es (M - {#Inl l#}) else None)"
| "attached (EBpfUnload c # es) M = (if Inr c \<in># M then attached es (M - {#Inr c#}) else None)"
| "attached (_ # es) M = attached es M"

lemma attached_append: "attached (es @ es') M = Option.bind (attached es M) (attached es')"
  by (induction es M rule: attached.induct) auto

interpretation probe_account: accounting attached
  by unfold_locales (auto simp: attached_append)

text \<open>Calls that leave the probes as they are.\<close>

fun probeless :: "event \<Rightarrow> bool" where
  "probeless (EBpfAttach _ _ _ _) = False"
| "probeless (EBpfLoad _) = False"
| "probeless (EBpfDetach _) = False"
| "probeless (EBpfUnload _) = False"
| "probeless _ = True"

lemma attached_probeless: "list_all probeless es \<Longrightarrow> attached es M = Some M"
proof (induction es)
  case (Cons e es)
  then show ?case by (cases e) auto
qed simp

end
