(* ===== verification/Target.thy ===== *)
theory Target
  imports Bpf Descriptors
begin

unbundle bit_operations_syntax

text \<open>
  \<^verbatim>\<open>internal/watch/target_linux.go\<close>: the attached QEMU process, its descriptors, the reads of
  the ring indices from its memory, and the verified kick.
\<close>

record Target =
  t_PID :: int
  t_pidfd :: int

section \<open>Bytes\<close>

definition le16 :: "u8 \<Rightarrow> u8 \<Rightarrow> u16" where
  "le16 b0 b1 = ucast b0 OR push_bit 8 (ucast b1)"

definition put_u64 :: "u64 \<Rightarrow> u8 list" where
  "put_u64 v = map (\<lambda>i. ucast (drop_bit (8 * i) v)) [0..<8]"

section \<open>Batched ring reads\<close>

record RingBatch =
  rb_target :: Target
  rb_data :: "u8 list"
  rb_remote :: "(u64 \<times> nat) list"

definition ring_iovecs :: "Snapshot \<Rightarrow> (u64 \<times> nat) list" where
  "ring_iovecs s = [(sn_Avail s + 2, 2), (sn_Used s + 2, 2)]"

fun batch_iovecs :: "Snapshot list \<Rightarrow> (u64 \<times> nat) list \<Rightarrow> error + (u64 \<times> nat) list" where
  "batch_iovecs [] acc = Inr acc"
| "batch_iovecs (s # ss) acc =
     (case Validate s of Some e \<Rightarrow> Inl e | None \<Rightarrow> batch_iovecs ss (acc @ ring_iovecs s))"

text \<open>The address of the first byte is taken at the end, which panics on an empty buffer.\<close>

definition NewRingBatch :: "Target \<Rightarrow> Snapshot list \<Rightarrow> RingBatch outcome" where
  "NewRingBatch target snapshots =
    (if length snapshots = 0 \<or> length snapshots > 512
     then Err (ErrorString ''ring batch requires 1..512 TX queues'')
     else let data = replicate (4 * length snapshots) 0 in
       (case batch_iovecs snapshots [] of
         Inl e \<Rightarrow> Err e
       | Inr remote \<Rightarrow>
           if data = [] then Panic (ErrorString ''index out of range'')
           else Ok \<lparr>rb_target = target, rb_data = data, rb_remote = remote\<rparr>))"

text \<open>
  The read overwrites as much of the buffer as the kernel delivered; it is an error unless that
  is all of it.
\<close>

definition RingBatch_Read :: "'w host \<Rightarrow> RingBatch \<Rightarrow> (event, 'w, error option \<times> RingBatch) io" where
  "RingBatch_Read h b =
    bindE (attempt (ProcessVMReadv h (t_PID (rb_target b)) (length (rb_data b)) (rb_remote b))) (\<lambda>r.
    case r of
      Inl e \<Rightarrow> retE (Some e, b)
    | Inr bs \<Rightarrow>
        let b' = b\<lparr>rb_data := take (length (rb_data b)) bs @ drop (length bs) (rb_data b)\<rparr>
        in retE (if length bs \<noteq> length (rb_data b)
                 then Some (ErrorString ''incomplete batched ring read'') else None, b'))"

text \<open>\<^verbatim>\<open>Indices\<close>; \<open>None\<close> where the slice expression panics.\<close>

definition RingBatch_Indices :: "RingBatch \<Rightarrow> nat \<Rightarrow> (u16 \<times> u16) option" where
  "RingBatch_Indices b index =
    (if index * 4 + 4 \<le> length (rb_data b)
     then let data = take 4 (drop (index * 4) (rb_data b))
          in Some (le16 (data ! 0) (data ! 1), le16 (data ! 2) (data ! 3))
     else None)"

section \<open>The process\<close>

abbreviation POLLERR_POLLNVAL :: u16 where
  "POLLERR_POLLNVAL \<equiv> 0x28"

text \<open>The loop around an interrupted poll, for at most \<open>n\<close> polls.\<close>

fun pollAlive :: "nat \<Rightarrow> 'w host \<Rightarrow> int \<Rightarrow> (event, 'w, bool) io" where
  "pollAlive 0 h fd = runningE"
| "pollAlive (Suc n) h fd =
    bindE (attempt (Poll h fd)) (\<lambda>r.
    case r of
      Inl e \<Rightarrow> (if errors_Is e EINTR then pollAlive n h fd else failE e)
    | Inr (ready, revents) \<Rightarrow>
        (if revents AND POLLERR_POLLNVAL \<noteq> 0 then failE (ErrorString ''pidfd readiness check failed'')
         else retE (ready = 0)))"

definition CheckAlive :: "'w host \<Rightarrow> Target \<Rightarrow> (event, 'w, bool) io" where
  "CheckAlive h t = pollAlive (h_polls h) h (t_pidfd t)"

definition Alive :: "'w host \<Rightarrow> Target \<Rightarrow> (event, 'w, bool) io" where
  "Alive h t = bindE (attempt (CheckAlive h t)) (\<lambda>r.
     case r of Inl e \<Rightarrow> retE False | Inr alive \<Rightarrow> retE alive)"

definition Target_Close :: "'w host \<Rightarrow> Target \<Rightarrow> (event, 'w, unit) io" where
  "Target_Close h t = Close h (t_pidfd t)"

definition OpenTarget :: "'w host \<Rightarrow> int \<Rightarrow> (event, 'w, Target) io" where
  "OpenTarget h pid =
    bindE (PidfdOpen h pid) (\<lambda>fd.
    let t = \<lparr>t_PID = pid, t_pidfd = fd\<rparr> in
    bindE (attempt (ReadFile h (''/proc/'' @ Itoa pid @ ''/comm''))) (\<lambda>comm.
    bindE (case comm of
        Inl e \<Rightarrow> retE True
      | Inr c \<Rightarrow> if \<not> HasPrefix c ''qemu-system'' then retE True
                 else bindE (Alive h t) (\<lambda>alive. retE (\<not> alive))) (\<lambda>refuse.
    if refuse
    then bindE (Target_Close h t) (\<lambda>_. failE (ErrorString ''target must be a live QEMU system process''))
    else retE t)))"

definition Duplicate :: "'w host \<Rightarrow> Target \<Rightarrow> int \<Rightarrow> (event, 'w, int) io" where
  "Duplicate h t fd = PidfdGetfd h (t_pidfd t) fd"

fun find_eventfd_id :: "string list \<Rightarrow> error + u32" where
  "find_eventfd_id [] = Inl (ErrorString ''FD is not an eventfd with a visible identity'')"
| "find_eventfd_id (line # rest) =
    (case Cut line (CHR '':'') of (key, value, found) \<Rightarrow>
       if found \<and> key = ''eventfd-id''
       then (case ParseUint (TrimSpace value) 32 of Inl e \<Rightarrow> Inl e | Inr n \<Rightarrow> Inr (of_nat n))
       else find_eventfd_id rest)"

definition eventID :: "'w host \<Rightarrow> string \<Rightarrow> int \<Rightarrow> (event, 'w, u32) io" where
  "eventID h pid fd =
    bindE (ReadFile h (''/proc/'' @ pid @ ''/fdinfo/'' @ Itoa fd)) (\<lambda>data.
    case find_eventfd_id (Split data newline) of Inl e \<Rightarrow> failE e | Inr ident \<Rightarrow> retE ident)"

text \<open>The eventfds by identity; an identity that was not seen has no descriptors.\<close>

type_synonym eventmap = "u32 \<Rightarrow> int list"

definition inventory_entry ::
  "'w host \<Rightarrow> Target \<Rightarrow> string \<times> bool \<Rightarrow> int list \<times> eventmap \<Rightarrow> (event, 'w, int list \<times> eventmap) io" where
  "inventory_entry h t entry acc = (case acc of (vhosts, events) \<Rightarrow>
    (case Atoi (fst entry) of
       Inl e \<Rightarrow> retE acc
     | Inr fd \<Rightarrow>
         bindE (attempt (Readlink h (''/proc/'' @ Itoa (t_PID t) @ ''/fd/'' @ fst entry))) (\<lambda>link.
         case link of
           Inl e \<Rightarrow> if errors_Is e ENOENT then retE acc else failE e
         | Inr path \<Rightarrow>
             if path = ''/dev/vhost-net'' then retE (vhosts @ [fd], events)
             else if path = ''anon_inode:[eventfd]'' then
               bindE (attempt (eventID h (Itoa (t_PID t)) fd)) (\<lambda>r.
               case r of
                 Inl e \<Rightarrow> if errors_Is e ENOENT then retE acc else failE e
               | Inr ident \<Rightarrow> retE (vhosts, events(ident := events ident @ [fd])))
             else retE acc)))"

definition Inventory :: "'w host \<Rightarrow> Target \<Rightarrow> (event, 'w, int list \<times> eventmap) io" where
  "Inventory h t =
    bindE (ReadDir h (''/proc/'' @ Itoa (t_PID t) @ ''/fd'')) (\<lambda>entries.
    bindE (foldE (inventory_entry h t) entries ([], \<lambda>_. [])) (\<lambda>(vhosts, events).
    retE (sort vhosts, events)))"

definition Ring :: "'w host \<Rightarrow> Target \<Rightarrow> Snapshot \<Rightarrow> (event, 'w, u16 \<times> u16) io" where
  "Ring h t s =
    bindE (ProcessVMReadv h (t_PID t) 4 (ring_iovecs s)) (\<lambda>data.
    if length data \<noteq> 4 then failE (ErrorString ''incomplete ring index read'')
    else retE (le16 (data ! 0) (data ! 1), le16 (data ! 2) (data ! 3)))"

section \<open>The verified kick\<close>

text \<open>
  The interfaces \<^verbatim>\<open>recoveryTarget\<close> and \<^verbatim>\<open>snapshotter\<close> that \<^verbatim>\<open>Rekick\<close> is written against.
\<close>

record 'w recoveryTarget =
  rt_Duplicate :: "int \<Rightarrow> (event, 'w, int) io"
  rt_Alive :: "(event, 'w, bool) io"

abbreviation O_NONBLOCK :: u64 where
  "O_NONBLOCK \<equiv> 0x800"

definition Rekick ::
  "'w host \<Rightarrow> 'w recoveryTarget \<Rightarrow> (int \<Rightarrow> (event, 'w, Snapshot) io) \<Rightarrow> int \<Rightarrow> Snapshot \<Rightarrow> eventmap \<Rightarrow>
   (event, 'w, unit) io" where
  "Rekick h target snapshot vhostFD s events =
    bindE (checkE (Validate s)) (\<lambda>_.
    let candidates = events (sn_EventID s) in
    if length candidates = 0 then failE (ErrorString ''live QEMU kick eventfd was not found'')
    else bindE (rt_Duplicate target (Min (set candidates))) (\<lambda>fd.
    deferE
      (bindE (eventID h ''self'' fd) (\<lambda>ident.
       if ident \<noteq> sn_EventID s then failE (ErrorString ''duplicated eventfd identity changed'')
       else bindE (FcntlGetfl h fd) (\<lambda>flags.
       if flags AND O_NONBLOCK = 0 then failE (ErrorString ''refusing a potentially blocking eventfd write'')
       else bindE (snapshot vhostFD) (\<lambda>current.
       bindE (checkE (Validate current)) (\<lambda>_.
       bindE (if Identity current \<noteq> Identity s then retE True
              else bindE (rt_Alive target) (\<lambda>alive. retE (\<not> alive))) (\<lambda>changed.
       if changed then failE (ErrorString ''queue identity changed before recovery'')
       else bindE (Write h fd (put_u64 1)) (\<lambda>n.
       if n \<noteq> 8 then failE (ErrorString ''short eventfd write'') else retE ()))))))) 
      (Close h fd)))"

text \<open>A \<^verbatim>\<open>*Target\<close> as the recovery target.\<close>

definition recovery_of :: "'w host \<Rightarrow> Target \<Rightarrow> 'w recoveryTarget" where
  "recovery_of h t = \<lparr>rt_Duplicate = Duplicate h t, rt_Alive = Alive h t\<rparr>"

section \<open>The liveness check\<close>

definition interrupted_poll :: "int \<Rightarrow> event \<Rightarrow> bool" where
  "interrupted_poll fd e \<longleftrightarrow> (\<exists>err. e = EPoll fd (Inl err) \<and> errors_Is err EINTR)"

text \<open>What a poll that was not interrupted says: the error it stands for, or whether QEMU lives.\<close>

definition poll_answer :: "error + (int \<times> u16) \<Rightarrow> bool outcome" where
  "poll_answer r = (case r of Inl e \<Rightarrow> Err e
     | Inr (ready, revents) \<Rightarrow>
         if revents AND POLLERR_POLLNVAL \<noteq> 0 then Err (ErrorString ''pidfd readiness check failed'')
         else Ok (ready = 0))"

lemma pollAlive_spec:
  "ensures_at (pollAlive n h fd) w (\<lambda>r es w'.
     if r = Running then length es = n \<and> list_all (interrupted_poll fd) es
     else \<exists>es' a. es = es' @ [EPoll fd a] \<and> length es' < n \<and> list_all (interrupted_poll fd) es' \<and>
       \<not> interrupted_poll fd (EPoll fd a) \<and> r = poll_answer a)"
proof (induction n arbitrary: w)
  case 0
  then show ?case by simp
next
  case (Suc n)
  obtain a w1 where p: "h_Poll h fd w = (a, w1)" by (cases "h_Poll h fd w")
  show ?case
  proof (cases "\<exists>e. a = Inl e \<and> errors_Is e EINTR")
    case True
    then obtain e where a: "a = Inl e" "errors_Is e EINTR" by blast
    have i: "interrupted_poll fd (EPoll fd (Inl e))" using a by (simp add: interrupted_poll_def)
    have "\<exists>es'' b. EPoll fd (Inl e) # es = es'' @ [EPoll fd b] \<and> length es'' < Suc n \<and>
        list_all (interrupted_poll fd) es'' \<and> \<not> interrupted_poll fd (EPoll fd b) \<and> r = poll_answer b"
      if "\<exists>es' b. es = es' @ [EPoll fd b] \<and> length es' < n \<and> list_all (interrupted_poll fd) es' \<and>
        \<not> interrupted_poll fd (EPoll fd b) \<and> r = poll_answer b" for es r
      using that i by (elim exE conjE) (rule exI [of _ "EPoll fd (Inl e) # _"], auto)
    then show ?thesis using p a i
      by (auto simp: ensures_at_rules ensures_at_calls intro!: ensures_at_mono [OF Suc.IH] split: if_splits)
  next
    case False
    then have "\<not> interrupted_poll fd (EPoll fd a)" by (auto simp: interrupted_poll_def)
    then show ?thesis using p False
      by (auto simp: ensures_at_rules ensures_at_calls poll_answer_def split: sum.split prod.split)
  qed
qed

text \<open>
  C30. An interrupted poll is never taken for the exit of QEMU: the loop answers with the first poll that
  was not interrupted, and if it has not answered after \<open>n\<close> polls then all of them were interrupted.
\<close>

theorem pollAlive_ignores_interrupts:
  assumes "pollAlive n h fd w = (r, es, w')"
  shows "if r = Running then length es = n \<and> list_all (interrupted_poll fd) es
     else \<exists>es' a. es = es' @ [EPoll fd a] \<and> length es' < n \<and> list_all (interrupted_poll fd) es' \<and>
       \<not> interrupted_poll fd (EPoll fd a) \<and> r = poll_answer a"
  using pollAlive_spec [of n h fd w] assms by (simp add: ensures_at_def)

lemma poll_answer_returns [simp]: "poll_answer a \<noteq> Panic e" "poll_answer a \<noteq> Running"
  by (simp_all add: poll_answer_def split: sum.split prod.split)

text \<open>The polls that show the process behind \<open>fd\<close> alive.\<close>

definition polled_alive :: "int \<Rightarrow> event list \<Rightarrow> bool" where
  "polled_alive fd es \<longleftrightarrow> (\<exists>es' revents. es = es' @ [EPoll fd (Inr (0, revents))] \<and>
     list_all (interrupted_poll fd) es' \<and> revents AND POLLERR_POLLNVAL = 0)"

fun is_poll :: "event \<Rightarrow> bool" where
  "is_poll (EPoll _ _) = True"
| "is_poll _ = False"

lemma CheckAlive_polls: "traces (list_all is_poll) (CheckAlive h t)"
proof -
  have "traces (list_all is_poll) (pollAlive n h fd)" for n h fd
    by (induction n) (auto intro!: every_call.intros traces_calls split: prod.split)
  then show ?thesis by (simp add: CheckAlive_def)
qed

lemma Alive_polls: "traces (list_all is_poll) (Alive h t)"
  unfolding Alive_def by (intro every_call.intros CheckAlive_polls)

lemma poll_answer_alive: "poll_answer a = Ok True \<Longrightarrow> \<exists>rv. a = Inr (0, rv) \<and> rv AND POLLERR_POLLNVAL = 0"
  by (auto simp: poll_answer_def split: sum.splits prod.splits if_splits)

lemma Alive_spec:
  "ensures_at (Alive h t) w (\<lambda>r es w'. list_all is_poll es \<and> (r = Ok True \<longrightarrow> polled_alive (t_pidfd t) es) \<and>
     (r = Running \<or> r = Ok True \<or> r = Ok False))"
proof -
  let ?Q = "\<lambda>r es w'. if r = Running then length es = h_polls h \<and> list_all (interrupted_poll (t_pidfd t)) es
     else \<exists>es' a. es = es' @ [EPoll (t_pidfd t) a] \<and> length es' < h_polls h \<and>
       list_all (interrupted_poll (t_pidfd t)) es' \<and>
       \<not> interrupted_poll (t_pidfd t) (EPoll (t_pidfd t) a) \<and> r = poll_answer a"
  obtain r es w' where c: "CheckAlive h t w = (r, es, w')" by (cases "CheckAlive h t w")
  have q: "?Q r es w'" using pollAlive_spec [of "h_polls h" h "t_pidfd t" w] c
    by (simp add: CheckAlive_def ensures_at_def)
  have p: "list_all is_poll es" using traces_ifD [OF CheckAlive_polls c] by simp
  have np: "r \<noteq> Panic e" for e using q by (auto split: if_splits)
  have al: "polled_alive (t_pidfd t) es" if "r = Ok True"
    using q that poll_answer_alive by (fastforce simp: polled_alive_def)
  show ?thesis using p np al
    by (cases r) (auto simp: Alive_def ensures_at_rules ensures_at_def [of "CheckAlive h t"] c)
qed

section \<open>The verified kick\<close>

text \<open>
  The calls of a kick that reached its write: the eventfd was pinned, its identity and flags were read
  from the pinned duplicate, a fresh snapshot was taken and the process polled, and only then was
  the native-endian one written; the duplicate is closed at the end.
\<close>

definition kick_body_calls :: "int \<Rightarrow> int \<Rightarrow> int \<Rightarrow> Snapshot \<Rightarrow> error + int \<Rightarrow> event list \<Rightarrow> bool" where
  "kick_body_calls pidfd fd vhostFD s res es \<longleftrightarrow>
    (\<exists>data flags current polls.
       es = EReadFile (''/proc/self/fdinfo/'' @ Itoa fd) (Inr data) # EFcntlGetfl fd (Inr flags) #
            snapshot_events vhostFD current @ polls @ [EWrite fd (put_u64 1) res] \<and>
       find_eventfd_id (Split data newline) = Inr (sn_EventID s) \<and>
       flags AND O_NONBLOCK \<noteq> 0 \<and> Validate current = None \<and> Identity current = Identity s \<and>
       polled_alive pidfd polls)"

definition verified_kick :: "int \<Rightarrow> int \<Rightarrow> Snapshot \<Rightarrow> int \<Rightarrow> error + int \<Rightarrow> event list \<Rightarrow> bool" where
  "verified_kick pidfd vhostFD s m res es \<longleftrightarrow>
    (\<exists>fd es'. es = EPidfdGetfd pidfd m (Inr fd) # es' @ [EClose fd] \<and>
       kick_body_calls pidfd fd vhostFD s res es')"

fun quiet :: "event \<Rightarrow> bool" where
  "quiet (EWrite _ _ _) = False"
| "quiet _ = True"

lemma quiet_polls: "list_all is_poll es \<Longrightarrow> list_all quiet es"
  by (induction es) (auto elim!: is_poll.elims)

lemma quiet_reads: "list_all reads_only es \<Longrightarrow> list_all quiet es"
  by (induction es) (auto elim!: reads_only.elims)

lemma eventID_spec:
  "ensures_at (eventID h pid fd) w (\<lambda>r es w'. (\<exists>a. es = [EReadFile (''/proc/'' @ pid @ ''/fdinfo/'' @ Itoa fd) a]) \<and>
     (\<forall>ident. r = Ok ident \<longrightarrow> (\<exists>data. es = [EReadFile (''/proc/'' @ pid @ ''/fdinfo/'' @ Itoa fd) (Inr data)] \<and>
        find_eventfd_id (Split data newline) = Inr ident)) \<and> (\<forall>e. r \<noteq> Panic e) \<and> r \<noteq> Running)"
  by (auto simp: eventID_def ensures_at_rules ensures_at_calls split: prod.split sum.split)

lemma Snapshot_spec:
  "ensures_at (BPF_Snapshot h fd) w (\<lambda>r es w'. list_all reads_only es \<and> (\<forall>e. r \<noteq> Panic e) \<and> r \<noteq> Running \<and>
     (\<forall>s. r = Ok s \<longrightarrow> es = snapshot_events fd s \<and> Validate s = None \<and> sn_TimestampNS s \<noteq> 0))"
  by (simp add: BPF_Snapshot_def snapshot_events_def ensures_at_rules ensures_at_calls split: prod.split sum.split option.split)

definition kick_outcome :: "(error + int \<Rightarrow> event list \<Rightarrow> bool) \<Rightarrow> unit outcome \<Rightarrow> event list \<Rightarrow> bool" where
  "kick_outcome K r es \<longleftrightarrow> (\<forall>e. r \<noteq> Panic e) \<and>
     (if r = Ok () then K (Inr 8) es
      else list_all quiet es \<or> r \<noteq> Running \<and> (\<exists>res. res \<noteq> Inr 8 \<and> K res es))"

lemma kick_outcome_quiet: "list_all quiet es \<Longrightarrow> kick_outcome K (Err e) es" "list_all quiet es \<Longrightarrow> kick_outcome K Running es"
  by (auto simp: kick_outcome_def)

lemma Rekick_body:
  "ensures_at
      (bindE (eventID h ''self'' fd) (\<lambda>ident.
       if ident \<noteq> sn_EventID s then failE (ErrorString ''duplicated eventfd identity changed'')
       else bindE (FcntlGetfl h fd) (\<lambda>flags.
       if flags AND O_NONBLOCK = 0 then failE (ErrorString ''refusing a potentially blocking eventfd write'')
       else bindE (BPF_Snapshot h vhostFD) (\<lambda>current.
       bindE (checkE (Validate current)) (\<lambda>_.
       bindE (if Identity current \<noteq> Identity s then retE True
              else bindE (Alive h t) (\<lambda>alive. retE (\<not> alive))) (\<lambda>changed.
       if changed then failE (ErrorString ''queue identity changed before recovery'')
       else bindE (Write h fd (put_u64 1)) (\<lambda>n.
       if n \<noteq> 8 then failE (ErrorString ''short eventfd write'') else retE ())))))))
      w (\<lambda>r es w'. kick_outcome (kick_body_calls (t_pidfd t) fd vhostFD s) r es)"
proof (rule ensures_at_bindI [OF eventID_spec], goal_cases)
  case (1 ident es1 w1)
  then obtain data where e1: "es1 = [EReadFile (''/proc/self/fdinfo/'' @ Itoa fd) (Inr data)]"
    and d: "find_eventfd_id (Split data newline) = Inr ident" by auto
  show ?case
  proof (cases "ident = sn_EventID s")
    case False
    then show ?thesis by (simp add: e1 kick_outcome_quiet)
  next
    case ident: True
    obtain fl w2 where f: "h_FcntlGetfl h fd w1 = (fl, w2)" by (cases "h_FcntlGetfl h fd w1")
    show ?thesis
    proof (cases "\<exists>flags. fl = Inr flags \<and> flags AND O_NONBLOCK \<noteq> 0")
      case False
      then show ?thesis using f ident
        by (auto simp: e1 ensures_at_rules ensures_at_calls kick_outcome_quiet split: sum.split)
    next
      case True
      then obtain flags where flags: "fl = Inr flags" "flags AND O_NONBLOCK \<noteq> 0" by blast
      have "ensures_at (bindE (BPF_Snapshot h vhostFD) (\<lambda>current.
         bindE (checkE (Validate current)) (\<lambda>_.
         bindE (if Identity current \<noteq> Identity s then retE True
              else bindE (Alive h t) (\<lambda>alive. retE (\<not> alive))) (\<lambda>changed.
         if changed then failE (ErrorString ''queue identity changed before recovery'')
         else bindE (Write h fd (put_u64 1)) (\<lambda>n.
         if n \<noteq> 8 then failE (ErrorString ''short eventfd write'') else retE ()))))) w2
         (\<lambda>r es w'. kick_outcome (kick_body_calls (t_pidfd t) fd vhostFD s) r (es1 @ EFcntlGetfl fd (Inr flags) # es))"
      proof (rule ensures_at_bindI [OF Snapshot_spec], goal_cases)
        case (1 current es2 w3)
        then have e2: "es2 = snapshot_events vhostFD current" "Validate current = None" by auto
        show ?case
        proof (cases "Identity current = Identity s")
          case False
          then show ?thesis by (simp add: e1 e2 ensures_at_rules kick_outcome_quiet snapshot_events_def)
        next
          case same: True
          obtain al es3 w4 where a: "Alive h t w3 = (al, es3, w4)" by (cases "Alive h t w3")
          have A: "list_all quiet es3" "al = Ok True \<longrightarrow> polled_alive (t_pidfd t) es3"
            "al = Running \<or> al = Ok True \<or> al = Ok False"
            using Alive_spec [of h t w3] a by (auto simp: ensures_at_def quiet_polls)
          show ?thesis
          proof (cases "al = Ok True")
            case False
            then show ?thesis using A a same
              by (auto simp: e1 e2 ensures_at_rules ensures_at_def [of "Alive h t"] kick_outcome_quiet snapshot_events_def)
          next
            case True
            obtain res w5 where wr: "h_Write h fd (put_u64 1) w4 = (res, w5)" by (cases "h_Write h fd (put_u64 1) w4")
            have K: "kick_body_calls (t_pidfd t) fd vhostFD s res
                (es1 @ EFcntlGetfl fd (Inr flags) # es2 @ es3 @ [EWrite fd (put_u64 1) res])"
              unfolding kick_body_calls_def using d ident flags same A(2) True e2 by (auto simp: e1)
            show ?thesis using A a same True wr K
              by (auto simp: e2 ensures_at_rules ensures_at_calls ensures_at_def [of "Alive h t"] kick_outcome_def
                split: sum.split)
          qed
        qed
      qed (auto simp: e1 kick_outcome_quiet quiet_reads)
      then show ?thesis using f ident flags by (simp add: ensures_at_bind [of "FcntlGetfl h fd"] ensures_at_calls)
    qed
  qed
qed (auto simp: kick_outcome_quiet)

lemma Rekick_spec:
  "ensures_at (Rekick h (recovery_of h t) (BPF_Snapshot h) vhostFD s events) w (\<lambda>r es w'.
     kick_outcome (\<lambda>res es. Validate s = None \<and> events (sn_EventID s) \<noteq> [] \<and>
       verified_kick (t_pidfd t) vhostFD s (Min (set (events (sn_EventID s)))) res es) r es)"
proof (cases "Validate s = None \<and> events (sn_EventID s) \<noteq> []")
  case False
  then show ?thesis by (auto simp: Rekick_def ensures_at_rules kick_outcome_quiet Let_def split: option.split)
next
  case True
  let ?m = "Min (set (events (sn_EventID s)))"
  obtain a w1 where g: "h_PidfdGetfd h (t_pidfd t) ?m w = (a, w1)" by (cases "h_PidfdGetfd h (t_pidfd t) ?m w")
  show ?thesis
  proof (cases a)
    case (Inl e)
    then show ?thesis using True g
      by (auto simp: Rekick_def recovery_of_def Duplicate_def ensures_at_rules ensures_at_calls kick_outcome_quiet Let_def)
  next
    case (Inr fd)
    show ?thesis using True g Inr
      unfolding Rekick_def recovery_of_def recoveryTarget.simps Duplicate_def Let_def
      by (simp add: ensures_at_check ensures_at_bind [of "checkE _"] ensures_at_bind [of "PidfdGetfd _ _ _"]
          ensures_at_calls, intro ensures_at_deferI [OF Rekick_body])
        (auto simp: kick_outcome_def verified_kick_def ensures_at_callU split: if_splits)
  qed
qed
lemma quiet_kick_body:
  "kick_body_calls pidfd fd vhostFD s res es \<Longrightarrow> filter (\<lambda>e. \<not> quiet e) es = [EWrite fd (put_u64 1) res]"
proof -
  have "filter (\<lambda>e. \<not> quiet e) polls = []" if "polled_alive pidfd polls" for polls
    using that by (fastforce simp: polled_alive_def list_all_iff interrupted_poll_def filter_empty_conv)
  then show "kick_body_calls pidfd fd vhostFD s res es \<Longrightarrow> ?thesis"
    by (auto simp: kick_body_calls_def snapshot_events_def)
qed

lemma verified_kick_writes:
  "verified_kick pidfd vhostFD s m res es \<Longrightarrow> \<exists>fd. filter (\<lambda>e. \<not> quiet e) es = [EWrite fd (put_u64 1) res]"
  by (auto simp: verified_kick_def quiet_kick_body)

lemma put_u64_one: "put_u64 1 = [1, 0, 0, 0, 0, 0, 0, 0]"
  by (simp add: put_u64_def upt_rec)

text \<open>
  C31. Whatever the kernel and QEMU do, \<^verbatim>\<open>Rekick\<close> writes at most once, writes nothing but the
  native-endian number one, and does so only after it validated the snapshot, pinned the lowest
  descriptor of the queue's kick eventfd, read back from the pinned duplicate the eventfd identity of the
  snapshot and the non-blocking flag, took a fresh valid snapshot with the same identity and saw the process
  alive.  It reports success exactly when all eight bytes were written.
\<close>

theorem Rekick_writes_only_verified_kicks:
  assumes "Rekick h (recovery_of h t) (BPF_Snapshot h) vhostFD s events w = (r, es, w')"
  shows "(\<forall>fd d res. EWrite fd d res \<in> set es \<longrightarrow>
      d = [1, 0, 0, 0, 0, 0, 0, 0] \<and> Validate s = None \<and> events (sn_EventID s) \<noteq> [] \<and>
      verified_kick (t_pidfd t) vhostFD s (Min (set (events (sn_EventID s)))) res es \<and>
      filter (\<lambda>e. \<not> quiet e) es = [EWrite fd d res]) \<and>
    (r = Ok () \<longleftrightarrow> (\<exists>fd d. EWrite fd d (Inr 8) \<in> set es))"
proof -
  let ?K = "\<lambda>res es. Validate s = None \<and> events (sn_EventID s) \<noteq> [] \<and>
       verified_kick (t_pidfd t) vhostFD s (Min (set (events (sn_EventID s)))) res es"
  have k: "kick_outcome ?K r es" using Rekick_spec [of h t vhostFD s events w] assms by (simp add: ensures_at_def)
  have in_filter: "EWrite fd d res \<in> set es \<longleftrightarrow> EWrite fd d res \<in> set (filter (\<lambda>e. \<not> quiet e) es)" for fd d res
    by simp
  show ?thesis
  proof (cases "list_all quiet es")
    case True
    then have n: "EWrite fd d res \<notin> set es" for fd d res by (auto simp: list_all_iff)
    have "filter (\<lambda>e. \<not> quiet e) es = []" using True by (simp add: filter_empty_conv list_all_iff)
    then have "\<not> verified_kick p v s m res es" for p v m res using verified_kick_writes by fastforce
    then have "r \<noteq> Ok ()" using k by (auto simp: kick_outcome_def)
    with n show ?thesis by simp
  next
    case False
    then obtain res where K: "?K res es" "r = Ok () \<longleftrightarrow> res = Inr 8"
      using k by (auto simp: kick_outcome_def split: if_splits)
    then obtain fd where f: "filter (\<lambda>e. \<not> quiet e) es = [EWrite fd (put_u64 1) res]"
      using verified_kick_writes by blast
    then show ?thesis using K in_filter by (auto simp: put_u64_one)
  qed
qed

section \<open>Whole runs\<close>

text \<open>A call list in which every write belongs to a kick that was verified as above.\<close>

inductive only_verified_kicks :: "event list \<Rightarrow> bool" where
  none: "only_verified_kicks []"
| other: "quiet e \<Longrightarrow> only_verified_kicks es \<Longrightarrow> only_verified_kicks (e # es)"
| kick: "verified_kick pidfd vhostFD s m res es \<Longrightarrow> only_verified_kicks es' \<Longrightarrow> only_verified_kicks (es @ es')"

lemma only_verified_append: "only_verified_kicks es \<Longrightarrow> only_verified_kicks es' \<Longrightarrow> only_verified_kicks (es @ es')"
  by (induction rule: only_verified_kicks.induct) (auto intro: only_verified_kicks.intros)

interpretation verified: trace_property only_verified_kicks
  by unfold_locales (auto intro: only_verified_kicks.intros only_verified_append)

lemma verified_quiet: "list_all quiet es \<Longrightarrow> only_verified_kicks es"
  by (induction es) (auto intro: only_verified_kicks.intros)

lemma Rekick_verified: "traces only_verified_kicks (Rekick h (recovery_of h t) (BPF_Snapshot h) vhostFD s events)"
proof -
  have "only_verified_kicks es" if "kick_outcome (\<lambda>res es. A \<and> B \<and> verified_kick p v s m res es) r es"
    for r es A B p v m
    using that only_verified_kicks.kick [of p v s m _ es "[]"] verified_quiet [of es]
    by (auto simp: kick_outcome_def intro: only_verified_kicks.none split: if_splits)
  then show ?thesis unfolding traces_if_def
    by (auto intro!: ensures_at_mono [OF Rekick_spec])
qed

lemma Rekick_no_panic: "no_panic (Rekick h (recovery_of h t) (BPF_Snapshot h) vhostFD s events)"
  unfolding no_panic_def by (auto intro!: ensures_at_mono [OF Rekick_spec] simp: kick_outcome_def)

section \<open>Descriptors\<close>

lemma keeps_reads: "list_all reads_only es \<Longrightarrow> list_all keeps_fds es"
  by (induction es) (auto elim!: reads_only.elims)

lemma keeps_polls: "list_all is_poll es \<Longrightarrow> list_all keeps_fds es"
  by (induction es) (auto elim!: is_poll.elims)

lemma Snapshot_neutral: "traces_if d neutral (BPF_Snapshot h fd)"
  by (rule completes_keeps) (rule traces_imp [OF Snapshot_reads_only keeps_reads])

lemma Counters_neutral: "traces_if d neutral (BPF_Counters h ts vq)"
  by (rule completes_keeps) (rule traces_imp [OF Counters_reads_only keeps_reads])

lemma Forget_neutral: "traces_if d neutral (BPF_Forget h s)"
  by (rule completes_keeps) (rule traces_imp [OF Forget_reads_only keeps_reads])

lemma Alive_neutral: "traces_if d neutral (Alive h t)"
  by (rule completes_keeps) (rule traces_imp [OF Alive_polls keeps_polls])

lemma CheckAlive_neutral: "traces_if d neutral (CheckAlive h t)"
  by (rule completes_keeps) (rule traces_imp [OF CheckAlive_polls keeps_polls])

lemma eventID_keeps: "traces (list_all keeps_fds) (eventID h pid fd)"
  unfolding eventID_def by (intro every_call.intros traces_calls) auto

lemma eventID_neutral: "traces_if d neutral (eventID h pid fd)"
  by (rule completes_keeps) (rule eventID_keeps)

lemma Inventory_keeps: "traces (list_all keeps_fds) (Inventory h t)"
  unfolding Inventory_def inventory_entry_def by (intro every_call.intros traces_calls eventID_keeps) auto

lemma Inventory_neutral: "traces_if d neutral (Inventory h t)"
  by (rule completes_keeps) (rule Inventory_keeps)

lemma Ring_keeps: "traces (list_all keeps_fds) (Ring h t s)"
  unfolding Ring_def by (intro every_call.intros traces_calls) auto

lemma Ring_neutral: "traces_if d neutral (Ring h t s)"
  by (rule completes_keeps) (rule Ring_keeps)

lemma Read_neutral: "traces_if d neutral (RingBatch_Read h b)"
  unfolding RingBatch_Read_def by (intro neutral.intros traces_calls) (auto simp: neutral_def)

lemma Duplicate_acquires: "acquires (Duplicate h t fd) (\<lambda>fd. fd)"
  unfolding Duplicate_def by (rule acquires_call) simp

lemma Rekick_neutral: "completes neutral (Rekick h (recovery_of h t) (BPF_Snapshot h) vhostFD s events)"
  unfolding Rekick_def recovery_of_def recoveryTarget.simps Let_def
  by (intro neutral.intros completes_scoped Duplicate_acquires Snapshot_neutral Alive_neutral eventID_neutral
      traces_calls) (auto simp: neutral_def)

lemma OpenTarget_acquires: "acquires (OpenTarget h pid) t_pidfd"
  unfolding acquires_def
proof
  fix w
  let ?Q = "\<lambda>(r :: Target outcome) es w'. case r of Ok t \<Rightarrow> \<forall>M. fds es M = Some (add_mset (t_pidfd t) M)
     | Running \<Rightarrow> True | _ \<Rightarrow> neutral es"
  obtain a w1 where o: "h_PidfdOpen h pid w = (a, w1)" by (cases "h_PidfdOpen h pid w")
  show "ensures_at (OpenTarget h pid) w ?Q"
  proof (cases a)
    case (Inl e)
    then show ?thesis using o by (simp add: OpenTarget_def ensures_at_rules ensures_at_calls neutral_def)
  next
    case (Inr fd)
    obtain c w2 where r: "h_ReadFile h (''/proc/'' @ Itoa pid @ ''/comm'') w1 = (c, w2)"
      by (cases "h_ReadFile h (''/proc/'' @ Itoa pid @ ''/comm'') w1")
    let ?t = "\<lparr>t_PID = pid, t_pidfd = fd\<rparr>"
    obtain al es w3 where A: "Alive h ?t w2 = (al, es, w3)" by (cases "Alive h ?t w2")
    have al: "al = Running \<or> al = Ok True \<or> al = Ok False" and n: "\<And>M. fds es M = Some M"
      using Alive_spec [of h ?t w2] traces_ifD [OF Alive_neutral A, of False] A
      by (auto simp: ensures_at_def neutral_def)
    show ?thesis using o Inr r al n
      by (auto simp: OpenTarget_def Target_Close_def Let_def ensures_at_rules ensures_at_calls
          ensures_at_def [of "Alive h ?t"] A neutral_def fds_append split: sum.split)
  qed
qed

section \<open>The inventory\<close>

definition inventory_inv :: "Target \<Rightarrow> int list \<times> eventmap \<Rightarrow> event list \<Rightarrow> bool" where
  "inventory_inv t acc es \<longleftrightarrow>
    (\<forall>fd. fd \<in> set (fst acc) \<longleftrightarrow> (\<exists>name. Atoi name = Inr fd \<and>
       EReadlink (''/proc/'' @ Itoa (t_PID t) @ ''/fd/'' @ name) (Inr ''/dev/vhost-net'') \<in> set es)) \<and>
    (\<forall>ident fd. fd \<in> set (snd acc ident) \<longleftrightarrow> (\<exists>data.
       EReadFile (''/proc/'' @ Itoa (t_PID t) @ ''/fdinfo/'' @ Itoa fd) (Inr data) \<in> set es \<and>
       find_eventfd_id (Split data newline) = Inr ident))"

text \<open>The vhost descriptors and the eventfds of an identity that the calls show.\<close>

definition linked :: "Target \<Rightarrow> event list \<Rightarrow> int set" where
  "linked t es = {fd. \<exists>name. Atoi name = Inr fd \<and>
     EReadlink (''/proc/'' @ Itoa (t_PID t) @ ''/fd/'' @ name) (Inr ''/dev/vhost-net'') \<in> set es}"

definition listed :: "Target \<Rightarrow> event list \<Rightarrow> u32 \<Rightarrow> int set" where
  "listed t es ident = {fd. \<exists>data. EReadFile (''/proc/'' @ Itoa (t_PID t) @ ''/fdinfo/'' @ Itoa fd) (Inr data) \<in> set es \<and>
     find_eventfd_id (Split data newline) = Inr ident}"

lemma inventory_inv_sets: "inventory_inv t acc es \<longleftrightarrow> set (fst acc) = linked t es \<and> (\<forall>ident. set (snd acc ident) = listed t es ident)"
  by (auto simp: inventory_inv_def linked_def listed_def)

lemma linked_append: "linked t (es @ es') = linked t es \<union> linked t es'"
  by (auto simp: linked_def)

lemma listed_append: "listed t (es @ es') ident = listed t es ident \<union> listed t es' ident"
  by (auto simp: listed_def)

lemma linked_Readlink: "linked t [EReadlink (''/proc/'' @ Itoa (t_PID t) @ ''/fd/'' @ name) a] =
    (if a = Inr ''/dev/vhost-net'' then {fd. Atoi name = Inr fd} else {})"
  by (auto simp: linked_def)

lemma linked_none: "linked t [EReadFile p a] = {}" "linked t [] = {}" "linked t [EReadDir p b] = {}"
  by (simp_all add: linked_def)

lemma listed_ReadFile: "listed t [EReadFile (''/proc/'' @ Itoa (t_PID t) @ ''/fdinfo/'' @ Itoa fd) a] ident =
    (if \<exists>data. a = Inr data \<and> find_eventfd_id (Split data newline) = Inr ident then {fd} else {})"
  by (auto simp: listed_def)

lemma listed_none: "listed t [EReadlink p a] ident = {}" "listed t [] ident = {}" "listed t [EReadDir p b] ident = {}"
  by (simp_all add: listed_def)

lemmas inventory_sets = inventory_inv_sets linked_append listed_append linked_Readlink [simplified]
  linked_none listed_ReadFile [simplified] listed_none

lemma eventID_listed:
  "ensures_at (eventID h (Itoa (t_PID t)) fd) w (\<lambda>r es w'. linked t es = {} \<and> (\<forall>e. r \<noteq> Panic e) \<and> r \<noteq> Running \<and>
     (\<forall>i. listed t es i = (if r = Ok i then {fd} else {})))"
proof -
  obtain a w1 where "h_ReadFile h (''/proc/'' @ Itoa (t_PID t) @ ''/fdinfo/'' @ Itoa fd) w = (a, w1)" by fastforce
  then show ?thesis unfolding eventID_def ensures_at_bind ensures_at_callE
    by (auto simp: inventory_sets split: sum.split)
qed

lemma eventfd_entry_inv:
  assumes "inventory_inv t (vs, evs) es"
  shows "ensures_at (bindE (attempt (eventID h (Itoa (t_PID t)) fd)) (\<lambda>r.
       case r of Inl e \<Rightarrow> if errors_Is e ENOENT then retE (vs, evs) else failE e
               | Inr ident \<Rightarrow> retE (vs, evs(ident := evs ident @ [fd])))) w
     (\<lambda>r es2 w'. \<forall>acc'. r = Ok acc' \<longrightarrow> inventory_inv t acc' (es @ es2))"
  using assms unfolding ensures_at_bind ensures_at_attempt inventory_inv_sets
  by (intro ensures_at_mono [OF eventID_listed]) (auto simp: linked_append listed_append linked_none listed_none split: outcome.split)

lemma inventory_entry_inv:
  assumes "inventory_inv t acc es"
  shows "ensures_at (inventory_entry h t entry acc) w
    (\<lambda>r es2 w'. \<forall>acc'. r = Ok acc' \<longrightarrow> inventory_inv t acc' (es @ es2))"
proof (cases "Atoi (fst entry)")
  case (Inl e)
  then show ?thesis using assms by (cases acc) (simp add: inventory_entry_def)
next
  case (Inr fd)
  obtain vs evs where acc: "acc = (vs, evs)" by fastforce
  define link where "link = EReadlink (''/proc/'' @ Itoa (t_PID t) @ ''/fd/'' @ fst entry)"
  have v: "inventory_inv t (vs @ [fd], evs) (es @ [link (Inr ''/dev/vhost-net'')])"
    using assms Inr by (auto simp: inventory_sets acc link_def)
  have i: "inventory_inv t (vs, evs) (es @ [link a])" if "a \<noteq> Inr ''/dev/vhost-net''" for a
    using assms that by (simp add: inventory_sets acc link_def)
  show ?thesis unfolding inventory_entry_def acc prod.case Inr sum.case link_def [symmetric]
  proof (rule ensures_at_bindI [where R = "\<lambda>r es2 w'. \<exists>a. r = Ok a \<and> es2 = [link a]"], goal_cases)
    case 1
    show ?case by (auto simp: ensures_at_attempt ensures_at_callE split: prod.split sum.split)
  next
    case (2 a es2 w2)
    then have "es2 = [link a]" by simp
    then show ?case using v i [of a] eventfd_entry_inv [OF i, of a h fd w2]
      by (auto simp only: append_assoc ensures_at_ret ensures_at_fail append_Nil2 split: sum.split if_split)
  qed auto
qed

lemma Inventory_spec:
  "ensures_at (Inventory h t) w (\<lambda>r es w'. \<forall>vs evs. r = Ok (vs, evs) \<longrightarrow> sorted vs \<and> inventory_inv t (vs, evs) es)"
proof -
  have f: "ensures_at (foldE (inventory_entry h t) entries ([], \<lambda>_. [])) w1
      (\<lambda>r es2 w'. \<forall>acc'. r = Ok acc' \<longrightarrow> inventory_inv t acc' ([EReadDir p a] @ es2))" for entries w1 p a
    by (rule foldE_invariant [OF inventory_entry_inv]) (auto simp: inventory_inv_def)
  show ?thesis unfolding Inventory_def
    by (auto simp: ensures_at_rules ensures_at_calls inventory_inv_def intro!: ensures_at_mono [OF f]
        split: prod.split sum.split outcome.split)
qed

text \<open>
  The calls that examine one entry of the listing: none for a name that is not a number; otherwise its link is read,
  and, when it leads to an eventfd, its \<^verbatim>\<open>fdinfo\<close>.  A descriptor that is gone by then is passed over; any other
  failure ends the inventory.
\<close>

definition entry_seen :: "Target \<Rightarrow> string \<times> bool \<Rightarrow> event list \<Rightarrow> bool" where
  "entry_seen t entry seg \<longleftrightarrow> (case Atoi (fst entry) of
     Inl e \<Rightarrow> seg = []
   | Inr fd \<Rightarrow> (\<exists>answer rest. seg = EReadlink (''/proc/'' @ Itoa (t_PID t) @ ''/fd/'' @ fst entry) answer # rest \<and>
       (case answer of
          Inl e \<Rightarrow> errors_Is e ENOENT \<and> rest = []
        | Inr path \<Rightarrow> if path = ''anon_inode:[eventfd]''
            then (\<exists>info. rest = [EReadFile (''/proc/'' @ Itoa (t_PID t) @ ''/fdinfo/'' @ Itoa fd) info] \<and>
              (case info of Inl e \<Rightarrow> errors_Is e ENOENT
               | Inr data \<Rightarrow> \<exists>ident. find_eventfd_id (Split data newline) = Inr ident))
            else rest = [])))"

definition vhost_seen :: "event list \<Rightarrow> bool" where
  "vhost_seen seg \<longleftrightarrow> (\<exists>p. seg = [EReadlink p (Inr ''/dev/vhost-net'')])"

lemma find_eventfd_id_error: "find_eventfd_id ls = Inl e \<Longrightarrow> \<not> errors_Is e n"
  by (induction ls rule: find_eventfd_id.induct) (auto simp: ParseUint_def split: prod.splits if_splits sum.splits)

lemma entry_seen_number:
  assumes "Atoi (fst entry) = Inr fd"
  shows "entry_seen t entry (EReadlink (''/proc/'' @ Itoa (t_PID t) @ ''/fd/'' @ fst entry) answer # rest) \<longleftrightarrow>
    (case answer of Inl e \<Rightarrow> errors_Is e ENOENT \<and> rest = []
     | Inr path \<Rightarrow> if path = ''anon_inode:[eventfd]''
         then (\<exists>info. rest = [EReadFile (''/proc/'' @ Itoa (t_PID t) @ ''/fdinfo/'' @ Itoa fd) info] \<and>
           (case info of Inl e \<Rightarrow> errors_Is e ENOENT
            | Inr data \<Rightarrow> \<exists>ident. find_eventfd_id (Split data newline) = Inr ident))
         else rest = [])"
  unfolding entry_seen_def assms sum.case list.inject event.inject by blast

lemma vhost_seen_Readlink: "vhost_seen (EReadlink p a # rest) \<longleftrightarrow> a = Inr ''/dev/vhost-net'' \<and> rest = []"
  by (auto simp: vhost_seen_def)

lemma eventID_seen:
  assumes "attempt (eventID h p fd) w = (Ok r, es, w')"
  shows "\<exists>info. es = [EReadFile (''/proc/'' @ p @ ''/fdinfo/'' @ Itoa fd) info] \<and>
     (case info of Inl e \<Rightarrow> r = Inl e | Inr data \<Rightarrow> r = find_eventfd_id (Split data newline))"
proof -
  obtain a w1 where "h_ReadFile h (''/proc/'' @ p @ ''/fdinfo/'' @ Itoa fd) w = (a, w1)" by fastforce
  then show ?thesis using assms unfolding eventID_def
    by (intro exI [of _ a]) (auto simp: bindE_def attempt_def callE_def retE_def failE_def split: sum.splits)
qed

lemma inventory_entry_seen:
  assumes "inventory_entry h t entry acc w = (Ok acc', es, w')"
  shows "entry_seen t entry es \<and> length (fst acc') = length (fst acc) + (if vhost_seen es then 1 else 0)"
proof (cases "Atoi (fst entry)")
  case (Inl e)
  then show ?thesis using assms by (cases acc) (auto simp: inventory_entry_def entry_seen_def vhost_seen_def retE_def)
next
  case (Inr fd)
  obtain vs evs where acc: "acc = (vs, evs)" by fastforce
  define link where "link = EReadlink (''/proc/'' @ Itoa (t_PID t) @ ''/fd/'' @ fst entry)"
  have gen: "attempt (Readlink h (''/proc/'' @ Itoa (t_PID t) @ ''/fd/'' @ fst entry)) w = (Ok a, es1, w1) \<Longrightarrow> es1 = [link a]"
    for a es1 w1 by (auto simp: link_def attempt_def callE_def split: sum.splits prod.splits)
  note seen = entry_seen_number [OF Inr, where t = t, folded link_def] vhost_seen_Readlink [of "''/proc/'' @ Itoa (t_PID t) @ ''/fd/'' @ fst entry", folded link_def]
  obtain a w1 es1 es2 where at: "attempt (Readlink h (''/proc/'' @ Itoa (t_PID t) @ ''/fd/'' @ fst entry)) w = (Ok a, es1, w1)"
    and r: "(case a of Inl e \<Rightarrow> if errors_Is e ENOENT then retE acc else failE e
         | Inr path \<Rightarrow> if path = ''/dev/vhost-net'' then retE (vs @ [fd], evs)
             else if path = ''anon_inode:[eventfd]'' then
               bindE (attempt (eventID h (Itoa (t_PID t)) fd)) (\<lambda>r.
               case r of Inl e \<Rightarrow> if errors_Is e ENOENT then retE acc else failE e
               | Inr ident \<Rightarrow> retE (vs, evs(ident := evs ident @ [fd])))
             else retE acc) w1 = (Ok acc', es2, w')" and es: "es = es1 @ es2"
    using assms unfolding inventory_entry_def acc prod.case Inr sum.case by (rule bindE_OkE)
  then have es: "es = link a # es2" using gen by simp
  show ?thesis
  proof (cases "a = Inr ''anon_inode:[eventfd]''")
    case True
    then obtain x es3 w3 where ev: "attempt (eventID h (Itoa (t_PID t)) fd) w1 = (Ok x, es3, w3)"
      and x: "es2 = es3" "length (fst acc') = length (fst acc)" "\<forall>e. x = Inl e \<longrightarrow> errors_Is e ENOENT"
      using r acc by (auto elim!: bindE_OkE simp: retE_def failE_def split: sum.splits if_splits)
    obtain info where "es2 = [EReadFile (''/proc/'' @ Itoa (t_PID t) @ ''/fdinfo/'' @ Itoa fd) info]"
      "case info of Inl e \<Rightarrow> x = Inl e | Inr data \<Rightarrow> x = find_eventfd_id (Split data newline)"
      using eventID_seen [OF ev] x(1) by blast
    moreover have "\<exists>ident. find_eventfd_id ls = Inr ident" if "x = find_eventfd_id ls" for ls
      using x(3) find_eventfd_id_error [of ls] that by (cases "find_eventfd_id ls") auto
    ultimately show ?thesis using x(2,3) True unfolding es seen by (cases info) auto
  next
    case False
    then have "es2 = []" "\<forall>e. a = Inl e \<longrightarrow> errors_Is e ENOENT"
      "length (fst acc') = length vs + (if a = Inr ''/dev/vhost-net'' then 1 else 0)"
      using r acc by (auto simp: retE_def failE_def split: sum.splits if_splits)
    then show ?thesis using False unfolding es seen acc by (cases a) auto
  qed
qed

lemma inventory_entries_seen:
  "foldE (inventory_entry h t) entries acc w = (Ok acc', es, w') \<Longrightarrow>
   \<exists>segs. es = concat segs \<and> list_all2 (entry_seen t) entries segs \<and>
     length (fst acc') = length (fst acc) + length (filter vhost_seen segs)"
proof (induction entries arbitrary: acc w es)
  case Nil
  then show ?case by (simp add: retE_def)
next
  case (Cons entry entries)
  then obtain acc1 es1 w1 es2 where 1: "inventory_entry h t entry acc w = (Ok acc1, es1, w1)"
    and 2: "foldE (inventory_entry h t) entries acc1 w1 = (Ok acc', es2, w')" and es: "es = es1 @ es2"
    by (auto elim: bindE_OkE)
  from Cons.IH [OF 2] obtain segs where "es2 = concat segs" "list_all2 (entry_seen t) entries segs"
    "length (fst acc') = length (fst acc1) + length (filter vhost_seen segs)" by blast
  with inventory_entry_seen [OF 1] es show ?case by (intro exI [of _ "es1 # segs"]) auto
qed

text \<open>
  C32. The inventory is complete and reports what was there: the directory of the process's descriptors is listed once
  and every entry of that listing with a numeric name is examined, in order, its link read and an eventfd's
  \<^verbatim>\<open>fdinfo\<close> with it (only a descriptor that has gone meanwhile is passed over).  The vhost descriptors, in ascending
  order and one per such link, are exactly those whose link was read as \<^verbatim>\<open>/dev/vhost-net\<close>, and an eventfd is listed
  under an identity exactly when its \<^verbatim>\<open>fdinfo\<close> was read and shows that identity.
\<close>

theorem Inventory_reports_observed:
  assumes "Inventory h t w = (Ok (vhosts, events), es, w')"
  shows "(\<exists>entries segs. es = EReadDir (''/proc/'' @ Itoa (t_PID t) @ ''/fd'') (Inr entries) # concat segs \<and>
       list_all2 (entry_seen t) entries segs \<and> length vhosts = length (filter vhost_seen segs)) \<and>
    sorted vhosts \<and>
    (\<forall>fd. fd \<in> set vhosts \<longleftrightarrow> (\<exists>name. Atoi name = Inr fd \<and>
       EReadlink (''/proc/'' @ Itoa (t_PID t) @ ''/fd/'' @ name) (Inr ''/dev/vhost-net'') \<in> set es)) \<and>
    (\<forall>ident fd. fd \<in> set (events ident) \<longleftrightarrow> (\<exists>data.
       EReadFile (''/proc/'' @ Itoa (t_PID t) @ ''/fdinfo/'' @ Itoa fd) (Inr data) \<in> set es \<and>
       find_eventfd_id (Split data newline) = Inr ident))" (is "?listing \<and> ?rest")
proof
  from assms obtain entries es1 w1 es2 acc where 1: "ReadDir h (''/proc/'' @ Itoa (t_PID t) @ ''/fd'') w = (Ok entries, es1, w1)"
    and 2: "foldE (inventory_entry h t) entries ([], \<lambda>_. []) w1 = (Ok acc, es2, w')" and es: "es = es1 @ es2"
    and v: "vhosts = sort (fst acc)"
    unfolding Inventory_def by (auto elim!: bindE_OkE simp: retE_def split: prod.splits)
  have "es1 = [EReadDir (''/proc/'' @ Itoa (t_PID t) @ ''/fd'') (Inr entries)]"
    using 1 by (auto simp: callE_def split: prod.splits sum.splits)
  with inventory_entries_seen [OF 2] es v show ?listing by auto
  show ?rest using Inventory_spec [of h t w] assms by (auto simp: ensures_at_def inventory_inv_def)
qed

section \<open>Batched and single reads\<close>

text \<open>A process whose memory holds \<open>mem\<close>: a read fills the local buffers from the remote ranges, in order.\<close>

definition read_mem :: "(u64 \<Rightarrow> u8) \<Rightarrow> (u64 \<times> nat) list \<Rightarrow> u8 list" where
  "read_mem mem remote = concat (map (\<lambda>(a, n). map (\<lambda>i. mem (a + of_nat i)) [0..<n]) remote)"

definition reads_memory :: "'w host \<Rightarrow> (u64 \<Rightarrow> u8) \<Rightarrow> bool" where
  "reads_memory h mem \<longleftrightarrow> (\<forall>pid cap remote w. cap = sum_list (map snd remote) \<longrightarrow>
     h_ProcessVMReadv h pid cap remote w = (Inr (read_mem mem remote), w))"

lemma batch_iovecs_ok: "batch_iovecs ss acc = Inr r \<Longrightarrow> r = acc @ concat (map ring_iovecs ss)"
proof (induction ss arbitrary: acc)
  case (Cons s ss)
  then show ?case using Cons.IH [of "acc @ ring_iovecs s"] by (simp split: option.splits)
qed simp

lemma ring_iovecs_size: "sum_list (map snd (concat (map ring_iovecs ss))) = 4 * length ss"
  by (induction ss) (auto simp: ring_iovecs_def)

lemma read_mem_batch: "read_mem mem (concat (map ring_iovecs ss)) = concat (map (\<lambda>s. read_mem mem (ring_iovecs s)) ss)"
  by (induction ss) (auto simp: read_mem_def)

lemma read_mem_ring_length [simp]: "length (read_mem mem (ring_iovecs s)) = 4"
  by (simp add: read_mem_def ring_iovecs_def upt_rec)

lemma chunk_of_concat:
  "i < length xs \<Longrightarrow> (\<And>x. x \<in> set xs \<Longrightarrow> length x = k) \<Longrightarrow> take k (drop (i * k) (concat xs)) = xs ! i"
proof (induction xs arbitrary: i)
  case (Cons x xs)
  then show ?case by (cases i) (auto simp: add.commute)
qed simp

lemma length_concat_chunks: "(\<And>x. x \<in> set xs \<Longrightarrow> length x = k) \<Longrightarrow> length (concat xs) = length xs * k"
  by (induction xs) auto

text \<open>
  C33. One batched read of the ring indices of up to 512 queues returns, for every queue, exactly what reading that
  queue alone returns: the scattered two-byte ranges and the four-byte slices of the one local buffer
  correspond.
\<close>

theorem batch_reads_like_single_reads:
  assumes "NewRingBatch t ss = Ok b" and "reads_memory h mem" and "i < length ss"
  shows "\<exists>b' es x es2. RingBatch_Read h b w = (Ok (None, b'), es, w) \<and> RingBatch_Indices b' i = Some x \<and>
    Ring h t (ss ! i) w = (Ok x, es2, w)"
proof -
  let ?data = "concat (map (\<lambda>s. read_mem mem (ring_iovecs s)) ss)"
  have b: "b = \<lparr>rb_target = t, rb_data = replicate (4 * length ss) 0, rb_remote = concat (map ring_iovecs ss)\<rparr>"
    using assms(1) batch_iovecs_ok by (auto simp: NewRingBatch_def Let_def split: if_splits sum.splits)
  have len: "length ?data = 4 * length ss" 
    by (subst length_concat_chunks [where k = 4]) auto
  have rd: "h_ProcessVMReadv h (t_PID t) (4 * length ss) (concat (map ring_iovecs ss)) w = (Inr ?data, w)"
    using assms(2) ring_iovecs_size [of ss] unfolding reads_memory_def by (metis read_mem_batch)
  have R: "RingBatch_Read h b w = (Ok (None, b\<lparr>rb_data := ?data\<rparr>),
      [EProcessVMReadv (t_PID t) (concat (map ring_iovecs ss)) (Inr ?data)], w)"
    using rd len by (simp add: RingBatch_Read_def b bindE_def attempt_def callE_def retE_def Let_def)
  have chunk: "take 4 (drop (i * 4) ?data) = read_mem mem (ring_iovecs (ss ! i))"
    using assms(3) by (subst chunk_of_concat) auto
  let ?d = "read_mem mem (ring_iovecs (ss ! i))"
  have I: "RingBatch_Indices (b\<lparr>rb_data := ?data\<rparr>) i = Some (le16 (?d ! 0) (?d ! 1), le16 (?d ! 2) (?d ! 3))"
    using assms(3) len by (simp add: RingBatch_Indices_def Let_def chunk)
  have one: "h_ProcessVMReadv h (t_PID t) 4 (ring_iovecs (ss ! i)) w = (Inr ?d, w)"
    by (rule assms(2) [unfolded reads_memory_def, rule_format]) (simp add: ring_iovecs_def)
  have S: "Ring h t (ss ! i) w = (Ok (le16 (?d ! 0) (?d ! 1), le16 (?d ! 2) (?d ! 3)),
      [EProcessVMReadv (t_PID t) (ring_iovecs (ss ! i)) (Inr ?d)], w)"
    using one by (simp add: Ring_def bindE_def callE_def retE_def)
  show ?thesis using R I S by blast
qed

section \<open>A host to run on\<close>

text \<open>
  A small host on which the theorems with hypotheses are applied: every call succeeds and
  nothing ever changes.
\<close>

definition demo_snapshot :: Snapshot where
  "demo_snapshot = stuck_snapshot\<lparr>sn_TimestampNS := 1\<rparr>"

definition demo_host :: "unit host" where
  "demo_host = idle_host
    \<lparr>h_ReadFile := (\<lambda>p w. (Inr ''eventfd-id: 0'', w)), h_ReadDir := (\<lambda>p w. (Inr [(''42'', False)], w)),
     h_Readlink := (\<lambda>p w. (Inr ''/dev/vhost-net'', w)), h_PidfdOpen := (\<lambda>p w. (Inr 5, w)),
     h_PidfdGetfd := (\<lambda>p fd w. (Inr 9, w)), h_Poll := (\<lambda>fd w. (Inr (0, 0), w)),
     h_ProcessVMReadv := (\<lambda>pid cap remote w. (Inr (read_mem (\<lambda>_. 3) remote), w)),
     h_FcntlGetfl := (\<lambda>fd w. (Inr 0x802, w)), h_Write := (\<lambda>fd d w. (Inr 8, w)),
     h_Ioctl := (\<lambda>fd c w. (None, w)), h_SampleUpdate := (\<lambda>s w. (None, w)),
     h_SampleLookup := (\<lambda>w. (Inr demo_snapshot, w)), h_StatsLookup := (\<lambda>vq w. (Inr zero_Counters, w))\<rparr>"

definition demo_target :: Target where
  "demo_target = \<lparr>t_PID = 1234, t_pidfd = 5\<rparr>"

lemma demo_snapshot_valid: "Validate demo_snapshot = None"
  by (simp add: Validate_def demo_snapshot_def stuck_snapshot_def zero_Snapshot_def)

lemma demo_eventfd_id: "find_eventfd_id (Split ''eventfd-id: 0'' newline) = Inr 0"
  by (simp add: Split_def Cut_def TrimSpace_def ParseUint_def is_space_def is_digit_def parse_digits_def)

text \<open>A host on which the next poll is interrupted.\<close>

definition interrupting_host :: "bool host" where
  "interrupting_host = idle_host\<lparr>h_Poll := (\<lambda>fd pending. (if pending then Inl (Errno EINTR) else Inr (0, 0), False))\<rparr>"

theorem pollAlive_ignores_interrupts_witness:
  "pollAlive 2 interrupting_host 5 True = (Ok True, [EPoll 5 (Inl (Errno EINTR)), EPoll 5 (Inr (0, 0))], False) \<and>
   (\<exists>es' a. [EPoll 5 (Inl (Errno EINTR)), EPoll 5 (Inr (0, 0))] = es' @ [EPoll 5 a] \<and> length es' < 2 \<and>
      list_all (interrupted_poll 5) es' \<and> \<not> interrupted_poll 5 (EPoll 5 a) \<and> Ok True = poll_answer a)"
proof -
  have r: "pollAlive 2 interrupting_host 5 True = (Ok True, [EPoll 5 (Inl (Errno EINTR)), EPoll 5 (Inr (0, 0))], False)"
    by (simp add: numeral_2_eq_2 interrupting_host_def bindE_def attempt_def callE_def retE_def)
  show ?thesis using r pollAlive_ignores_interrupts [OF r] by simp
qed

theorem batch_reads_like_single_reads_witness:
  "\<exists>b b' es x es2. NewRingBatch demo_target [demo_snapshot, demo_snapshot] = Ok b \<and>
     RingBatch_Read demo_host b () = (Ok (None, b'), es, ()) \<and> RingBatch_Indices b' 1 = Some x \<and>
     Ring demo_host demo_target ([demo_snapshot, demo_snapshot] ! 1) () = (Ok x, es2, ())"
proof -
  have m: "reads_memory demo_host (\<lambda>_. 3)" by (simp add: reads_memory_def demo_host_def idle_host_def)
  obtain b where b: "NewRingBatch demo_target [demo_snapshot, demo_snapshot] = Ok b"
    by (simp add: NewRingBatch_def Let_def demo_snapshot_valid)
  show ?thesis using batch_reads_like_single_reads [OF b m, of 1 "()"] b by fastforce
qed

theorem Inventory_reports_observed_witness:
  "\<exists>vhosts events es segs. Inventory demo_host demo_target () = (Ok (vhosts, events), es, ()) \<and> sorted vhosts \<and>
     42 \<in> set vhosts \<and> list_all2 (entry_seen demo_target) [(''42'', False)] segs \<and> length (filter vhost_seen segs) = 1"
proof -
  have r: "Inventory demo_host demo_target () = (Ok ([42], \<lambda>_. []),
    [EReadDir (''/proc/'' @ Itoa 1234 @ ''/fd'') (Inr [(''42'', False)]),
     EReadlink (''/proc/'' @ Itoa 1234 @ ''/fd/42'') (Inr ''/dev/vhost-net'')], ())"
    by (simp add: Inventory_def inventory_entry_def demo_host_def idle_host_def demo_target_def bindE_def attempt_def callE_def
        retE_def Atoi_def is_digit_def parse_digits_def)
  from Inventory_reports_observed [OF r] obtain segs where "list_all2 (entry_seen demo_target) [(''42'', False)] segs"
    "length (filter vhost_seen segs) = 1" "sorted [42::int]" by (auto simp: demo_target_def)
  then show ?thesis using r by (intro exI conjI) auto
qed

theorem Rekick_writes_only_verified_kicks_witness:
  "\<exists>es. Rekick demo_host (recovery_of demo_host demo_target) (BPF_Snapshot demo_host) 33 demo_snapshot (\<lambda>_. [77, 66]) ()
       = (Ok (), es, ()) \<and> verified_kick 5 33 demo_snapshot 66 (Inr 8) es"
proof -
  obtain es where r: "Rekick demo_host (recovery_of demo_host demo_target) (BPF_Snapshot demo_host) 33 demo_snapshot
      (\<lambda>_. [77, 66]) () = (Ok (), es, ())"
    using demo_snapshot_valid demo_eventfd_id
    by (simp add: Rekick_def recovery_of_def Duplicate_def Alive_def CheckAlive_def eventID_def BPF_Snapshot_def
        demo_host_def idle_host_def demo_target_def bindE_def attempt_def callE_def callO_def callU_def retE_def deferE_def checkE_def
        Let_def demo_snapshot_def stuck_snapshot_def zero_Snapshot_def)
  from Rekick_writes_only_verified_kicks [OF r] obtain fd d where w: "EWrite fd d (Inr 8) \<in> set es" by blast
  with Rekick_writes_only_verified_kicks [OF r] have "verified_kick (t_pidfd demo_target) 33 demo_snapshot
      (Min (set [77, 66])) (Inr 8) es" by blast
  with r show ?thesis by (simp add: demo_target_def)
qed
end
