(* ===== verification/Live.thy ===== *)
theory Live
  imports Target
begin

unbundle bit_operations_syntax

text \<open>
  One live look at a queue (\<^verbatim>\<open>liveRow\<close> of \<^verbatim>\<open>internal/watch/batched_linux.go\<close>), the listing of all
  queues (\<^verbatim>\<open>internal/watch/list_linux.go\<close>), and the kick through a fresh duplicate of the vhost
  descriptor, which the two watchdog loops share.
\<close>

text \<open>Bit 1 of the work flags (\<^verbatim>\<open>VHOST_WORK_QUEUED\<close>).\<close>

definition work_queued :: "Snapshot \<Rightarrow> bool" where
  "work_queued s = (sn_WorkFlags s AND push_bit 1 1 \<noteq> 0)"

definition liveRow :: "'w host \<Rightarrow> Target \<Rightarrow> int \<Rightarrow> (event, 'w, Snapshot \<times> QueueRow) io" where
  "liveRow h t remoteFD =
    bindE (Duplicate h t remoteFD) (\<lambda>fd.
    deferE
      (bindE (BPF_Snapshot h fd) (\<lambda>s.
       bindE (Ring h t s) (\<lambda>(avail, used).
       retE (s, \<lparr>row_VhostFD = remoteFD, row_EventID = sn_EventID s, row_Num = sn_Num s, row_Avail = avail,
         row_Used = used, row_Consumed = sn_LastAvail s, row_Pending = avail - sn_LastAvail s,
         row_Outstanding = avail - used, row_Stalled = False, row_Busy = work_queued s, row_Stages = zero_Counters\<rparr>))))
      (Close h fd))"

definition ListQueues :: "'w host \<Rightarrow> Target \<Rightarrow> (event, 'w, QueueRow list) io" where
  "ListQueues h t =
    bindE (Inventory h t) (\<lambda>(fds, _).
    foldE (\<lambda>fd rows. bindE (liveRow h t fd) (\<lambda>(_, row). retE (rows @ [row]))) fds [])"

text \<open>
  Re-duplicate the vhost descriptor, kick through the duplicate, and close it whatever
  \<^verbatim>\<open>Rekick\<close> answered.
\<close>

definition rekick_current :: "'w host \<Rightarrow> Target \<Rightarrow> int \<Rightarrow> Snapshot \<Rightarrow> eventmap \<Rightarrow> (event, 'w, unit) io" where
  "rekick_current h t remoteFD s events =
    bindE (Duplicate h t remoteFD) (\<lambda>currentFD.
    bindE (attempt (Rekick h (recovery_of h t) (BPF_Snapshot h) currentFD s events)) (\<lambda>r.
    bindE (Close h currentFD) (\<lambda>_.
    case r of Inl e \<Rightarrow> failE e | Inr _ \<Rightarrow> retE ())))"

section \<open>Calls\<close>

text \<open>Calls that have nothing to do with goroutines, kernel modules or the build of one.\<close>

fun local_call :: "event \<Rightarrow> bool" where
  "local_call (EWithTimeout _) = False"
| "local_call (ESpawn _ _) = False"
| "local_call (ECancel _) = False"
| "local_call (EPollDone _ _) = False"
| "local_call (EJoin _ _) = False"
| "local_call (EMkdirTemp _) = False"
| "local_call (ERemoveAll _) = False"
| "local_call (EWriteFile _ _ _) = False"
| "local_call (EMake _ _) = False"
| "local_call (EStat _ _) = False"
| "local_call (EFinitModule _ _ _) = False"
| "local_call (EDeleteModule _ _) = False"
| "local_call (ESleep _) = False"
| "local_call (EUname _) = False"
| "local_call (ENow _) = False"
| "local_call (ETick _) = False"
| "local_call _ = True"

text \<open>Those of them that neither write nor read the clock.\<close>

fun idle :: "event \<Rightarrow> bool" where
  "idle (EWrite _ _ _) = False"
| "idle (EClock _) = False"
| "idle e = local_call e"

text \<open>Those of them that do not touch the probes either.\<close>

abbreviation calm :: "event \<Rightarrow> bool" where
  "calm e \<equiv> idle e \<and> probeless e"

lemma idle_of_calm: "traces (list_all calm) m \<Longrightarrow> traces (list_all idle) m"
  by (erule traces_imp) (simp add: list_all_iff)

lemma calm_reads: "list_all reads_only es \<Longrightarrow> list_all calm es"
  by (induction es) (auto elim!: reads_only.elims)

lemma calm_polls: "list_all is_poll es \<Longrightarrow> list_all calm es"
  by (induction es) (auto elim!: is_poll.elims)

lemma idle_quiet: "idle e \<Longrightarrow> quiet e"
  by (cases e) auto

lemma idle_local: "idle e \<Longrightarrow> local_call e"
  by (cases e) auto

lemma quiet_of_idle: "traces (list_all idle) m \<Longrightarrow> traces (list_all quiet) m"
  by (erule traces_imp) (auto simp: list_all_iff idle_quiet)

lemma traces_quiet_verified: "traces (list_all quiet) m \<Longrightarrow> traces_if d only_verified_kicks m"
  by (erule traces_imp) (rule verified_quiet)

lemma Snapshot_calm: "traces (list_all calm) (BPF_Snapshot h fd)"
  by (rule traces_imp [OF Snapshot_reads_only calm_reads])

lemma Counters_calm: "traces (list_all calm) (BPF_Counters h ts vq)"
  by (rule traces_imp [OF Counters_reads_only calm_reads])

lemma Forget_calm: "traces (list_all calm) (BPF_Forget h s)"
  by (rule traces_imp [OF Forget_reads_only calm_reads])

lemma Alive_calm: "traces (list_all calm) (Alive h t)"
  by (rule traces_imp [OF Alive_polls calm_polls])

lemma CheckAlive_calm: "traces (list_all calm) (CheckAlive h t)"
  by (rule traces_imp [OF CheckAlive_polls calm_polls])

lemma eventID_calm: "traces (list_all calm) (eventID h pid fd)"
  unfolding eventID_def by (intro every_call.intros traces_calls) auto

lemma Inventory_calm: "traces (list_all calm) (Inventory h t)"
  unfolding Inventory_def inventory_entry_def by (intro every_call.intros traces_calls eventID_calm) auto

lemma Ring_calm: "traces (list_all calm) (Ring h t s)"
  unfolding Ring_def by (intro every_call.intros traces_calls) auto

lemma Duplicate_calm: "traces (list_all calm) (Duplicate h t fd)"
  unfolding Duplicate_def by (intro traces_calls) auto

lemma liveRow_calm: "traces (list_all calm) (liveRow h t fd)"
  unfolding liveRow_def by (intro every_call.intros traces_calls Duplicate_calm Snapshot_calm Ring_calm) auto

lemma Read_calm: "traces (list_all calm) (RingBatch_Read h b)"
  unfolding RingBatch_Read_def by (intro every_call.intros traces_calls) auto

lemma OpenTarget_calm: "traces (list_all calm) (OpenTarget h pid)"
  unfolding OpenTarget_def Target_Close_def by (intro every_call.intros traces_calls Alive_calm) auto

lemma emit_calm: "traces (list_all calm) (emit h l ev fs)"
  unfolding emit_def by (intro every_call.intros traces_calls traces_clock) auto

lemmas calm_calls = Snapshot_calm Counters_calm Forget_calm Alive_calm CheckAlive_calm eventID_calm Inventory_calm
  Ring_calm Duplicate_calm liveRow_calm Read_calm OpenTarget_calm emit_calm

lemmas Snapshot_idle = Snapshot_calm [THEN idle_of_calm]
lemmas Counters_idle = Counters_calm [THEN idle_of_calm]
lemmas Forget_idle = Forget_calm [THEN idle_of_calm]
lemmas Alive_idle = Alive_calm [THEN idle_of_calm]
lemmas CheckAlive_idle = CheckAlive_calm [THEN idle_of_calm]
lemmas eventID_idle = eventID_calm [THEN idle_of_calm]
lemmas Inventory_idle = Inventory_calm [THEN idle_of_calm]
lemmas Ring_idle = Ring_calm [THEN idle_of_calm]
lemmas Duplicate_idle = Duplicate_calm [THEN idle_of_calm]
lemmas liveRow_idle = liveRow_calm [THEN idle_of_calm]
lemmas Read_idle = Read_calm [THEN idle_of_calm]
lemmas OpenTarget_idle = OpenTarget_calm [THEN idle_of_calm]
lemmas emit_idle = emit_calm [THEN idle_of_calm]

lemmas idle_calls = Snapshot_idle Counters_idle Forget_idle Alive_idle CheckAlive_idle eventID_idle
  Inventory_idle Ring_idle Duplicate_idle liveRow_idle Read_idle OpenTarget_idle emit_idle

lemmas Snapshot_quiet = Snapshot_idle [THEN quiet_of_idle]
lemmas Counters_quiet = Counters_idle [THEN quiet_of_idle]
lemmas Forget_quiet = Forget_idle [THEN quiet_of_idle]
lemmas Alive_quiet = Alive_idle [THEN quiet_of_idle]
lemmas CheckAlive_quiet = CheckAlive_idle [THEN quiet_of_idle]
lemmas eventID_quiet = eventID_idle [THEN quiet_of_idle]
lemmas Inventory_quiet = Inventory_idle [THEN quiet_of_idle]
lemmas Ring_quiet = Ring_idle [THEN quiet_of_idle]
lemmas Duplicate_quiet = Duplicate_idle [THEN quiet_of_idle]
lemmas liveRow_quiet = liveRow_idle [THEN quiet_of_idle]
lemmas Read_quiet = Read_idle [THEN quiet_of_idle]
lemmas OpenTarget_quiet = OpenTarget_idle [THEN quiet_of_idle]
lemmas emit_quiet = emit_idle [THEN quiet_of_idle]

lemmas quiet_calls = Snapshot_quiet Counters_quiet Forget_quiet Alive_quiet CheckAlive_quiet eventID_quiet
  Inventory_quiet Ring_quiet Duplicate_quiet liveRow_quiet Read_quiet OpenTarget_quiet emit_quiet

lemma rekick_current_verified: "traces only_verified_kicks (rekick_current h t remoteFD s events)"
  unfolding rekick_current_def
  by (intro verified.intros Rekick_verified traces_quiet_verified [OF Duplicate_quiet] traces_calls)
    (auto intro: verified_quiet)

lemma rekick_current_neutral: "completes neutral (rekick_current h t remoteFD s events)"
  unfolding rekick_current_def
  by (intro completes_closed_after [where f = "\<lambda>fd. fd"] Duplicate_acquires Rekick_neutral Rekick_no_panic neutral.intros)

lemma liveRow_neutral: "completes neutral (liveRow h t fd)"
  unfolding liveRow_def by (intro neutral.intros completes_scoped Duplicate_acquires Snapshot_neutral Ring_neutral)

lemma emit_neutral: "traces_if d neutral (emit h l ev fs)"
  unfolding emit_def by (intro neutral.intros traces_calls traces_clock) (auto simp: neutral_def)

lemma ListQueues_neutral: "completes neutral (ListQueues h t)"
  unfolding ListQueues_def by (intro neutral.intros Inventory_neutral liveRow_neutral)

lemma ListQueues_quiet: "traces (list_all quiet) (ListQueues h t)"
  unfolding ListQueues_def by (intro every_call.intros Inventory_quiet liveRow_quiet)

end
