(* ===== verification/Run.thy ===== *)
theory Run
  imports Live
begin

text \<open>
  \<^verbatim>\<open>internal/watch/run_linux.go\<close>: the configuration and its validation, the per-queue watchdog loop,
  and the rescue.  The variables of \<^verbatim>\<open>run\<close> that its closures assign to are the record
  \<open>vars\<close>; a computation over them has the type \<open>(event, vars \<times> 'w, 'a) io\<close>.  The \<^verbatim>\<open>for\<close> loop
  takes fuel: \<open>Running\<close> says that it is still going.
\<close>

section \<open>Configuration\<close>

record 'w Config =
  c_PID :: int
  c_Mode :: string
  c_StateDir :: string
  c_BPFObject :: string
  c_Interval :: f64
  c_Threshold :: f64
  c_Cooldown :: f64
  c_KickInterval :: f64
  c_VerifyTimeout :: f64
  c_SummaryInterval :: f64
  c_Duration :: f64
  c_MaxRecoveries :: int
  c_Rescue :: bool
  c_VhostFD :: int
  c_InventoryInterval :: f64
  c_TraceStages :: bool
  c_BatchRings :: bool
  c_Domain :: string
  c_CheckIdentity :: "(event, 'w, unit) io option"

definition MaxInt64 :: int where
  "MaxInt64 = 2 ^ 63 - 1"

definition bad_seconds :: "f64 \<Rightarrow> bool" where
  "bad_seconds v \<longleftrightarrow> v = NaN \<or> IsInf v \<or> f64_le v (Fin 0) \<or> f64_lt (f64_div (f64_of_int MaxInt64) time_Second) v"

definition Config_Validate :: "'w Config \<Rightarrow> error option" where
  "Config_Validate c =
    (if c_PID c \<le> 0 then Some (ErrorString ''PID must be positive'')
     else if c_Mode c \<noteq> ''observe'' \<and> c_Mode c \<noteq> ''guarded'' \<and> c_Mode c \<noteq> ''periodic''
     then Some (ErrorString ''mode must be observe, guarded, or periodic'')
     else if c_BatchRings c \<and> (c_Mode c \<noteq> ''guarded'' \<or> c_TraceStages c \<or> c_Rescue c)
     then Some (ErrorString ''batch-rings requires guarded mode without stage tracing or rescue'')
     else if list_ex bad_seconds [c_Interval c, c_InventoryInterval c, c_Threshold c, c_Cooldown c, c_KickInterval c,
               c_VerifyTimeout c, c_SummaryInterval c]
     then Some (ErrorString ''intervals and thresholds must be finite positive seconds'')
     else if f64_to_int64 (f64_mul (c_Interval c) time_Second) < 1
     then Some (ErrorString ''snapshot interval is too small'')
     else if c_Duration c = NaN \<or> IsInf (c_Duration c) \<or> f64_lt (c_Duration c) (Fin 0) \<or> c_MaxRecoveries c \<le> 0
     then Some (ErrorString ''duration must be finite and nonnegative; recovery budget must be positive'')
     else if c_VhostFD c < -1 \<or> c_VhostFD c \<ge> 0 \<and> \<not> c_Rescue c
     then Some (ErrorString ''vhost-fd is only valid with rescue'')
     else if c_StateDir c = '''' \<or> c_BPFObject c = ''''
     then Some (ErrorString ''state directory and BPF object must be specified'')
     else None)"

text \<open>A valid interval makes a ticker.\<close>

lemma valid_ticker: "Config_Validate c = None \<Longrightarrow> NewTicker (f64_to_int64 (f64_mul (c_Interval c) time_Second)) = retE ()"
  by (auto simp: Config_Validate_def NewTicker_def split: if_splits)

section \<open>Log lines and variables\<close>

definition row_fields :: "QueueRow \<Rightarrow> fields" where
  "row_fields row =
    [(''vhost_fd'', JInt (row_VhostFD row)), (''eventfd_id'', JInt (uint (row_EventID row))),
     (''num'', JInt (uint (row_Num row))), (''avail'', JInt (uint (row_Avail row))), (''used'', JInt (uint (row_Used row))),
     (''consumed'', JInt (uint (row_Consumed row))), (''pending'', JInt (uint (row_Pending row))),
     (''outstanding'', JInt (uint (row_Outstanding row))), (''stalled'', JBool (row_Stalled row)),
     (''busy'', JBool (row_Busy row)), (''stages'', JCounters (row_Stages row))]"

record verification =
  ve_at :: f64
  ve_used :: u16
  ve_consumed :: u16
  ve_stalled :: bool

text \<open>What every loop keeps is the logger, and the watchdog loops a detector (or budget) per descriptor slot.\<close>

record logged =
  v_log :: logger

record ledger = logged +
  v_detectors :: "(int \<times> Detector) list"

record vars = ledger +
  v_vhosts :: "int list"
  v_events :: eventmap
  v_snapshots :: "(int \<times> Snapshot) list"
  v_pending :: "(int \<times> verification) list"
  v_rows :: "QueueRow list"
  v_totalWrites :: u64
  v_lastInventory :: f64
  v_lastSummary :: f64

definition init_vars :: "logger \<Rightarrow> vars" where
  "init_vars l = \<lparr>v_log = l, v_detectors = [], v_vhosts = [], v_events = (\<lambda>_. []), v_snapshots = [], v_pending = [],
     v_rows = [], v_totalWrites = 0, v_lastInventory = NInf, v_lastSummary = NInf\<rparr>"

text \<open>\<^verbatim>\<open>l.emit\<close> on the logger among the variables, and \<^verbatim>\<open>return l.err\<close> (\<open>False\<close>: stop, without an error).\<close>

definition logV :: "'w host \<Rightarrow> string \<Rightarrow> fields \<Rightarrow> (event, 'v logged_scheme \<times> 'w, unit) io" where
  "logV h ev fs = bindE getE (\<lambda>v. bindE (liftE (emit h (v_log v) ev fs)) (\<lambda>l. modE (\<lambda>v. v\<lparr>v_log := l\<rparr>)))"

definition check_log :: "(event, 'v logged_scheme \<times> 'w, unit) io" where
  "check_log = bindE getE (\<lambda>v. checkE (l_err (v_log v)))"

definition return_log :: "(event, 'v logged_scheme \<times> 'w, bool) io" where
  "return_log = bindE check_log (\<lambda>_. retE False)"

text \<open>The detector of a slot; where there is none yet, the one that is made.\<close>

definition detector_of :: "'w Config \<Rightarrow> 'v ledger_scheme \<Rightarrow> int \<Rightarrow> Detector" where
  "detector_of c v fd = (case map_of (v_detectors v) fd of
     Some d \<Rightarrow> d | None \<Rightarrow> NewDetector (c_Threshold c) (c_Cooldown c) (c_MaxRecoveries c))"

definition set_detector :: "int \<Rightarrow> Detector \<Rightarrow> 'v ledger_scheme \<Rightarrow> 'v ledger_scheme" where
  "set_detector fd d v = v\<lparr>v_detectors := AList.update fd d (v_detectors v)\<rparr>"

section \<open>One queue\<close>

text \<open>The snapshot of a queue; where the attachment changed, what was kept of the old one is dropped first.\<close>

definition take_snapshot :: "'w host \<Rightarrow> int \<Rightarrow> int \<Rightarrow> (event, vars \<times> 'w, Snapshot) io" where
  "take_snapshot h fd remoteFD =
    bindE (liftE (BPF_Snapshot h fd)) (\<lambda>s.
    bindE getE (\<lambda>v.
    bindE
      (case map_of (v_snapshots v) remoteFD of
         Some old \<Rightarrow>
           if Identity old \<noteq> Identity s
           then bindE (liftE (BPF_Forget h old)) (\<lambda>_.
                bindE (modE (\<lambda>v. v\<lparr>v_pending := AList.delete remoteFD (v_pending v)\<rparr>)) (\<lambda>_.
                liftE (BPF_Snapshot h fd)))
           else retE s
       | None \<Rightarrow> retE s)
      (\<lambda>s. bindE (modE (\<lambda>v. v\<lparr>v_snapshots := AList.update remoteFD s (v_snapshots v)\<rparr>)) (\<lambda>_. retE s))))"

definition queue_busy :: "'w Config \<Rightarrow> Snapshot \<Rightarrow> Counters \<Rightarrow> f64 \<Rightarrow> bool" where
  "queue_busy c s counters now \<longleftrightarrow> work_queued s \<or> ct_Active counters \<noteq> 0 \<or>
     f64_lt (f64_sub now (f64_div (f64_of_int (uint (ct_LastHandlerNS counters))) time_Second)) (c_Interval c)"

text \<open>Whether the kick of an earlier tick has been answered.\<close>

definition verify_kick :: "'w host \<Rightarrow> 'w Config \<Rightarrow> f64 \<Rightarrow> int \<Rightarrow> QueueRow \<Rightarrow> (event, vars \<times> 'w, unit) io" where
  "verify_kick h c now remoteFD row =
    bindE getE (\<lambda>v.
    case map_of (v_pending v) remoteFD of
      None \<Rightarrow> retE ()
    | Some ve \<Rightarrow>
        if row_Used row \<noteq> ve_used ve \<and> row_Consumed row \<noteq> ve_consumed ve
        then bindE (logV h (if ve_stalled ve then ''recovered'' else ''progress_after_kick'')
               (AList.update ''latency'' (JFloat (f64_sub now (ve_at ve))) (row_fields row))) (\<lambda>_.
             modE (\<lambda>v. v\<lparr>v_pending := AList.delete remoteFD (v_pending v)\<rparr>))
        else if f64_le (c_VerifyTimeout c) (f64_sub now (ve_at ve))
        then bindE (logV h ''recovery_unconfirmed'' (row_fields row)) (\<lambda>_.
             modE (\<lambda>v. v\<lparr>v_pending := AList.delete remoteFD (v_pending v)\<rparr>))
        else retE ())"

definition report_stall :: "'w host \<Rightarrow> 'w Config \<Rightarrow> f64 \<Rightarrow> int \<Rightarrow> QueueRow \<Rightarrow> (event, vars \<times> 'w, unit) io" where
  "report_stall h c now remoteFD row =
    bindE getE (\<lambda>v.
    let d = detector_of c v remoteFD in
    if row_Stalled row \<and> \<not> d_Reported d
    then bindE (logV h ''stall'' (AList.update ''age'' (JFloat (f64_sub now (d_Since d))) (row_fields row))) (\<lambda>_.
         modE (\<lambda>v. set_detector remoteFD (d\<lparr>d_Reported := True\<rparr>) v))
    else retE ())"

text \<open>A guarded kick does not depend on the cached discovery.\<close>

definition refresh_events :: "'w host \<Rightarrow> Target \<Rightarrow> int \<Rightarrow> (event, vars \<times> 'w, unit) io" where
  "refresh_events h t remoteFD =
    bindE (liftE (Inventory h t)) (\<lambda>(current, refreshed).
    if remoteFD \<notin> set current then failE (ErrorString ''vhost FD disappeared before recovery'')
    else modE (\<lambda>v. v\<lparr>v_events := refreshed\<rparr>))"

text \<open>The two policies: whether to kick now, and the detector after the question.\<close>

definition kick_due :: "'w Config \<Rightarrow> Detector \<Rightarrow> bool \<Rightarrow> f64 \<Rightarrow> bool \<times> bool \<times> Detector" where
  "kick_due c d stalled now =
    (let periodic = (c_Mode c = ''periodic'' \<and> f64_le (c_KickInterval c) (f64_sub now (d_LastKick d)));
         (guarded, d') = (if c_Mode c = ''guarded'' \<and> stalled then Allowed d now else (False, d))
     in (periodic, guarded, d'))"

text \<open>The bookkeeping after a successful write.\<close>

definition record_kick :: "'w Config \<Rightarrow> f64 \<Rightarrow> int \<Rightarrow> bool \<Rightarrow> vars \<Rightarrow> vars" where
  "record_kick c now remoteFD guarded v =
    (let d = (detector_of c v remoteFD)\<lparr>d_LastKick := now\<rparr>;
         d' = (if guarded then Kicked d now else d)
     in (set_detector remoteFD d' v)\<lparr>v_totalWrites := v_totalWrites v + 1\<rparr>)"

definition kick_queue ::
  "'w host \<Rightarrow> 'w Config \<Rightarrow> Target \<Rightarrow> nat \<Rightarrow> f64 \<Rightarrow> int \<Rightarrow> Snapshot \<Rightarrow> QueueRow \<Rightarrow> (event, vars \<times> 'w, unit) io" where
  "kick_queue h c t ctx now remoteFD s row =
    bindE getE (\<lambda>v.
    case kick_due c (detector_of c v remoteFD) (row_Stalled row) now of (periodic, guarded, d) \<Rightarrow>
    bindE (modE (set_detector remoteFD d)) (\<lambda>_.
    if \<not> (periodic \<or> guarded) then retE ()
    else bindE (liftE (CtxErr h ctx)) (\<lambda>cerr.
    if cerr \<noteq> None then retE ()
    else bindE (if guarded then refresh_events h t remoteFD else retE ()) (\<lambda>_.
    bindE getE (\<lambda>v.
    bindE (liftE (rekick_current h t remoteFD s (v_events v))) (\<lambda>_.
    bindE (modE (record_kick c now remoteFD guarded)) (\<lambda>_.
    bindE (logV h ''rekick'' (AList.update ''reason'' (JString (if periodic then ''periodic'' else ''stall''))
             (row_fields row))) (\<lambda>_.
    modE (\<lambda>v. if row_Pending row > 0 \<and> map_of (v_pending v) remoteFD = None
       then v\<lparr>v_pending := AList.update remoteFD \<lparr>ve_at = now, ve_used = row_Used row, ve_consumed = sn_LastAvail s,
                ve_stalled = guarded \<or> row_Stalled row\<rparr> (v_pending v)\<rparr>
       else v)))))))))"

text \<open>The function literal in the loop over the vhost descriptors.\<close>

definition queue_row ::
  "'w host \<Rightarrow> 'w Config \<Rightarrow> Target \<Rightarrow> BPF \<Rightarrow> nat \<Rightarrow> f64 \<Rightarrow> int \<Rightarrow> (event, vars \<times> 'w, QueueRow) io" where
  "queue_row h c t b ctx now remoteFD =
    bindE (liftE (Duplicate h t remoteFD)) (\<lambda>fd.
    deferE
      (bindE (take_snapshot h fd remoteFD) (\<lambda>s.
       bindE (modE (\<lambda>v. set_detector remoteFD (detector_of c v remoteFD) v)) (\<lambda>_.
       bindE (liftE (Ring h t s)) (\<lambda>(avail, used).
       bindE (liftE (BPF_Counters h (b_traceStages b) (sn_VQ s))) (\<lambda>counters.
       bindE getE (\<lambda>v.
       let busy = queue_busy c s counters now;
           (stalled, d) = Observe (detector_of c v remoteFD) s avail used busy now;
           row = \<lparr>row_VhostFD = remoteFD, row_EventID = sn_EventID s, row_Num = sn_Num s, row_Avail = avail,
                  row_Used = used, row_Consumed = sn_LastAvail s, row_Pending = avail - sn_LastAvail s,
                  row_Outstanding = avail - used, row_Stalled = stalled, row_Busy = busy, row_Stages = counters\<rparr>
       in bindE (modE (set_detector remoteFD d)) (\<lambda>_.
          bindE (verify_kick h c now remoteFD row) (\<lambda>_.
          bindE (report_stall h c now remoteFD row) (\<lambda>_.
          bindE check_log (\<lambda>_.
          bindE (kick_queue h c t ctx now remoteFD s row) (\<lambda>_.
          retE row)))))))))))
      (liftE (Close h fd)))"

text \<open>What the loop does with its answer.\<close>

definition visit_queue ::
  "'w host \<Rightarrow> 'w Config \<Rightarrow> Target \<Rightarrow> BPF \<Rightarrow> nat \<Rightarrow> f64 \<Rightarrow> int \<Rightarrow> (event, vars \<times> 'w, unit) io" where
  "visit_queue h c t b ctx now remoteFD =
    bindE (attempt (queue_row h c t b ctx now remoteFD)) (\<lambda>r.
    bindE
      (case r of
         Inl e \<Rightarrow>
           bindE (modE (\<lambda>v. v\<lparr>v_lastInventory := NInf\<rparr>)) (\<lambda>_.
           bindE (logV h ''queue_unavailable'' [(''vhost_fd'', JInt remoteFD), (''error'', JError e)]) (\<lambda>_.
           modE (\<lambda>v. (case map_of (v_detectors v) remoteFD of
               Some d \<Rightarrow> set_detector remoteFD (d\<lparr>d_Since := now, d_Reported := False\<rparr>) v | None \<Rightarrow> v)
             \<lparr>v_pending := AList.delete remoteFD (v_pending v)\<rparr>)))
       | Inr row \<Rightarrow> modE (\<lambda>v. v\<lparr>v_rows := v_rows v @ [row]\<rparr>))
      (\<lambda>_. check_log))"

section \<open>The loop\<close>

definition refresh_inventory :: "'w host \<Rightarrow> 'w Config \<Rightarrow> Target \<Rightarrow> f64 \<Rightarrow> (event, vars \<times> 'w, unit) io" where
  "refresh_inventory h c t now =
    bindE getE (\<lambda>v.
    if f64_le (c_InventoryInterval c) (f64_sub now (v_lastInventory v))
    then bindE (liftE (Inventory h t)) (\<lambda>(vhosts, events).
         modE (\<lambda>v. v\<lparr>v_vhosts := vhosts, v_events := events, v_lastInventory := now\<rparr>))
    else retE ())"

text \<open>The loop over the map of snapshots; the order in which it visits the entries is left open by Go.\<close>

definition forget_gone :: "'w host \<Rightarrow> int list \<Rightarrow> (event, vars \<times> 'w, unit) io" where
  "forget_gone h seen =
    bindE getE (\<lambda>v.
    forE (filter (\<lambda>(fd, s). fd \<notin> set seen) (v_snapshots v)) (\<lambda>(fd, s).
      bindE (liftE (BPF_Forget h s)) (\<lambda>_.
      modE (\<lambda>v. v\<lparr>v_snapshots := AList.delete fd (v_snapshots v), v_pending := AList.delete fd (v_pending v)\<rparr>))))"

definition summary_fields :: "vars \<Rightarrow> fields" where
  "summary_fields v = [(''writes'', JInt (uint (v_totalWrites v))), (''queues'', JRows (v_rows v))]"

definition summarise :: "'w host \<Rightarrow> 'w Config \<Rightarrow> f64 \<Rightarrow> (event, vars \<times> 'w, unit) io" where
  "summarise h c now =
    bindE getE (\<lambda>v.
    if f64_le (c_SummaryInterval c) (f64_sub now (v_lastSummary v))
    then bindE (logV h ''sample'' (summary_fields v)) (\<lambda>_. modE (\<lambda>v. v\<lparr>v_lastSummary := now\<rparr>))
    else retE ())"

text \<open>One round; \<open>True\<close>: go on.\<close>

definition run_tick ::
  "'w host \<Rightarrow> 'w Config \<Rightarrow> Target \<Rightarrow> BPF \<Rightarrow> nat \<Rightarrow> f64 \<Rightarrow> (event, vars \<times> 'w, bool) io" where
  "run_tick h c t b ctx started =
    bindE (liftE (CtxErr h ctx)) (\<lambda>cerr.
    if cerr \<noteq> None then return_log
    else bindE (attempt (liftE (CheckAlive h t))) (\<lambda>a.
    case a of
      Inl e \<Rightarrow> failE (Wrap ''check QEMU pidfd'' e)
    | Inr alive \<Rightarrow>
        if \<not> alive then bindE (logV h ''target_exited'' []) (\<lambda>_. return_log)
        else bindE (liftE (monotonic h)) (\<lambda>now.
        if f64_lt (Fin 0) (c_Duration c) \<and> f64_le (c_Duration c) (f64_sub now started) then return_log
        else
          bindE (refresh_inventory h c t now) (\<lambda>_.
          bindE (modE (\<lambda>v. v\<lparr>v_rows := []\<rparr>)) (\<lambda>_.
          bindE getE (\<lambda>v.
          bindE (forE (v_vhosts v) (visit_queue h c t b ctx now)) (\<lambda>_.
          bindE (forget_gone h (v_vhosts v)) (\<lambda>_.
          bindE (summarise h c now) (\<lambda>_.
          bindE check_log (\<lambda>_.
          bindE (liftE (Select h ctx)) (\<lambda>fin.
          if fin then return_log else retE True)))))))))))"

fun run_loop ::
  "nat \<Rightarrow> 'w host \<Rightarrow> 'w Config \<Rightarrow> Target \<Rightarrow> BPF \<Rightarrow> nat \<Rightarrow> f64 \<Rightarrow> (event, vars \<times> 'w, unit) io" where
  "run_loop 0 h c t b ctx started = runningE"
| "run_loop (Suc n) h c t b ctx started =
    bindE (run_tick h c t b ctx started) (\<lambda>continue.
    if continue then run_loop n h c t b ctx started else retE ())"

definition run_queues ::
  "nat \<Rightarrow> 'w host \<Rightarrow> 'w Config \<Rightarrow> Target \<Rightarrow> BPF \<Rightarrow> nat \<Rightarrow> logger \<Rightarrow> (event, 'w, unit) io" where
  "run_queues n h c t b ctx l =
    bindE (monotonic h) (\<lambda>started.
    localE (init_vars l)
      (deferE
        (bindE (NewTicker (f64_to_int64 (f64_mul (c_Interval c) time_Second))) (\<lambda>_. run_loop n h c t b ctx started))
        (bindE getE (\<lambda>v. logV h ''stopped'' (summary_fields v)))))"

section \<open>Rescue\<close>

definition rescue_one :: "'w host \<Rightarrow> Target \<Rightarrow> eventmap \<Rightarrow> int \<Rightarrow> logger \<Rightarrow> (event, 'w, logger) io" where
  "rescue_one h t events remoteFD l =
    bindE (Duplicate h t remoteFD) (\<lambda>fd.
    deferE
      (bindE (BPF_Snapshot h fd) (\<lambda>s.
       bindE (Rekick h (recovery_of h t) (BPF_Snapshot h) fd s events) (\<lambda>_.
       bindE (emit h l ''rescue_kick'' [(''vhost_fd'', JInt remoteFD), (''eventfd_id'', JInt (uint (sn_EventID s))),
                (''implementation'', JString ''go'')]) (\<lambda>l'.
       bindE (checkE (l_err l')) (\<lambda>_. retE l')))))
      (Close h fd))"

definition rescue :: "'w host \<Rightarrow> Target \<Rightarrow> int \<Rightarrow> logger \<Rightarrow> (event, 'w, unit) io" where
  "rescue h t only l =
    bindE (Inventory h t) (\<lambda>(vhosts, events).
    bindE (foldE (\<lambda>remoteFD (written, l).
             if only \<ge> 0 \<and> only \<noteq> remoteFD then retE (written, l)
             else bindE (rescue_one h t events remoteFD l) (\<lambda>l'. retE (True, l'))) vhosts (False, l)) (\<lambda>(written, l).
    if \<not> written then failE (ErrorString ''no matching vhost TX queue in current inventory'') else retE ()))"

end
