(* ===== verification/Progress.thy ===== *)
theory Progress
  imports Model
begin

text \<open>
  \<^verbatim>\<open>internal/watch/progress.go\<close>: the timer that finds stall candidates from the indices of the
  user rings alone.  It is the second implementation of the stall timer contract.
\<close>

record RingProgress =
  rp_Since :: f64
  rp_used :: u16
  rp_eligible :: bool

definition zero_RingProgress :: RingProgress where
  "zero_RingProgress = \<lparr>rp_Since = Fin 0, rp_used = 0, rp_eligible = False\<rparr>"

definition RingProgress_Observe :: "RingProgress \<Rightarrow> u16 \<Rightarrow> u16 \<Rightarrow> u32 \<Rightarrow> f64 \<Rightarrow> f64 \<Rightarrow> bool \<times> RingProgress" where
  "RingProgress_Observe p avail used num now threshold =
    (let outstanding = avail - used;
         eligible = (outstanding > 0 \<and> ucast outstanding \<le> num);
         p1 = (if \<not> rp_eligible p \<or> \<not> eligible \<or> rp_used p \<noteq> used then p\<lparr>rp_Since := now\<rparr> else p);
         p2 = p1\<lparr>rp_used := used, rp_eligible := eligible\<rparr>
     in (eligible \<and> f64_le threshold (f64_sub now (rp_Since p2)), p2))"

definition RingProgress_Reset :: "RingProgress \<Rightarrow> f64 \<Rightarrow> RingProgress" where
  "RingProgress_Reset p now = p\<lparr>rp_Since := now, rp_eligible := False\<rparr>"

section \<open>The ring timer as a stall timer\<close>

type_synonym ring_sample = "u16 \<times> u16 \<times> u32 \<times> f64"

definition ring_time :: "ring_sample \<Rightarrow> f64" where
  "ring_time x = (case x of (avail, used, num, now) \<Rightarrow> now)"

definition ring_backlog :: "ring_sample \<Rightarrow> bool" where
  "ring_backlog x = (case x of (avail, used, num, now) \<Rightarrow> avail \<noteq> used \<and> unat (avail - used) \<le> unat num)"

definition ring_stuck :: "ring_sample \<Rightarrow> ring_sample \<Rightarrow> bool" where
  "ring_stuck y x = (ring_backlog y \<and> ring_backlog x \<and> fst (snd y) = fst (snd x))"

definition ring_observe :: "f64 \<Rightarrow> RingProgress \<Rightarrow> ring_sample \<Rightarrow> bool \<times> RingProgress" where
  "ring_observe threshold p x = (case x of (avail, used, num, now) \<Rightarrow>
     RingProgress_Observe p avail used num now threshold)"

definition ring_after :: "RingProgress \<Rightarrow> ring_sample option \<Rightarrow> bool" where
  "ring_after p y \<longleftrightarrow> (case y of None \<Rightarrow> \<not> rp_eligible p
     | Some (avail, used, num, now) \<Rightarrow> rp_used p = used \<and> rp_eligible p = ring_backlog (avail, used, num, now))"

lemma ring_after_fresh [simp]: "ring_after zero_RingProgress None" "ring_after (RingProgress_Reset p now) None"
  by (simp_all add: ring_after_def zero_RingProgress_def RingProgress_Reset_def)

interpretation ring: stall_timer "ring_observe thr" rp_Since ring_stuck ring_backlog ring_time thr ring_after
  for thr
proof
  fix st :: RingProgress and p and x :: ring_sample
  assume a: "ring_after st p"
  obtain avail used num now where x: "x = (avail, used, num, now)" by (cases x)
  note defs = x ring_observe_def RingProgress_Observe_def Let_def ring_after_def ring_backlog_def
    u16_fits_ring word_gt_0
  show "ring_after (snd (ring_observe thr st x)) (Some x)"
    by (auto simp: defs)
  show "rp_Since (snd (ring_observe thr st x)) = (if \<exists>y. p = Some y \<and> ring_stuck y x then rp_Since st else ring_time x)"
    using a by (auto simp: defs ring_stuck_def ring_time_def split: option.splits)
  show "fst (ring_observe thr st x) = (ring_backlog x \<and>
      f64_le thr (f64_sub (ring_time x) (rp_Since (snd (ring_observe thr st x)))))"
    by (auto simp: defs ring_time_def)
qed

text \<open>
  C27. From a fresh timer, or from one that was reset, a candidate is reported at a sample exactly
  when the ring has shown an uncompleted, consistent backlog with an unchanged used index in every
  sample of a window of at least the threshold.
\<close>

theorem candidates_are_exactly_stuck_rings:
  assumes "ring_after p None" and "clock_ok (map ring_time (xs @ [x]))"
  shows "fst (ring_observe thr (fold (\<lambda>x p. snd (ring_observe thr p x)) xs p) x) \<longleftrightarrow>
    stall_window ring_stuck ring_backlog ring_time thr (xs @ [x])"
  using ring.verdict_iff_window [OF assms] .

theorem candidates_are_exactly_stuck_rings_witness:
  "fst (ring_observe (Fin 4) (fold (\<lambda>x p. snd (ring_observe (Fin 4) p x)) [(3, 65530, 256, Fin 0)]
     (RingProgress_Reset zero_RingProgress (Fin 0))) (3, 65530, 256, Fin 5)) \<and>
   stall_window ring_stuck ring_backlog ring_time (Fin 4) ([(3, 65530, 256, Fin 0)] @ [(3, 65530, 256, Fin 5)])"
  (is "?r \<and> ?w")
proof -
  have c: "clock_ok (map ring_time ([(3, 65530, 256, Fin 0)] @ [(3, 65530, 256, Fin 5)]))"
    by (simp add: ring_time_def clock_ok_Cons)
  have ?r
    by (simp add: ring_observe_def RingProgress_Observe_def Let_def RingProgress_Reset_def zero_RingProgress_def
      word_gt_0 u16_fits_ring)
  with candidates_are_exactly_stuck_rings [OF ring_after_fresh(2) c, of "Fin 4" zero_RingProgress "Fin 0"]
  show ?thesis by blast
qed

end
