(* ===== verification/Batched.thy ===== *)
theory Batched
  imports Run Progress
begin

text \<open>
  \<^verbatim>\<open>internal/watch/batched_linux.go\<close>: the watchdog loop that polls all rings with one read of QEMU's
  memory and looks at the live vhost state only of queues that seem to be stuck.  A queue of the code is
  a pointer in one list and in no other, so the list of records in \<open>bvars\<close> models it.  The
  budgets are the detectors of the common record.
\<close>

section \<open>Queues\<close>

record liveCandidate =
  lc_snapshot :: Snapshot
  lc_used :: u16

record batchedQueue =
  q_fd :: int
  q_snapshot :: Snapshot
  q_progress :: RingProgress
  q_candidate :: "liveCandidate option"
  q_verification :: "verification option"
  q_reported :: bool

definition new_queue :: "int \<Rightarrow> batchedQueue" where
  "new_queue fd = \<lparr>q_fd = fd, q_snapshot = zero_Snapshot, q_progress = zero_RingProgress, q_candidate = None,
     q_verification = None, q_reported = False\<rparr>"

record bvars = ledger +
  bv_queues :: "batchedQueue list"
  bv_batch :: "RingBatch option"
  bv_rows :: "QueueRow list"
  bv_writes :: u64
  bv_lastInventory :: f64
  bv_lastSummary :: f64

definition init_bvars :: "logger \<Rightarrow> bvars" where
  "init_bvars l = \<lparr>v_log = l, v_detectors = [], bv_queues = [], bv_batch = None, bv_rows = [], bv_writes = 0,
     bv_lastInventory = NInf, bv_lastSummary = NInf\<rparr>"

definition update_queue :: "nat \<Rightarrow> (batchedQueue \<Rightarrow> batchedQueue) \<Rightarrow> bvars \<Rightarrow> bvars" where
  "update_queue i f v = v\<lparr>bv_queues := (bv_queues v)[i := f (bv_queues v ! i)]\<rparr>"

text \<open>A candidate that did not hold up starts over; a queue that could not be read forgets everything.\<close>

definition restart_queue :: "f64 \<Rightarrow> batchedQueue \<Rightarrow> batchedQueue" where
  "restart_queue now q = q\<lparr>q_progress := RingProgress_Reset (q_progress q) now, q_candidate := None, q_reported := False\<rparr>"

definition reset_queue :: "f64 \<Rightarrow> batchedQueue \<Rightarrow> batchedQueue" where
  "reset_queue now q = q\<lparr>q_progress := RingProgress_Reset (q_progress q) now, q_candidate := None,
     q_verification := None, q_reported := False\<rparr>"

section \<open>Discovery\<close>

definition rediscover ::
  "'w host \<Rightarrow> 'w Config \<Rightarrow> Target \<Rightarrow> int \<Rightarrow> (int \<times> batchedQueue) list \<times> Snapshot list \<Rightarrow>
   (event, bvars \<times> 'w, (int \<times> batchedQueue) list \<times> Snapshot list) io" where
  "rediscover h c t remoteFD acc =
    bindE (attempt (liftE (liveRow h t remoteFD))) (\<lambda>r.
    case r of
      Inl e \<Rightarrow>
        bindE (logV h ''queue_unavailable'' [(''vhost_fd'', JInt remoteFD), (''error'', JError e)]) (\<lambda>_. retE acc)
    | Inr (s, _) \<Rightarrow>
        bindE
          (case map_of (fst acc) remoteFD of
             Some q \<Rightarrow>
               if Identity (q_snapshot q) \<noteq> Identity s
               then bindE (liftE (BPF_Forget h (q_snapshot q))) (\<lambda>_. retE (new_queue remoteFD))
               else retE q
           | None \<Rightarrow> retE (new_queue remoteFD))
          (\<lambda>q.
           bindE (modE (\<lambda>v. v\<lparr>bv_queues := bv_queues v @ [q\<lparr>q_snapshot := s\<rparr>]\<rparr>)) (\<lambda>_.
           bindE (modE (\<lambda>v. set_detector remoteFD (detector_of c v remoteFD) v)) (\<lambda>_.
           retE (AList.delete remoteFD (fst acc), snd acc @ [s])))))"

definition discover_queues :: "'w host \<Rightarrow> 'w Config \<Rightarrow> Target \<Rightarrow> f64 \<Rightarrow> (event, bvars \<times> 'w, unit) io" where
  "discover_queues h c t now =
    bindE getE (\<lambda>v.
    if \<not> f64_le (c_InventoryInterval c) (f64_sub now (bv_lastInventory v)) then retE ()
    else bindE (liftE (Inventory h t)) (\<lambda>(vhosts, _).
    let old = fold (\<lambda>q. AList.update (q_fd q) q) (bv_queues v) [] in
    bindE (modE (\<lambda>v. v\<lparr>bv_queues := []\<rparr>)) (\<lambda>_.
    bindE (foldE (rediscover h c t) vhosts (old, [])) (\<lambda>(gone, snapshots).
    bindE (forE gone (\<lambda>(fd, q). liftE (BPF_Forget h (q_snapshot q)))) (\<lambda>_.
    bindE (modE (\<lambda>v. v\<lparr>bv_batch := None\<rparr>)) (\<lambda>_.
    bindE
      (if length snapshots \<noteq> 0
       then bindE (outcomeE (NewRingBatch t snapshots)) (\<lambda>b. modE (\<lambda>v. v\<lparr>bv_batch := Some b\<rparr>))
       else retE ())
      (\<lambda>_. modE (\<lambda>v. v\<lparr>bv_lastInventory := now\<rparr>))))))))"

section \<open>A queue that seems stuck\<close>

definition verify_batched :: "'w host \<Rightarrow> 'w Config \<Rightarrow> f64 \<Rightarrow> nat \<Rightarrow> QueueRow \<Rightarrow> (event, bvars \<times> 'w, unit) io" where
  "verify_batched h c now i row =
    bindE getE (\<lambda>v.
    case q_verification (bv_queues v ! i) of
      None \<Rightarrow> retE ()
    | Some ve \<Rightarrow>
        if row_Used row \<noteq> ve_used ve \<and> row_Consumed row \<noteq> ve_consumed ve
        then bindE (logV h ''recovered'' (AList.update ''latency'' (JFloat (f64_sub now (ve_at ve))) (row_fields row))) (\<lambda>_.
             modE (update_queue i (\<lambda>q. q\<lparr>q_verification := None\<rparr>)))
        else if f64_le (c_VerifyTimeout c) (f64_sub now (ve_at ve))
        then bindE (logV h ''recovery_unconfirmed'' (row_fields row)) (\<lambda>_.
             modE (update_queue i (\<lambda>q. q\<lparr>q_verification := None\<rparr>)))
        else retE ())"

definition report_batched :: "'w host \<Rightarrow> f64 \<Rightarrow> nat \<Rightarrow> QueueRow \<Rightarrow> (event, bvars \<times> 'w, unit) io" where
  "report_batched h now i row =
    bindE getE (\<lambda>v.
    let q = bv_queues v ! i in
    if \<not> q_reported q
    then bindE (logV h ''stall'' (AList.update ''confirmation'' (JString ''two_live_snapshots'')
               (AList.update ''age'' (JFloat (f64_sub now (rp_Since (q_progress q)))) (row_fields row)))) (\<lambda>_.
         modE (update_queue i (\<lambda>q. q\<lparr>q_reported := True\<rparr>)))
    else retE ())"

text \<open>The confirmed stall: report it, ask the budget and the context, discover afresh, kick.\<close>

definition recover_queue ::
  "'w host \<Rightarrow> 'w Config \<Rightarrow> Target \<Rightarrow> nat \<Rightarrow> f64 \<Rightarrow> nat \<Rightarrow> int \<Rightarrow> Snapshot \<Rightarrow> QueueRow \<Rightarrow> (event, bvars \<times> 'w, unit) io" where
  "recover_queue h c t ctx now i qfd s row =
    bindE (report_batched h now i row) (\<lambda>_.
    bindE getE (\<lambda>v.
    case Allowed (detector_of c v qfd) now of (allowed, d) \<Rightarrow>
    bindE (modE (set_detector qfd d)) (\<lambda>_.
    if \<not> allowed then retE ()
    else bindE (liftE (CtxErr h ctx)) (\<lambda>cerr.
    if cerr \<noteq> None then retE ()
    else bindE (liftE (Inventory h t)) (\<lambda>(vhosts, events).
    if qfd \<notin> set vhosts then failE (ErrorString ''vhost FD disappeared before recovery'')
    else bindE (liftE (rekick_current h t qfd s events)) (\<lambda>_.
    bindE (modE (\<lambda>v. (set_detector qfd (Kicked (detector_of c v qfd) now) v)\<lparr>bv_writes := bv_writes v + 1\<rparr>)) (\<lambda>_.
    bindE (logV h ''rekick'' (AList.update ''reason'' (JString ''stall'') (row_fields row))) (\<lambda>_.
    modE (update_queue i (\<lambda>q. q\<lparr>q_verification := Some \<lparr>ve_at = now, ve_used = row_Used row,
      ve_consumed = row_Consumed row, ve_stalled = True\<rparr>, q_candidate := None\<rparr>))))))))))"

text \<open>What a live row must show for the stall to hold.\<close>

definition live_stuck :: "u16 \<Rightarrow> Snapshot \<Rightarrow> QueueRow \<Rightarrow> bool" where
  "live_stuck used s row \<longleftrightarrow> \<not> (row_Used row \<noteq> used \<or> row_Pending row = 0 \<or> ucast (row_Pending row) > sn_Num s \<or>
     ucast (row_Outstanding row) > sn_Num s \<or> row_Busy row)"

definition confirm_queue ::
  "'w host \<Rightarrow> 'w Config \<Rightarrow> Target \<Rightarrow> nat \<Rightarrow> f64 \<Rightarrow> nat \<Rightarrow> u16 \<Rightarrow> bool \<Rightarrow> (event, bvars \<times> 'w, unit) io" where
  "confirm_queue h c t ctx now i used ready =
    bindE getE (\<lambda>v.
    let q = bv_queues v ! i in
    bindE (liftE (liveRow h t (q_fd q))) (\<lambda>(s, row).
    if Identity s \<noteq> Identity (q_snapshot q)
    then failE (ErrorString ''queue identity changed during cached ring polling'')
    else bindE (verify_batched h c now i row) (\<lambda>_.
    if \<not> ready then retE ()
    else if \<not> live_stuck used s row then modE (update_queue i (restart_queue now))
    else (case q_candidate q of
        None \<Rightarrow>
          bindE (modE (update_queue i (\<lambda>q. q\<lparr>q_candidate := Some \<lparr>lc_snapshot = s, lc_used = row_Used row\<rparr>\<rparr>))) (\<lambda>_.
          logV h ''candidate'' (row_fields row))
      | Some previous \<Rightarrow>
          if Identity (lc_snapshot previous) \<noteq> Identity s \<or> lc_used previous \<noteq> row_Used row \<or>
             sn_LastAvail (lc_snapshot previous) \<noteq> sn_LastAvail s
          then modE (update_queue i (restart_queue now))
          else recover_queue h c t ctx now i (q_fd q) s (row\<lparr>row_Stalled := True\<rparr>)))))"

section \<open>The loop\<close>

definition poll_queue ::
  "'w host \<Rightarrow> 'w Config \<Rightarrow> Target \<Rightarrow> nat \<Rightarrow> f64 \<Rightarrow> RingBatch \<Rightarrow> nat \<Rightarrow> (event, bvars \<times> 'w, unit) io" where
  "poll_queue h c t ctx now b i =
    (case RingBatch_Indices b i of
       None \<Rightarrow> panicE (ErrorString ''slice bounds out of range'')
     | Some (avail, used) \<Rightarrow>
         bindE getE (\<lambda>v.
         let q = bv_queues v ! i;
             (ready, p) = RingProgress_Observe (q_progress q) avail used (sn_Num (q_snapshot q)) now (c_Threshold c);
             q1 = q\<lparr>q_progress := p\<rparr>;
             q2 = (if \<not> ready then q1\<lparr>q_candidate := None, q_reported := False\<rparr> else q1)
         in bindE (modE (update_queue i (\<lambda>_. q2))) (\<lambda>_.
            if \<not> ready \<and> q_verification q2 = None then retE ()
            else bindE (attempt (confirm_queue h c t ctx now i used ready)) (\<lambda>r.
            case r of
              Inr _ \<Rightarrow> retE ()
            | Inl e \<Rightarrow>
                bindE (logV h ''queue_unavailable'' [(''vhost_fd'', JInt (q_fd q)), (''error'', JError e)]) (\<lambda>_.
                modE (\<lambda>v. (update_queue i (reset_queue now) v)\<lparr>bv_lastInventory := NInf\<rparr>))))))"

definition poll_batch :: "'w host \<Rightarrow> 'w Config \<Rightarrow> Target \<Rightarrow> nat \<Rightarrow> f64 \<Rightarrow> (event, bvars \<times> 'w, unit) io" where
  "poll_batch h c t ctx now =
    bindE getE (\<lambda>v.
    case bv_batch v of
      None \<Rightarrow> retE ()
    | Some b \<Rightarrow>
        bindE (liftE (RingBatch_Read h b)) (\<lambda>(err, b').
        bindE (modE (\<lambda>v. v\<lparr>bv_batch := Some b'\<rparr>)) (\<lambda>_.
        case err of
          Some e \<Rightarrow>
            bindE (logV h ''queue_unavailable'' [(''error'', JError e), (''scope'', JString ''ring_batch'')]) (\<lambda>_.
            modE (\<lambda>v. v\<lparr>bv_queues := map (reset_queue now) (bv_queues v), bv_lastInventory := NInf\<rparr>))
        | None \<Rightarrow> forE [0..<length (bv_queues v)] (poll_queue h c t ctx now b'))))"

text \<open>The rows of a summary are read live; a queue that cannot be read or changed is left out.\<close>

definition summary_row :: "'w host \<Rightarrow> Target \<Rightarrow> batchedQueue \<Rightarrow> (event, bvars \<times> 'w, unit) io" where
  "summary_row h t q =
    bindE (attempt (liftE (liveRow h t (q_fd q)))) (\<lambda>r.
    case r of
      Inl e \<Rightarrow> modE (\<lambda>v. v\<lparr>bv_lastInventory := NInf\<rparr>)
    | Inr (s, row) \<Rightarrow>
        if Identity s \<noteq> Identity (q_snapshot q) then modE (\<lambda>v. v\<lparr>bv_lastInventory := NInf\<rparr>)
        else modE (\<lambda>v. v\<lparr>bv_rows := bv_rows v @ [row]\<rparr>))"

definition bsummary_fields :: "bvars \<Rightarrow> fields" where
  "bsummary_fields v = [(''writes'', JInt (uint (bv_writes v))), (''queues'', JRows (bv_rows v))]"

definition summarise_batched :: "'w host \<Rightarrow> 'w Config \<Rightarrow> Target \<Rightarrow> f64 \<Rightarrow> (event, bvars \<times> 'w, unit) io" where
  "summarise_batched h c t now =
    bindE getE (\<lambda>v.
    if f64_le (c_SummaryInterval c) (f64_sub now (bv_lastSummary v))
    then bindE (modE (\<lambda>v. v\<lparr>bv_rows := []\<rparr>)) (\<lambda>_.
         bindE (forE (bv_queues v) (summary_row h t)) (\<lambda>_.
         bindE getE (\<lambda>v.
         bindE (logV h ''sample'' (bsummary_fields v @ [(''source'', JString ''live_snapshot'')])) (\<lambda>_.
         modE (\<lambda>v. v\<lparr>bv_lastSummary := now\<rparr>)))))
    else retE ())"

definition batched_tick ::
  "'w host \<Rightarrow> 'w Config \<Rightarrow> Target \<Rightarrow> nat \<Rightarrow> f64 \<Rightarrow> (event, bvars \<times> 'w, bool) io" where
  "batched_tick h c t ctx started =
    bindE (liftE (CtxErr h ctx)) (\<lambda>cerr.
    if cerr \<noteq> None then return_log
    else bindE (liftE (CheckAlive h t)) (\<lambda>alive.
    if \<not> alive then bindE (logV h ''target_exited'' []) (\<lambda>_. return_log)
    else bindE (liftE (monotonic h)) (\<lambda>now.
    if f64_lt (Fin 0) (c_Duration c) \<and> f64_le (c_Duration c) (f64_sub now started) then return_log
    else
      bindE (discover_queues h c t now) (\<lambda>_.
      bindE (poll_batch h c t ctx now) (\<lambda>_.
      bindE (summarise_batched h c t now) (\<lambda>_.
      bindE check_log (\<lambda>_.
      bindE (liftE (Select h ctx)) (\<lambda>fin.
      if fin then return_log else retE True))))))))"

fun batched_loop :: "nat \<Rightarrow> 'w host \<Rightarrow> 'w Config \<Rightarrow> Target \<Rightarrow> nat \<Rightarrow> f64 \<Rightarrow> (event, bvars \<times> 'w, unit) io" where
  "batched_loop 0 h c t ctx started = runningE"
| "batched_loop (Suc n) h c t ctx started =
    bindE (batched_tick h c t ctx started) (\<lambda>continue.
    if continue then batched_loop n h c t ctx started else retE ())"

definition runBatched :: "nat \<Rightarrow> 'w host \<Rightarrow> 'w Config \<Rightarrow> Target \<Rightarrow> nat \<Rightarrow> logger \<Rightarrow> (event, 'w, unit) io" where
  "runBatched n h c t ctx l =
    bindE (monotonic h) (\<lambda>started.
    localE (init_bvars l)
      (deferE
        (bindE (NewTicker (f64_to_int64 (f64_mul (c_Interval c) time_Second))) (\<lambda>_. batched_loop n h c t ctx started))
        (bindE getE (\<lambda>v. logV h ''stopped'' (bsummary_fields v)))))"

end
