(* ===== verification/Agent.thy ===== *)
theory Agent
  imports Batched
begin

unbundle bit_operations_syntax

text \<open>
  \<^verbatim>\<open>run\<close>, \<^verbatim>\<open>Run\<close> and \<^verbatim>\<open>RunWithBPF\<close> of \<^verbatim>\<open>internal/watch/run_linux.go\<close>: one worker from its
  configuration to its end, with everything it acquires and releases, and what holds of whole runs.
\<close>

section \<open>One worker\<close>

definition started_fields :: "'w Config \<Rightarrow> string \<Rightarrow> fields" where
  "started_fields c release =
    [(''implementation'', JString ''go''), (''mode'', JString (c_Mode c)), (''kernel'', JString release),
     (''interval'', JFloat (c_Interval c)), (''kick_interval'', JFloat (c_KickInterval c)),
     (''threshold'', JFloat (c_Threshold c)), (''inventory_interval'', JFloat (c_InventoryInterval c)),
     (''trace_stages'', JBool (c_TraceStages c)), (''batch_rings'', JBool (c_BatchRings c))]"

text \<open>With the target and the probes in place: rescue, or one of the two loops.\<close>

definition watch :: "nat \<Rightarrow> 'w host \<Rightarrow> 'w Config \<Rightarrow> nat \<Rightarrow> Target \<Rightarrow> BPF \<Rightarrow> (event, 'w, unit) io" where
  "watch n h c ctx t b =
    (let l = \<lparr>l_err = None, l_pid = c_PID c, l_domain = c_Domain c\<rparr> in
     if c_Rescue c then rescue h t (c_VhostFD c) l
     else bindE (Uname h) (\<lambda>release.
       bindE (emit h l ''started'' (started_fields c release)) (\<lambda>l.
       if c_BatchRings c then runBatched n h c t ctx l else run_queues n h c t b ctx l)))"

text \<open>The attached target: its identity is checked again, and the probes are loaded unless they are shared.\<close>

definition run_attached ::
  "nat \<Rightarrow> 'w host \<Rightarrow> 'w ebpf \<Rightarrow> 'w Config \<Rightarrow> nat \<Rightarrow> BPF option \<Rightarrow> Target \<Rightarrow> (event, 'w, unit) io" where
  "run_attached n h eb c ctx shared t =
    bindE (case c_CheckIdentity c of None \<Rightarrow> retE () | Some check \<Rightarrow> check) (\<lambda>_.
    case shared of
      Some b \<Rightarrow> watch n h c ctx t b
    | None \<Rightarrow> bindE (OpenBPF eb (c_BPFObject c) (c_TraceStages c)) (\<lambda>b.
        deferE (watch n h c ctx t b) (BPF_Close eb b)))"

definition run_target ::
  "nat \<Rightarrow> 'w host \<Rightarrow> 'w ebpf \<Rightarrow> 'w Config \<Rightarrow> nat \<Rightarrow> BPF option \<Rightarrow> (event, 'w, unit) io" where
  "run_target n h eb c ctx shared =
    bindE (OpenTarget h (c_PID c)) (\<lambda>t. deferE (run_attached n h eb c ctx shared t) (Target_Close h t))"

definition lock_path :: "'w Config \<Rightarrow> string" where
  "lock_path c = filepath_Join [c_StateDir c, Itoa (c_PID c) @ ''.lock'']"

definition run ::
  "nat \<Rightarrow> 'w host \<Rightarrow> 'w ebpf \<Rightarrow> 'w Config \<Rightarrow> nat \<Rightarrow> BPF option \<Rightarrow> (event, 'w, unit) io" where
  "run n h eb c ctx shared =
    bindE (checkE (Config_Validate c)) (\<lambda>_.
    if c_Rescue c then run_target n h eb c ctx shared
    else
      bindE (MkdirAll h (c_StateDir c)) (\<lambda>_.
      bindE (OpenFile h (lock_path c)) (\<lambda>lock.
      deferE
        (bindE (attempt (Flock h lock)) (\<lambda>r.
         case r of
           Inl e \<Rightarrow> failE (Wrap ''another agent owns this PID'' e)
         | Inr _ \<Rightarrow> run_target n h eb c ctx shared))
        (Close h lock))))"

definition watch_Run :: "nat \<Rightarrow> 'w host \<Rightarrow> 'w ebpf \<Rightarrow> 'w Config \<Rightarrow> nat \<Rightarrow> (event, 'w, unit) io" where
  "watch_Run n h eb c ctx = run n h eb c ctx None"

definition RunWithBPF ::
  "nat \<Rightarrow> 'w host \<Rightarrow> 'w ebpf \<Rightarrow> 'w Config \<Rightarrow> nat \<Rightarrow> BPF option \<Rightarrow> (event, 'w, unit) io" where
  "RunWithBPF n h eb c ctx shared =
    (if shared = None then failE (ErrorString ''shared BPF is required'') else run n h eb c ctx shared)"

section \<open>Descriptors\<close>

lemma log_neutral:
  "traces_if d neutral (logV h ev fs)" "traces_if d neutral check_log" "traces_if d neutral return_log"
  unfolding logV_def return_log_def check_log_def by (intro neutral.intros emit_neutral)+

lemma take_snapshot_neutral: "traces_if d neutral (take_snapshot h fd remoteFD)"
  unfolding take_snapshot_def by (intro neutral.intros Snapshot_neutral Forget_neutral)

lemma queue_steps_neutral:
  "traces_if d neutral (verify_kick h c now fd row)" "traces_if d neutral (report_stall h c now fd row)"
  "traces_if d neutral (refresh_events h t fd)" "traces_if d neutral (refresh_inventory h c t now)"
  "traces_if d neutral (forget_gone h seen)" "traces_if d neutral (summarise h c now)"
  unfolding verify_kick_def report_stall_def refresh_events_def refresh_inventory_def forget_gone_def summarise_def
  by (intro neutral.intros log_neutral Inventory_neutral Forget_neutral)+

lemma keeps_neutral [simp]: "keeps_fds e \<Longrightarrow> neutral [e]"
  by (simp add: neutral_def)

lemma kick_queue_neutral: "completes neutral (kick_queue h c t ctx now fd s row)"
  unfolding kick_queue_def
  by (intro neutral.intros log_neutral queue_steps_neutral rekick_current_neutral traces_calls) auto

lemma queue_row_neutral: "completes neutral (queue_row h c t b ctx now fd)"
  unfolding queue_row_def
  by (intro neutral.intros completes_scoped_lift Duplicate_acquires take_snapshot_neutral Ring_neutral Counters_neutral
      log_neutral queue_steps_neutral kick_queue_neutral)

lemma visit_queue_neutral: "completes neutral (visit_queue h c t b ctx now fd)"
  unfolding visit_queue_def by (intro neutral.intros queue_row_neutral log_neutral)

lemma run_loop_neutral: "completes neutral (run_loop n h c t b ctx started)"
proof (induction n)
  case (Suc n)
  have "completes neutral (run_tick h c t b ctx started)" unfolding run_tick_def
    by (intro neutral.intros log_neutral queue_steps_neutral visit_queue_neutral CheckAlive_neutral traces_calls traces_clock) auto
  with Suc show ?case by (auto intro!: neutral.intros)
qed (simp add: neutral.running)

lemma run_queues_neutral: "completes neutral (run_queues n h c t b ctx l)"
  unfolding run_queues_def by (intro neutral.intros run_loop_neutral log_neutral traces_clock) auto

lemma rescue_neutral: "completes neutral (rescue h t only l)"
  unfolding rescue_def rescue_one_def
  by (intro neutral.intros Inventory_neutral completes_scoped Duplicate_acquires Snapshot_neutral Rekick_neutral emit_neutral)

lemma discover_neutral: "completes neutral (discover_queues h c t now)"
  unfolding discover_queues_def rediscover_def
  by (intro neutral.intros log_neutral Inventory_neutral Forget_neutral liveRow_neutral)

lemma recover_queue_neutral: "completes neutral (recover_queue h c t ctx now i fd s row)"
  unfolding recover_queue_def report_batched_def
  by (intro neutral.intros log_neutral Inventory_neutral rekick_current_neutral traces_calls) auto

lemma poll_batch_neutral: "completes neutral (poll_batch h c t ctx now)"
  unfolding poll_batch_def poll_queue_def confirm_queue_def verify_batched_def
  by (intro neutral.intros log_neutral recover_queue_neutral liveRow_neutral Read_neutral)

lemma batched_loop_neutral: "completes neutral (batched_loop n h c t ctx started)"
proof (induction n)
  case (Suc n)
  have "completes neutral (summarise_batched h c t now)" for now unfolding summarise_batched_def summary_row_def
    by (intro neutral.intros log_neutral liveRow_neutral)
  then have "completes neutral (batched_tick h c t ctx started)" unfolding batched_tick_def
    by (intro neutral.intros log_neutral discover_neutral poll_batch_neutral CheckAlive_neutral traces_calls traces_clock) auto
  with Suc show ?case by (auto intro!: neutral.intros)
qed (simp add: neutral.running)

lemma runBatched_neutral: "completes neutral (runBatched n h c t ctx l)"
  unfolding runBatched_def by (intro neutral.intros batched_loop_neutral log_neutral traces_clock) auto

lemma watch_neutral: "completes neutral (watch n h c ctx t b)"
  unfolding watch_def
  by (intro neutral.intros rescue_neutral emit_neutral runBatched_neutral run_queues_neutral traces_calls) (auto simp: neutral_def)

lemma BPF_Close_neutral: "traces_if d neutral (BPF_Close eb b)"
  unfolding BPF_Close_def by (intro neutral.intros traces_calls) auto

lemma attach_probes_neutral: "traces_if d neutral (attach_probes eb ps b)"
  by (induction eb ps b rule: attach_probes.induct) (auto intro!: neutral.intros traces_calls)

lemma OpenBPF_neutral: "traces_if d neutral (OpenBPF eb path ts)"
  unfolding OpenBPF_def by (intro neutral.intros traces_calls BPF_Close_neutral attach_probes_neutral) auto

text \<open>What the worker relies on of the identity check it is given.\<close>

abbreviation identity_check :: "(event list \<Rightarrow> bool) \<Rightarrow> 'w Config \<Rightarrow> bool" where
  "identity_check P c \<equiv> (case c_CheckIdentity c of None \<Rightarrow> True | Some check \<Rightarrow> traces P check)"

lemma run_target_neutral: "identity_check neutral c \<Longrightarrow> completes neutral (run_target n h eb c ctx shared)"
proof -
  assume "identity_check neutral c"
  then have check: "completes neutral check" if "c_CheckIdentity c = Some check" for check
    using that by (auto intro: traces_imp)
  show ?thesis unfolding run_target_def run_attached_def Target_Close_def
    by (intro neutral.intros completes_scoped OpenTarget_acquires check watch_neutral OpenBPF_neutral BPF_Close_neutral)
qed

lemma run_neutral: "identity_check neutral c \<Longrightarrow> completes neutral (run n h eb c ctx shared)"
  unfolding run_def
  by (intro neutral.intros completes_scoped [where f = "\<lambda>f. f"] acquires_call run_target_neutral traces_calls) auto

text \<open>
  C4. A worker that has ended, in whatever way, has closed every descriptor it opened (the lock, the pidfd and
  all duplicates taken from QEMU, on every round), and has never closed one that was not its own.
\<close>

theorem run_returns_every_descriptor:
  assumes "run n h eb c ctx shared w = (r, es, w')" and "r \<noteq> Running" and "identity_check neutral c"
  shows "fds es M = Some M"
  using traces_ifD [OF run_neutral [OF assms(3)] assms(1)] assms(2) by (simp add: neutral_def)

section \<open>Writes\<close>

lemma log_calm:
  "traces (list_all calm) (logV h ev fs)" "traces (list_all calm) check_log" "traces (list_all calm) return_log"
  unfolding logV_def return_log_def check_log_def by (intro every_call.intros emit_calm)+

lemma take_snapshot_calm: "traces (list_all calm) (take_snapshot h fd remoteFD)"
  unfolding take_snapshot_def by (intro every_call.intros calm_calls)

lemma queue_steps_calm:
  "traces (list_all calm) (verify_kick h c now fd row)" "traces (list_all calm) (report_stall h c now fd row)"
  "traces (list_all calm) (refresh_events h t fd)" "traces (list_all calm) (refresh_inventory h c t now)"
  "traces (list_all calm) (forget_gone h seen)" "traces (list_all calm) (summarise h c now)"
  unfolding verify_kick_def report_stall_def refresh_events_def refresh_inventory_def forget_gone_def summarise_def
  by (intro every_call.intros log_calm calm_calls)+

lemmas log_idle = log_calm [THEN idle_of_calm]
lemmas queue_steps_idle = queue_steps_calm [THEN idle_of_calm]
lemmas take_snapshot_idle = take_snapshot_calm [THEN idle_of_calm]

lemma BPF_Close_idle: "traces (list_all idle) (BPF_Close eb b)"
  unfolding BPF_Close_def by (intro every_call.intros traces_calls) auto

lemma attach_probes_idle: "traces (list_all idle) (attach_probes eb ps b)"
  by (induction eb ps b rule: attach_probes.induct) (auto intro!: every_call.intros traces_calls)

lemma OpenBPF_idle: "traces (list_all idle) (OpenBPF eb path ts)"
  unfolding OpenBPF_def by (intro every_call.intros traces_calls BPF_Close_idle attach_probes_idle) auto

lemma kick_queue_observe:
  "c_Mode c = ''observe'' \<Longrightarrow> traces (list_all idle) (kick_queue h c t ctx now fd s row)"
  unfolding kick_queue_def by (auto simp: kick_due_def intro!: every_call.intros)

text \<open>
  Everything of the loops but the kick and the clock is calm, so a property of call lists that holds of calm lists and
  of kicks holds of everything within a round, and if it holds of readings of the clock, of whole loops.
\<close>

locale calm_property = trace_property P for P :: "event list \<Rightarrow> bool" +
  assumes calm: "list_all calm es \<Longrightarrow> P es"
begin

lemma of_calm: "traces (list_all Live.calm) m \<Longrightarrow> traces P m"
  by (erule traces_imp) (rule calm)

lemma call: "Live.calm e \<Longrightarrow> P [e]"
  by (rule calm) simp

lemmas calm_parts = log_calm [THEN of_calm] queue_steps_calm [THEN of_calm] take_snapshot_calm [THEN of_calm]
  calm_calls [THEN of_calm]

lemma kick_queue:
  "(\<And>fd s events. traces P (rekick_current h t fd s events)) \<Longrightarrow> traces P (kick_queue h c t ctx now fd s row)"
  unfolding kick_queue_def by (intro intros calm_parts traces_calls) (auto intro: call)

lemma visit_queue:
  "(\<And>s row. traces P (kick_queue h c t ctx now fd s row)) \<Longrightarrow> traces P (visit_queue h c t b ctx now fd)"
  unfolding visit_queue_def queue_row_def by (intro intros calm_parts traces_calls) (auto intro: call)

lemma run_queues:
  assumes "\<And>now fd s row. traces P (kick_queue h c t ctx now fd s row)" and "traces P (monotonic h)"
  shows "traces P (run_queues n h c t b ctx l)"
proof -
  have t: "traces P (run_tick h c t b ctx started)" for started unfolding run_tick_def
    by (intro intros visit_queue assms calm_parts traces_calls) (auto intro: call)
  have "traces P (run_loop n h c t b ctx started)" for started
    by (induction n) (use t in \<open>auto intro!: intros\<close>)
  then show ?thesis unfolding run_queues_def by (intro intros calm_parts assms(2))
qed

lemma recover_queue:
  "(\<And>fd s events. traces P (rekick_current h t fd s events)) \<Longrightarrow> traces P (recover_queue h c t ctx now i fd s row)"
  unfolding recover_queue_def report_batched_def by (intro intros calm_parts traces_calls) (auto intro: call)

lemma discover_queues: "traces P (discover_queues h c t now)"
  unfolding discover_queues_def rediscover_def by (intro intros calm_parts)

lemma summarise_batched: "traces P (summarise_batched h c t now)"
  unfolding summarise_batched_def summary_row_def by (intro intros calm_parts)

lemma poll_batch:
  "(\<And>now i fd s row. traces P (recover_queue h c t ctx now i fd s row)) \<Longrightarrow> traces P (poll_batch h c t ctx now)"
  unfolding poll_batch_def poll_queue_def confirm_queue_def verify_batched_def by (intro intros calm_parts)

lemma runBatched:
  assumes "\<And>now i fd s row. traces P (recover_queue h c t ctx now i fd s row)" and "traces P (monotonic h)"
  shows "traces P (runBatched n h c t ctx l)"
proof -
  have t: "traces P (batched_tick h c t ctx started)" for started
    unfolding batched_tick_def by (intro intros calm_parts discover_queues summarise_batched poll_batch assms traces_calls) (auto intro: call)
  have "traces P (batched_loop n h c t ctx started)" for started
    by (induction n) (use t in \<open>auto intro!: intros\<close>)
  then show ?thesis unfolding runBatched_def by (intro intros calm_parts assms(2))
qed

lemma rescue:
  "(\<And>fd s events. traces P (Rekick h (recovery_of h t) (BPF_Snapshot h) fd s events)) \<Longrightarrow> traces P (rescue h t only l)"
  unfolding rescue_def rescue_one_def by (intro intros calm_parts traces_calls) (auto intro: call)

lemma run_shared:
  assumes "identity_check P c" and "\<And>t b. traces P (watch n h c ctx t b)"
    and "\<And>t. shared = None \<Longrightarrow> traces P (bindE (OpenBPF eb (c_BPFObject c) (c_TraceStages c)) (\<lambda>b.
        deferE (watch n h c ctx t b) (BPF_Close eb b)))"
  shows "traces P (run n h eb c ctx shared)"
proof -
  have c: "traces P check" if "c_CheckIdentity c = Some check" for check using assms(1) that by simp
  have a: "traces P (run_attached n h eb c ctx shared t)" for t unfolding run_attached_def
  proof (rule bind)
    show "traces P (case c_CheckIdentity c of None \<Rightarrow> retE () | Some check \<Rightarrow> check)" by (intro case_option ret c)
  qed (cases shared; simp add: assms(2,3))
  have t: "traces P (run_target n h eb c ctx shared)" unfolding run_target_def Target_Close_def
    by (intro intros a calm_parts traces_calls) (auto intro: call)
  show ?thesis unfolding run_def by (intro intros t traces_calls) (auto intro: call)
qed

end

text \<open>If it also holds of the calls that load and unload the probes, it holds of whole runs.\<close>

locale idle_property = trace_property P for P :: "event list \<Rightarrow> bool" +
  assumes idle: "list_all idle es \<Longrightarrow> P es"

sublocale idle_property \<subseteq> calm_property
  by unfold_locales (auto intro: idle simp: list_all_iff)

context idle_property
begin

lemma of_idle: "traces (list_all Live.idle) m \<Longrightarrow> traces P m"
  by (erule traces_imp) (rule idle)

lemmas parts = calm_parts BPF_Close_idle [THEN of_idle] OpenBPF_idle [THEN of_idle]

lemma run:
  assumes "identity_check P c" and "\<And>t b. traces P (watch n h c ctx t b)"
  shows "traces P (run n h eb c ctx shared)"
  by (intro run_shared assms intros parts)

end

interpretation verified_kicks: idle_property only_verified_kicks
  by unfold_locales (auto intro!: verified_quiet elim!: list.pred_mono_strong idle_quiet)

interpretation no_writes: idle_property "list_all quiet"
  by unfold_locales (auto elim!: list.pred_mono_strong idle_quiet)

lemma watch_verified: "traces only_verified_kicks (watch n h c ctx t b)"
  unfolding watch_def
  by (intro verified.intros verified_kicks.rescue Rekick_verified verified_kicks.runBatched verified_kicks.recover_queue
      verified_kicks.run_queues verified_kicks.kick_queue rekick_current_verified verified_kicks.of_idle [OF emit_idle]
      traces_calls traces_clock) (auto intro: only_verified_kicks.none verified_quiet)

text \<open>
  C2. Whatever the configuration, the mode and the environment, and however long it has been going: every write a worker makes
  belongs to a kick that was fully verified (the eventfd pinned and identified by its own duplicate, non-blocking, a
  fresh valid snapshot of the same attachment, the process alive), and writes the number one.
\<close>

theorem run_writes_only_verified_kicks:
  assumes "run n h eb c ctx shared w = (r, es, w')" and "identity_check (list_all idle) c"
  shows "only_verified_kicks es"
proof -
  have i: "identity_check only_verified_kicks c" using assms(2)
    by (auto split: option.splits intro: verified_kicks.of_idle)
  have "traces only_verified_kicks (run n h eb c ctx shared)" by (rule verified_kicks.run [OF i watch_verified])
  then show ?thesis using assms(1) by (auto dest: traces_ifD)
qed

lemma observe_quiet:
  assumes "c_Mode c = ''observe''" and "\<not> c_Rescue c" and "identity_check (list_all idle) c"
  shows "traces (list_all quiet) (run n h eb c ctx shared)"
proof (cases "c_BatchRings c")
  case True
  then have "Config_Validate c \<noteq> None" using assms(1) by (simp add: Config_Validate_def)
  then show ?thesis by (auto simp: traces_if_def run_def checkE_def)
next
  case False
  have i: "identity_check (list_all quiet) c" using assms(3)
    by (auto split: option.splits intro: no_writes.of_idle)
  have "traces (list_all quiet) (watch n h c ctx t b)" for t b
    unfolding watch_def using assms(2) False
    by (auto simp: Let_def intro!: every_call.intros traces_calls traces_clock emit_quiet no_writes.run_queues
        no_writes.of_idle [OF kick_queue_observe] assms(1))
  then show ?thesis by (rule no_writes.run [OF i])
qed

text \<open>
  C6. A worker in the observe mode never writes to a descriptor.
\<close>

theorem observe_mode_never_writes:
  assumes "run n h eb c ctx shared w = (r, es, w')" and "c_Mode c = ''observe''" and "\<not> c_Rescue c"
    and "identity_check (list_all idle) c"
  shows "EWrite fd d res \<notin> set es"
  using traces_ifD [OF observe_quiet [OF assms(2-4)] assms(1)] by (auto simp: list_all_iff)

section \<open>The lock\<close>

fun lock_call :: "event \<Rightarrow> bool" where
  "lock_call (EMkdirAll _ _) = True"
| "lock_call (EOpen _ _) = True"
| "lock_call (EFlock _ _) = True"
| "lock_call (EClose _) = True"
| "lock_call _ = False"

text \<open>
  C5. Only the holder of the lock touches the process: a worker that is not a rescue either has locked the lock file
  of its PID before anything else, and keeps it until its very last call, or it fails having made no call but those for the
  lock.
\<close>

theorem lock_guards_target:
  assumes "run n h eb c ctx shared w = (r, es, w')" and "\<not> c_Rescue c"
  shows "(\<exists>lock es'. es = [EMkdirAll (c_StateDir c) None, EOpen (lock_path c) (Inr lock), EFlock lock None] @ es' \<and>
      (r = Running \<or> last es = EClose lock)) \<or> list_all lock_call es \<and> (\<exists>e. r = Err e)"
proof -
  have "ensures_at (run n h eb c ctx shared) w (\<lambda>r es w'.
      (\<exists>lock es'. es = [EMkdirAll (c_StateDir c) None, EOpen (lock_path c) (Inr lock), EFlock lock None] @ es' \<and>
      (r = Running \<or> last es = EClose lock)) \<or> list_all lock_call es \<and> (\<exists>e. r = Err e))"
  proof (cases "Config_Validate c")
    case (Some e)
    then show ?thesis by (simp add: run_def ensures_at_rules)
  next
    case None
    obtain a w1 where m: "h_MkdirAll h (c_StateDir c) w = (a, w1)" by fastforce
    obtain b w2 where o: "h_OpenFile h (lock_path c) w1 = (b, w2)" by fastforce
    obtain f w3 where f: "h_Flock h (projr b) w2 = (f, w3)" by fastforce
    show ?thesis using None assms(2) m o f
      by (cases a; cases b; cases f) (auto simp: run_def ensures_at_rules ensures_at_calls
        ensures_at_def [of "run_target n h eb c ctx shared"] split: prod.split outcome.split)
  qed
  then show ?thesis using assms(1) by (simp add: ensures_at_def)
qed

section \<open>A machine to run on\<close>

text \<open>
  Process 7 is QEMU; its descriptor 42 is a vhost file whose queue is stuck, its descriptor 66 the kick eventfd.
\<close>

definition qemu_host :: "unit host" where
  "qemu_host = demo_host
    \<lparr>h_ReadFile := (\<lambda>p w. (Inr (if p = ''/proc/7/comm'' then ''qemu-system-x86'' else ''eventfd-id: 0''), w)),
     h_ReadDir := (\<lambda>p w. (Inr [(''42'', False), (''66'', False)], w)),
     h_Readlink := (\<lambda>p w. (Inr (if p = ''/proc/7/fd/66'' then ''anon_inode:[eventfd]'' else ''/dev/vhost-net''), w)),
     h_ClockGettime := (\<lambda>w. (Inr (100, 0), w))\<rparr>"

definition qemu_config :: "unit Config" where
  "qemu_config = \<lparr>c_PID = 7, c_Mode = ''guarded'', c_StateDir = ''/s'', c_BPFObject = ''b'', c_Interval = Fin 1,
     c_Threshold = Fin 3, c_Cooldown = Fin 30, c_KickInterval = Fin 1, c_VerifyTimeout = Fin 5, c_SummaryInterval = Fin 5,
     c_Duration = Fin 0, c_MaxRecoveries = 3, c_Rescue = False, c_VhostFD = -1, c_InventoryInterval = Fin 1,
     c_TraceStages = False, c_BatchRings = False, c_Domain = '''', c_CheckIdentity = None\<rparr>"

definition qemu_bpf :: BPF where
  "qemu_bpf = \<lparr>b_collection = 0, b_links = [], b_traceStages = False\<rparr>"

lemma qemu_Itoa: "Itoa 7 = ''7''" "Itoa 66 = ''66''" "Itoa 42 = ''42''"
  by (simp_all add: Itoa_def nat_str.simps digit_def char_of_def bit_0)

lemma qemu_Atoi: "Atoi ''42'' = Inr 42" "Atoi ''66'' = Inr 66"
  using Atoi_Itoa [of 42] Atoi_Itoa [of 66] by (simp_all add: qemu_Itoa)

lemma demo_fdinfo: "find_eventfd_id [''eventfd-id: 0''] = Inr 0"
  using demo_eventfd_id by (simp add: Split_def)

lemmas io_execs = bindE_def attempt_def callE_def callO_def callU_def callV_def retE_def failE_def deferE_def checkE_def
  liftE_def getE_def modE_def localE_def clock_def

definition qemu_events :: eventmap where
  "qemu_events = (\<lambda>_. [])(0 := [66])"

lemma qemu_inventory: "\<exists>es. Inventory qemu_host \<lparr>t_PID = 7, t_pidfd = 5\<rparr> w = (Ok ([42], qemu_events), es, w)"
  using demo_eventfd_id
  by (simp add: Inventory_def inventory_entry_def eventID_def qemu_host_def demo_host_def qemu_Itoa qemu_Atoi io_execs qemu_events_def)

lemma qemu_open: "\<exists>es. OpenTarget qemu_host 7 w = (Ok \<lparr>t_PID = 7, t_pidfd = 5\<rparr>, es, w)"
  by (simp add: OpenTarget_def Alive_def CheckAlive_def qemu_host_def demo_host_def idle_host_def qemu_Itoa io_execs HasPrefix_def Let_def)

lemma qemu_snapshot: "\<exists>es. BPF_Snapshot qemu_host fd w = (Ok demo_snapshot, es, w)"
  using demo_snapshot_valid
  by (simp add: BPF_Snapshot_def qemu_host_def demo_host_def io_execs demo_snapshot_def)

lemma qemu_valid: "Config_Validate qemu_config = None"
  by code_simp

section \<open>A cancelled run\<close>

definition cancelled_host :: "unit host" where
  "cancelled_host = qemu_host\<lparr>h_CtxErr := (\<lambda>c w. (Some (ErrorString ''context canceled''), w))\<rparr>"

lemma cancelled_calls [simp]:
  "h_CtxErr cancelled_host ctx w = (Some (ErrorString ''context canceled''), w)"
  "h_ClockGettime cancelled_host w = (Inr (100, 0), w)" "h_UnixNano cancelled_host w = (0, w)"
  "h_Encode cancelled_host fs w = (None, w)" "h_Uname cancelled_host w = (''6.8'', w)"
  "h_MkdirAll cancelled_host p w = (None, w)" "h_OpenFile cancelled_host p w = (Inr 3, w)"
  "h_Flock cancelled_host fd w = (None, w)" "h_Close cancelled_host fd w = w"
  "h_PidfdOpen cancelled_host pid w = (Inr 5, w)" "h_Poll cancelled_host fd w = (Inr (0, 0), w)" "h_polls cancelled_host = 1"
  "h_ReadFile cancelled_host p w = (Inr (if p = ''/proc/7/comm'' then ''qemu-system-x86'' else ''eventfd-id: 0''), w)"
  by (simp_all add: cancelled_host_def qemu_host_def demo_host_def idle_host_def)

lemma cancelled_open:
  "OpenTarget cancelled_host 7 w = (Ok \<lparr>t_PID = 7, t_pidfd = 5\<rparr>,
     [EPidfdOpen 7 (Inr 5), EReadFile ''/proc/7/comm'' (Inr ''qemu-system-x86''), EPoll 5 (Inr (0,0))], w)"
  by (simp add: OpenTarget_def Alive_def CheckAlive_def qemu_Itoa io_execs HasPrefix_def Let_def)

lemma cancelled_emit: "l_err l = None \<Longrightarrow> \<exists>fs'. emit cancelled_host l ev fs w = (Ok l, [EEncode fs' None], w)"
  by (simp add: emit_def io_execs Let_def)

lemma cancelled_loop:
  "l_err l = None \<Longrightarrow> Config_Validate c = None \<Longrightarrow> \<exists>fs. run_queues 1 cancelled_host c t b ctx l w =
     (Ok (), [EClock (Inr (100,0)), ECtxErr ctx (Some (ErrorString ''context canceled'')), EEncode fs None], w)"
  using cancelled_emit [of l "''stopped''" "summary_fields (init_vars l)" w]
  by (auto simp: run_queues_def valid_ticker run_tick_def return_log_def check_log_def logV_def io_execs init_vars_def)

lemma cancelled_run:
  assumes "Config_Validate c = None" "c_PID c = 7" "\<not> c_Rescue c" "\<not> c_BatchRings c" "c_CheckIdentity c = None"
  shows "\<exists>fs fs'. run 1 cancelled_host eb c 0 (Some b) () = (Ok (), [EMkdirAll (c_StateDir c) None, EOpen (lock_path c) (Inr 3), EFlock 3 None,
     EPidfdOpen 7 (Inr 5), EReadFile ''/proc/7/comm'' (Inr ''qemu-system-x86''), EPoll 5 (Inr (0,0)), EEncode fs None,
     EClock (Inr (100,0)), ECtxErr 0 (Some (ErrorString ''context canceled'')), EEncode fs' None, EClose 5, EClose 3], ())"
proof -
  let ?l = "\<lparr>l_err = None, l_pid = c_PID c, l_domain = c_Domain c\<rparr>"
  obtain fs where e: "emit cancelled_host ?l ''started'' (started_fields c ''6.8'') () = (Ok ?l, [EEncode fs None], ())"
    using cancelled_emit [of ?l] by fastforce
  obtain fs' where q: "run_queues 1 cancelled_host c \<lparr>t_PID = 7, t_pidfd = 5\<rparr> b 0 ?l () =
     (Ok (), [EClock (Inr (100,0)), ECtxErr 0 (Some (ErrorString ''context canceled'')), EEncode fs' None], ())"
    using cancelled_loop [of ?l, OF _ assms(1)] by fastforce
  show ?thesis using assms e q cancelled_open [of "()"]
    by (auto simp: run_def run_target_def run_attached_def watch_def Target_Close_def io_execs Let_def)
qed

definition qemu_ebpf :: "unit ebpf" where
  "qemu_ebpf = \<lparr>e_RemoveMemlock = (\<lambda>w. (Inr 0, w)), e_LoadCollectionSpec = (\<lambda>p w. (Inr 0, w)),
     e_NewCollection = (\<lambda>s w. (Inr 0, w)), e_MapValueSize = (\<lambda>c. map_of wire_layout), e_HasProgram = (\<lambda>c n. True),
     e_Getpid = 1, e_OwnerUpdate = (\<lambda>c p w. (None, w)), e_Attach = (\<lambda>r s n w. (Inr 0, w)),
     e_CloseLink = (\<lambda>l w. w), e_CloseCollection = (\<lambda>c w. w)\<rparr>"

abbreviation cancelled_qemu :: "unit Config \<Rightarrow> unit outcome \<times> event list \<times> unit" where
  "cancelled_qemu c \<equiv> run 1 cancelled_host qemu_ebpf c 0 (Some qemu_bpf) ()"

lemma qemu_config_run:
  "c_PID qemu_config = 7" "\<not> c_Rescue qemu_config" "\<not> c_BatchRings qemu_config" "c_CheckIdentity qemu_config = None"
  "c_Mode qemu_config = ''guarded''"
  by (simp_all add: qemu_config_def)

lemmas qemu_cancelled = cancelled_run [OF qemu_valid qemu_config_run(1-4), of qemu_ebpf qemu_bpf]

theorem run_returns_every_descriptor_witness:
  "\<exists>es. cancelled_qemu qemu_config = (Ok (), es, ()) \<and> EOpen (lock_path qemu_config) (Inr 3) \<in> set es \<and>
     fds es {#7#} = Some {#7#}"
proof -
  obtain es where r: "cancelled_qemu qemu_config = (Ok (), es, ())" and o: "EOpen (lock_path qemu_config) (Inr 3) \<in> set es"
    using qemu_cancelled by fastforce
  show ?thesis using r o run_returns_every_descriptor [OF r, of "{#7#}"] by (simp add: qemu_config_run)
qed

text \<open>A rescue of the machine's one queue.\<close>

abbreviation rescue_config :: "unit Config" where
  "rescue_config \<equiv> qemu_config\<lparr>c_Rescue := True\<rparr>"

lemma rescue_valid: "Config_Validate rescue_config = None"
  by code_simp

lemma qemu_kick:
  "\<exists>es. Rekick qemu_host (recovery_of qemu_host \<lparr>t_PID = 7, t_pidfd = 5\<rparr>) (BPF_Snapshot qemu_host) 9 demo_snapshot qemu_events w =
     (Ok (), es, w) \<and> EWrite 9 (put_u64 1) (Inr 8) \<in> set es"
  using demo_snapshot_valid demo_eventfd_id
  by (simp add: Rekick_def recovery_of_def Duplicate_def Alive_def CheckAlive_def eventID_def BPF_Snapshot_def qemu_host_def
      demo_host_def idle_host_def io_execs Let_def qemu_events_def demo_snapshot_def stuck_snapshot_def zero_Snapshot_def)

lemma qemu_rescued:
  "\<exists>es. run 1 qemu_host qemu_ebpf rescue_config 0 (Some qemu_bpf) () = (Ok (), es, ()) \<and> EWrite 9 (put_u64 1) (Inr 8) \<in> set es"
proof -
  let ?t = "\<lparr>t_PID = 7, t_pidfd = 5\<rparr>" and ?l = "\<lparr>l_err = None, l_pid = 7, l_domain = ''''\<rparr>"
  have e: "\<exists>fs. emit qemu_host ?l ev row () = (Ok ?l, [EEncode fs None], ())" for ev row
    by (simp add: emit_def qemu_host_def demo_host_def idle_host_def io_execs Let_def)
  have d: "Duplicate qemu_host ?t 42 () = (Ok 9, [EPidfdGetfd 5 42 (Inr 9)], ())"
    by (simp add: Duplicate_def qemu_host_def demo_host_def io_execs)
  have o: "\<exists>es. rescue_one qemu_host ?t qemu_events 42 ?l () = (Ok ?l, es, ()) \<and> EWrite 9 (put_u64 1) (Inr 8) \<in> set es"
  proof -
    let ?row = "[(''vhost_fd'', JInt 42), (''eventfd_id'', JInt (uint (sn_EventID demo_snapshot))), (''implementation'', JString ''go'')]"
    obtain es1 where 1: "BPF_Snapshot qemu_host 9 () = (Ok demo_snapshot, es1, ())" using qemu_snapshot by blast
    obtain es2 where 2: "Rekick qemu_host (recovery_of qemu_host ?t) (BPF_Snapshot qemu_host) 9 demo_snapshot qemu_events () =
       (Ok (), es2, ())" "EWrite 9 (put_u64 1) (Inr 8) \<in> set es2" using qemu_kick by blast
    obtain fs where 3: "emit qemu_host ?l ''rescue_kick'' ?row () = (Ok ?l, [EEncode fs None], ())" using e by blast
    show ?thesis using d 1 2 3 by (simp add: rescue_one_def bindE_def deferE_def checkE_def retE_def callU_def)
  qed
  have r: "\<exists>es. rescue qemu_host ?t (-1) ?l () = (Ok (), es, ()) \<and> EWrite 9 (put_u64 1) (Inr 8) \<in> set es"
    using o qemu_inventory [of "()"] by (fastforce simp: rescue_def bindE_def retE_def)
  show ?thesis using r qemu_open [of "()"] rescue_valid
    by (auto simp: run_def run_target_def run_attached_def watch_def Target_Close_def io_execs Let_def qemu_config_def qemu_host_def
        demo_host_def idle_host_def)
qed

theorem run_writes_only_verified_kicks_witness:
  "\<exists>es. run 1 qemu_host qemu_ebpf rescue_config 0 (Some qemu_bpf) () = (Ok (), es, ()) \<and>
     EWrite 9 (put_u64 1) (Inr 8) \<in> set es \<and> only_verified_kicks es"
proof -
  obtain es where r: "run 1 qemu_host qemu_ebpf rescue_config 0 (Some qemu_bpf) () = (Ok (), es, ())"
    and w: "EWrite 9 (put_u64 1) (Inr 8) \<in> set es" using qemu_rescued by blast
  show ?thesis using r w run_writes_only_verified_kicks [OF r] by (simp add: qemu_config_run)
qed

theorem lock_guards_target_witness:
  "\<exists>lock es. cancelled_qemu qemu_config = (Ok (), es, ()) \<and> take 3 es =
     [EMkdirAll (c_StateDir qemu_config) None, EOpen (lock_path qemu_config) (Inr lock), EFlock lock None] \<and> last es = EClose lock"
proof -
  obtain es where r: "cancelled_qemu qemu_config = (Ok (), es, ())" using qemu_cancelled by fastforce
  show ?thesis using r lock_guards_target [OF r] by (auto simp: qemu_config_run)
qed

lemma observe_valid: "Config_Validate (qemu_config\<lparr>c_Mode := ''observe''\<rparr>) = None"
  by code_simp

theorem observe_mode_never_writes_witness:
  "\<exists>es. cancelled_qemu (qemu_config\<lparr>c_Mode := ''observe''\<rparr>) = (Ok (), es, ()) \<and> EWrite 9 (put_u64 1) (Inr 8) \<notin> set es"
proof -
  obtain es where r: "cancelled_qemu (qemu_config\<lparr>c_Mode := ''observe''\<rparr>) = (Ok (), es, ())"
    using cancelled_run [OF observe_valid, of qemu_ebpf qemu_bpf] by (fastforce simp: qemu_config_run)
  show ?thesis using r observe_mode_never_writes [OF r] by (auto simp: qemu_config_run)
qed

end
