(* ===== verification/Selection.thy ===== *)
theory Selection
  imports Descriptors Go_Strings
begin

text \<open>
  \<^verbatim>\<open>internal/selection/selection.go\<close>: from explicit PIDs and libvirt runtime files to the QEMU
  processes to watch.  \<^verbatim>\<open>regexp.Compile\<close> and the XML decoder are parameters; a compiled
  expression is the predicate it decides.  The maps of the code are association lists; where the code iterates
  over one, the result is shown not to depend on the order.
\<close>

record selection_Target =
  st_PID :: int
  st_StartTime :: string
  st_Domain :: string
  st_UUID :: string

definition Key :: "selection_Target \<Rightarrow> string" where
  "Key t = Itoa (st_PID t) @ '':'' @ st_StartTime t"

record Selector =
  s_PIDs :: "int list"
  s_Pattern :: string
  s_ProcRoot :: string
  s_LibvirtDir :: string
  s_anchored :: "(int \<times> string) list"
  s_re :: "(string \<Rightarrow> bool) option"

definition New ::
  "(string \<Rightarrow> error + (string \<Rightarrow> bool)) \<Rightarrow> int list \<Rightarrow> string \<Rightarrow> string \<Rightarrow> string \<Rightarrow> error + Selector" where
  "New Compile pids pattern procRoot libvirtDir =
    (if length pids = 0 \<and> pattern = '''' then Inl (ErrorString ''provide --pid or --domain-regex'')
     else if list_ex (\<lambda>pid. pid \<le> 0) pids then Inl (ErrorString ''PIDs must be positive'')
     else
       let sel = (\<lambda>re. \<lparr>s_PIDs = pids, s_Pattern = pattern, s_ProcRoot = procRoot, s_LibvirtDir = libvirtDir,
                        s_anchored = [], s_re = re\<rparr>)
       in if pattern \<noteq> ''''
          then (case Compile pattern of Inl e \<Rightarrow> Inl (Wrap ''domain regex'' e) | Inr re \<Rightarrow> Inr (sel (Some re)))
          else Inr (sel None))"

section \<open>One process\<close>

text \<open>The start time in the text of a \<^verbatim>\<open>stat\<close> file: the 20th field after the command name.\<close>

definition stat_start :: "string \<Rightarrow> error + string" where
  "stat_start stat =
    (let en = LastIndexByte stat (CHR '')'') in
     if en < 0 then Inl (ErrorString ''invalid process stat'')
     else let fields = Fields (drop (nat (en + 1)) stat) in
       if length fields < 20 then Inl (ErrorString ''incomplete process stat'')
       else (case ParseUint (fields ! 19) 64 of Inl e \<Rightarrow> Inl e | Inr _ \<Rightarrow> Inr (fields ! 19)))"

text \<open>The loop over the arguments: the value after the last \<^verbatim>\<open>-uuid\<close> that has one.\<close>

fun scan_uuid :: "string list \<Rightarrow> string \<Rightarrow> string" where
  "scan_uuid (a # b # rest) uuid = scan_uuid (b # rest) (if a = ''-uuid'' then ToLower b else uuid)"
| "scan_uuid _ uuid = uuid"

definition process :: "'w host \<Rightarrow> Selector \<Rightarrow> int \<Rightarrow> (event, 'w, selection_Target) io" where
  "process h s pid =
    (let root = filepath_Join [s_ProcRoot s, Itoa pid] in
     bindE (ReadFile h (filepath_Join [root, ''comm''])) (\<lambda>comm.
     if \<not> HasPrefix (TrimSpace comm) ''qemu-system'' then failE (ErrorString ''process is not QEMU'')
     else bindE (ReadFile h (filepath_Join [root, ''stat''])) (\<lambda>stat.
     case stat_start stat of
       Inl e \<Rightarrow> failE e
     | Inr start \<Rightarrow>
         bindE (ReadFile h (filepath_Join [root, ''cmdline''])) (\<lambda>args.
         retE \<lparr>st_PID = pid, st_StartTime = start, st_Domain = '''', st_UUID = scan_uuid (Split args (CHR 0x00)) ''''\<rparr>))))"

definition Check :: "'w host \<Rightarrow> Selector \<Rightarrow> selection_Target \<Rightarrow> (event, 'w, unit) io" where
  "Check h s t =
    bindE (process h s (st_PID t)) (\<lambda>current.
    if st_StartTime current \<noteq> st_StartTime t \<or> st_UUID current \<noteq> st_UUID t
    then failE (ErrorString ''QEMU identity changed after selection'') else retE ())"

section \<open>Domains\<close>

definition readDomain :: "'w host \<Rightarrow> string \<Rightarrow> (event, 'w, domainStatus) io" where
  "readDomain h path =
    bindE (OpenFile h path) (\<lambda>f.
    deferE
      (bindE (DecodeXML h f 4194304) (\<lambda>d.
       if ds_Name d = '''' \<or> ds_PID d \<le> 0 then failE (ErrorString ''missing domain name or PID'') else retE d))
      (Close h f))"

section \<open>The selection\<close>

text \<open>The variables of \<^verbatim>\<open>Resolve\<close>: the anchors (a field of the selector), the targets found by PID, the problems.\<close>

record resolution =
  r_anchored :: "(int \<times> string) list"
  r_found :: "(int \<times> selection_Target) list"
  r_problems :: "error list"

definition add_problem :: "error \<Rightarrow> resolution \<Rightarrow> resolution" where
  "add_problem e r = r\<lparr>r_problems := r_problems r @ [e]\<rparr>"

definition resolve_pid :: "'w host \<Rightarrow> Selector \<Rightarrow> int \<Rightarrow> resolution \<Rightarrow> (event, 'w, resolution) io" where
  "resolve_pid h s pid r =
    bindE (attempt (process h s pid)) (\<lambda>p.
    case p of
      Inl e \<Rightarrow> retE (add_problem (Wrap (''PID '' @ Itoa pid) e) r)
    | Inr t \<Rightarrow>
        (case map_of (r_anchored r) pid of
           Some start \<Rightarrow>
             if start \<noteq> st_StartTime t
             then retE (add_problem (ErrorString (''PID '' @ Itoa pid @
                    '' was reused; select its new domain or restart with the new PID'')) r)
             else retE (r\<lparr>r_anchored := AList.update pid (st_StartTime t) (r_anchored r),
                          r_found := AList.update pid t (r_found r)\<rparr>)
         | None \<Rightarrow> retE (r\<lparr>r_anchored := AList.update pid (st_StartTime t) (r_anchored r),
                            r_found := AList.update pid t (r_found r)\<rparr>)))"

text \<open>A matching running domain: its process must carry its UUID.\<close>

definition resolve_domain :: "'w host \<Rightarrow> Selector \<Rightarrow> domainStatus \<Rightarrow> resolution \<Rightarrow> (event, 'w, resolution) io" where
  "resolve_domain h s d r =
    bindE (attempt (process h s (ds_PID d))) (\<lambda>p.
    case p of
      Inl e \<Rightarrow> retE (add_problem (Wrap (''domain '' @ ds_Name d) e) r)
    | Inr t \<Rightarrow>
        if ds_UUID d = '''' \<or> st_UUID t \<noteq> ToLower (ds_UUID d)
        then retE (add_problem (ErrorString (''domain '' @ ds_Name d @ '': runtime UUID does not match QEMU'')) r)
        else retE (r\<lparr>r_found := AList.update (st_PID t) (t\<lparr>st_Domain := ds_Name d\<rparr>) (r_found r)\<rparr>))"

definition resolve_entry ::
  "'w host \<Rightarrow> Selector \<Rightarrow> (string \<Rightarrow> bool) \<Rightarrow> string \<times> bool \<Rightarrow> resolution \<Rightarrow> (event, 'w, resolution) io" where
  "resolve_entry h s re entry r =
    (if snd entry \<or> \<not> HasSuffix (fst entry) ''.xml'' then retE r
     else bindE (attempt (readDomain h (filepath_Join [s_LibvirtDir s, fst entry]))) (\<lambda>dr.
     case dr of
       Inl e \<Rightarrow> retE (add_problem (Wrap (''runtime file '' @ fst entry) e) r)
     | Inr d \<Rightarrow> if \<not> re (ds_Name d) \<or> ds_State d \<noteq> ''running'' then retE r else resolve_domain h s d r))"

text \<open>
  The first component is the selector afterwards: its anchors are kept also when the directory could
  not be read.
\<close>

definition Resolve ::
  "'w host \<Rightarrow> Selector \<Rightarrow> (event, 'w, Selector \<times> error list \<times> (error + selection_Target list)) io" where
  "Resolve h s =
    bindE (foldE (resolve_pid h s) (s_PIDs s) \<lparr>r_anchored = s_anchored s, r_found = [], r_problems = []\<rparr>) (\<lambda>r.
    let s' = s\<lparr>s_anchored := r_anchored r\<rparr>;
        finish = (\<lambda>r. retE (s', r_problems r, Inr (sort_key st_PID (map snd (r_found r)))))
    in case s_re s of
         None \<Rightarrow> finish r
       | Some re \<Rightarrow>
           bindE (attempt (ReadDir h (s_LibvirtDir s))) (\<lambda>d.
           case d of
             Inl e \<Rightarrow> retE (s', r_problems r, Inl (Wrap ''read libvirt runtime directory'' e))
           | Inr entries \<Rightarrow> bindE (foldE (resolve_entry h s re) entries r) finish))"

section \<open>PID lists\<close>

type_synonym PIDList = "int list"

definition PIDList_String :: "PIDList \<Rightarrow> string" where
  "PIDList_String p = str_Join (map Itoa p) '',''"

text \<open>The first loop of \<^verbatim>\<open>Set\<close>; the quotes around the item in the message are left out.\<close>

fun parse_items :: "string list \<Rightarrow> error + int list" where
  "parse_items [] = Inr []"
| "parse_items (item # items) =
    (case Atoi (TrimSpace item) of
       Inl e \<Rightarrow> Inl (ErrorString (''invalid QEMU PID '' @ item))
     | Inr pid \<Rightarrow> if pid \<le> 0 then Inl (ErrorString (''invalid QEMU PID '' @ item))
                  else (case parse_items items of Inl e \<Rightarrow> Inl e | Inr values \<Rightarrow> Inr (pid # values)))"

definition PIDList_Set :: "PIDList \<Rightarrow> string \<Rightarrow> error + PIDList" where
  "PIDList_Set p value =
    (case parse_items (Split value (CHR '','')) of
       Inl e \<Rightarrow> Inl e
     | Inr values \<Rightarrow> Inr (fold (\<lambda>pid p. if pid \<in> set p then p else p @ [pid]) values p))"

section \<open>What a process was seen to be\<close>

definition shows_process :: "Selector \<Rightarrow> selection_Target \<Rightarrow> event list \<Rightarrow> bool" where
  "shows_process s t es \<longleftrightarrow>
    (let root = filepath_Join [s_ProcRoot s, Itoa (st_PID t)] in \<exists>comm stat args.
       {EReadFile (filepath_Join [root, ''comm'']) (Inr comm), EReadFile (filepath_Join [root, ''stat'']) (Inr stat),
        EReadFile (filepath_Join [root, ''cmdline'']) (Inr args)} \<subseteq> set es \<and>
       HasPrefix (TrimSpace comm) ''qemu-system'' \<and> stat_start stat = Inr (st_StartTime t) \<and>
       scan_uuid (Split args (CHR 0x00)) '''' = st_UUID t)"

lemma shows_process_mono: "shows_process s t es \<Longrightarrow> set es \<subseteq> set es' \<Longrightarrow> shows_process s t es'"
  unfolding shows_process_def Let_def by (elim exE) (rule exI, rule exI, rule exI, fast)

lemma shows_process_domain [simp]: "shows_process s (t\<lparr>st_Domain := d\<rparr>) es = shows_process s t es"
  by (simp add: shows_process_def)

lemma process_spec:
  "ensures_at (process h s pid) w (\<lambda>r es w'.
     (\<exists>t. r = Ok t \<and> st_PID t = pid \<and> st_Domain t = '''' \<and> shows_process s t es) \<or> (\<exists>e. r = Err e))"
proof -
  let ?p = "\<lambda>x. filepath_Join [filepath_Join [s_ProcRoot s, Itoa pid], x]"
  obtain a wa where a: "h_ReadFile h (?p ''comm'') w = (a, wa)" by fastforce
  obtain b wb where b: "h_ReadFile h (?p ''stat'') wa = (b, wb)" by fastforce
  obtain c wc where c: "h_ReadFile h (?p ''cmdline'') wb = (c, wc)" by fastforce
  have "shows_process s \<lparr>st_PID = pid, st_StartTime = start, st_Domain = '''', st_UUID = scan_uuid (Split z (CHR 0x00)) ''''\<rparr>
      [EReadFile (?p ''comm'') (Inr x), EReadFile (?p ''stat'') (Inr y), EReadFile (?p ''cmdline'') (Inr z)]"
    if "HasPrefix (TrimSpace x) ''qemu-system''" "stat_start y = Inr start" for x y z start
    unfolding shows_process_def Let_def using that by (intro exI [of _ x] exI [of _ y] exI [of _ z]) simp
  then show ?thesis
    by (auto simp: process_def Let_def ensures_at_rules ensures_at_calls a b c split: sum.split)
qed

lemma readDomain_spec:
  "ensures_at (readDomain h path) w (\<lambda>r es w'.
     (\<exists>d fd. r = Ok d \<and> ds_Name d \<noteq> '''' \<and> 0 < ds_PID d \<and> EDecodeXML fd 4194304 (Inr d) \<in> set es) \<or> (\<exists>e. r = Err e))"
  by (auto simp: readDomain_def ensures_at_rules ensures_at_calls split: prod.split sum.split)

lemma foldE_returns:
  assumes "\<And>x s es w. x \<in> set xs \<Longrightarrow> I s es \<Longrightarrow>
      ensures_at (body x s) w (\<lambda>r es2 w'. \<exists>s'. r = Ok s' \<and> I s' (es @ es2))"
    and "I s es"
  shows "ensures_at (foldE body xs s) w (\<lambda>r es2 w'. \<exists>s'. r = Ok s' \<and> I s' (es @ es2))"
  using assms
proof (induction xs arbitrary: s es w)
  case (Cons x xs)
  show ?case unfolding foldE.simps
  proof (rule ensures_at_bindI [OF Cons.prems(1) [OF _ Cons.prems(2)]], goal_cases)
    case (2 s' es2 w')
    then show ?case using Cons.IH [of s' "es @ es2" w'] Cons.prems(1) by simp
  qed auto
qed simp

section \<open>The selection is justified\<close>

text \<open>Why \<open>t\<close> is selected: an explicit PID that still is the process it was first, or a running domain.\<close>

definition by_pid :: "Selector \<Rightarrow> (int \<times> string) list \<Rightarrow> selection_Target \<Rightarrow> bool" where
  "by_pid s anchored t \<longleftrightarrow> st_Domain t = '''' \<and> st_PID t \<in> set (s_PIDs s) \<and>
     map_of anchored (st_PID t) = Some (st_StartTime t)"

definition by_domain :: "Selector \<Rightarrow> selection_Target \<Rightarrow> event list \<Rightarrow> bool" where
  "by_domain s t es \<longleftrightarrow> (\<exists>re d fd. s_re s = Some re \<and> EDecodeXML fd 4194304 (Inr d) \<in> set es \<and>
     re (ds_Name d) \<and> ds_State d = ''running'' \<and> ds_PID d = st_PID t \<and> ds_Name d = st_Domain t \<and>
     st_Domain t \<noteq> '''' \<and> ds_UUID d \<noteq> '''' \<and> ToLower (ds_UUID d) = st_UUID t)"

definition keeps_anchors :: "(int \<times> string) list \<Rightarrow> (int \<times> string) list \<Rightarrow> bool" where
  "keeps_anchors a b \<longleftrightarrow> map_of a \<subseteq>\<^sub>m map_of b"

definition resolution_inv :: "Selector \<Rightarrow> resolution \<Rightarrow> event list \<Rightarrow> bool" where
  "resolution_inv s r es \<longleftrightarrow> distinct (map fst (r_found r)) \<and> keeps_anchors (s_anchored s) (r_anchored r) \<and>
     (\<forall>(pid, t) \<in> set (r_found r). st_PID t = pid \<and> shows_process s t es \<and>
        (by_pid s (r_anchored r) t \<or> by_domain s t es))"

lemma resolution_inv_calls: "resolution_inv s r es \<Longrightarrow> set es \<subseteq> set es' \<Longrightarrow> resolution_inv s r es'"
proof -
  assume a: "resolution_inv s r es" "set es \<subseteq> set es'"
  have "by_domain s t es \<Longrightarrow> by_domain s t es'" for t using a(2) unfolding by_domain_def by blast
  then show ?thesis using a shows_process_mono [OF _ a(2)] by (fastforce simp: resolution_inv_def)
qed

lemma resolution_inv_problem [simp]: "resolution_inv s (add_problem e r) es = resolution_inv s r es"
  by (simp add: resolution_inv_def add_problem_def)

lemma in_update: "x \<in> set (AList.update k v al) \<Longrightarrow> x = (k, v) \<or> x \<in> set al"
  by (induction al) (auto split: if_splits)

lemma resolution_inv_found:
  assumes "resolution_inv s r es" and "shows_process s t es"
    and "keeps_anchors (r_anchored r) a'" and "by_pid s a' t \<or> by_domain s t es"
  shows "resolution_inv s (r\<lparr>r_anchored := a', r_found := AList.update (st_PID t) t (r_found r)\<rparr>) es"
proof -
  have "by_pid s a' u" if "by_pid s (r_anchored r) u" for u
    using that assms(3) by (auto simp: by_pid_def keeps_anchors_def map_le_def dom_def)
  moreover have "keeps_anchors (s_anchored s) a'"
    using assms(1,3) map_le_trans by (fastforce simp: resolution_inv_def keeps_anchors_def)
  ultimately show ?thesis using assms
    by (fastforce simp: resolution_inv_def distinct_update dest!: in_update)
qed

lemma keeps_anchors_refl [simp]: "keeps_anchors a a"
  by (simp add: keeps_anchors_def)

lemma keeps_anchors_update:
  "map_of a k = None \<or> map_of a k = Some v \<Longrightarrow> keeps_anchors a (AList.update k v a)"
  by (auto simp: keeps_anchors_def map_le_def update_conv')

lemma resolve_pid_inv:
  assumes "pid \<in> set (s_PIDs s)" and "resolution_inv s r es"
  shows "ensures_at (resolve_pid h s pid r) w (\<lambda>x es2 w'. \<exists>r'. x = Ok r' \<and> resolution_inv s r' (es @ es2))"
proof -
  have inv: "resolution_inv s r (es @ es2)" for es2 by (rule resolution_inv_calls [OF assms(2)]) simp
  have add: "resolution_inv s (r\<lparr>r_anchored := AList.update (st_PID t) (st_StartTime t) (r_anchored r),
      r_found := AList.update (st_PID t) t (r_found r)\<rparr>) (es @ es2)"
    if "st_PID t \<in> set (s_PIDs s)" "st_Domain t = ''''" "shows_process s t es2"
      "map_of (r_anchored r) (st_PID t) = None \<or> map_of (r_anchored r) (st_PID t) = Some (st_StartTime t)" for t es2
    using that shows_process_mono [OF that(3), of "es @ es2"]
      resolution_inv_found [OF inv, of t es2 "AList.update (st_PID t) (st_StartTime t) (r_anchored r)"]
      keeps_anchors_update [OF that(4)] by (auto simp: by_pid_def update_conv')
  show ?thesis unfolding resolve_pid_def ensures_at_bind [of "attempt _"] ensures_at_attempt
    using assms(1) by (intro ensures_at_mono [OF process_spec]) (auto simp: inv intro!: add split: option.split)
qed

lemma add_problem_anchored [simp]: "r_anchored (add_problem e r) = r_anchored r"
  by (simp add: add_problem_def)

lemma resolve_domain_inv:
  assumes "s_re s = Some re" and "resolution_inv s r es" and "EDecodeXML fd 4194304 (Inr d) \<in> set es" and "re (ds_Name d)"
    and "ds_State d = ''running''" and "ds_Name d \<noteq> ''''"
  shows "ensures_at (resolve_domain h s d r) w (\<lambda>x es2 w'. \<exists>r'. x = Ok r' \<and> r_anchored r' = r_anchored r \<and>
    resolution_inv s r' (es @ es2))"
proof -
  have inv: "resolution_inv s r (es @ es2)" for es2 by (rule resolution_inv_calls [OF assms(2)]) simp
  have add: "resolution_inv s (r\<lparr>r_found := AList.update (ds_PID d) (t\<lparr>st_Domain := ds_Name d\<rparr>) (r_found r)\<rparr>) (es @ es2)"
    if "st_PID t = ds_PID d" "shows_process s t es2" "ds_UUID d \<noteq> ''''" "st_UUID t = ToLower (ds_UUID d)" for t es2
  proof -
    have "by_domain s (t\<lparr>st_Domain := ds_Name d\<rparr>) (es @ es2)"
      unfolding by_domain_def using that assms by auto
    moreover have "shows_process s t (es @ es2)" by (rule shows_process_mono [OF that(2)]) auto
    ultimately show ?thesis
      using resolution_inv_found [OF inv, of "t\<lparr>st_Domain := ds_Name d\<rparr>" es2 "r_anchored r"] that(1) by simp
  qed
  show ?thesis unfolding resolve_domain_def ensures_at_bind [of "attempt _"] ensures_at_attempt
    by (intro ensures_at_mono [OF process_spec]) (auto simp: inv intro!: add)
qed

lemma resolve_entry_inv:
  assumes "s_re s = Some re" and "resolution_inv s r es"
  shows "ensures_at (resolve_entry h s re entry r) w (\<lambda>x es2 w'. \<exists>r'. x = Ok r' \<and> r_anchored r' = r_anchored r \<and>
    resolution_inv s r' (es @ es2))"
proof (cases "snd entry \<or> \<not> HasSuffix (fst entry) ''.xml''")
  case True
  then show ?thesis using assms(2) by (simp add: resolve_entry_def)
next
  case False
  have inv: "resolution_inv s r (es @ es2)" for es2 by (rule resolution_inv_calls [OF assms(2)]) simp
  from False show ?thesis
    unfolding resolve_entry_def if_not_P [OF False] ensures_at_bind [of "attempt (readDomain _ _)"]
      ensures_at_attempt [of "readDomain _ _"]
    by (intro ensures_at_mono [OF readDomain_spec])
      (auto simp: inv intro!: resolve_domain_inv [OF assms(1) inv, simplified])
qed

lemma Resolve_spec:
  "ensures_at (Resolve h s) w (\<lambda>r es w'. \<exists>anchored problems res. r = Ok (s\<lparr>s_anchored := anchored\<rparr>, problems, res) \<and>
     keeps_anchors (s_anchored s) anchored \<and> (\<forall>ts. res = Inr ts \<longrightarrow> sorted_wrt (<) (map st_PID ts) \<and>
       (\<forall>t \<in> set ts. shows_process s t es \<and> (by_pid s anchored t \<or> by_domain s t es))))"
proof -
  have sorted: "sorted_wrt (<) (map st_PID (sort_key st_PID (map snd (r_found r))))"
    if "resolution_inv s r es" for r es
  proof -
    have "map st_PID (map snd (r_found r)) = map fst (r_found r)"
      using that by (auto simp: resolution_inv_def case_prod_unfold)
    then have "distinct (map st_PID (sort_key st_PID (map snd (r_found r))))"
      using that by (metis mset_map mset_sort mset_eq_imp_distinct_iff resolution_inv_def)
    then show ?thesis by (simp add: strict_sorted_iff)
  qed
  have init: "resolution_inv s \<lparr>r_anchored = s_anchored s, r_found = [], r_problems = []\<rparr> []"
    by (simp add: resolution_inv_def)
  have pids: "ensures_at (foldE (resolve_pid h s) (s_PIDs s) \<lparr>r_anchored = s_anchored s, r_found = [], r_problems = []\<rparr>) w
      (\<lambda>x es2 w'. \<exists>r'. x = Ok r' \<and> resolution_inv s r' ([] @ es2))"
    by (rule foldE_returns [OF resolve_pid_inv init])
  have entries: "ensures_at (foldE (resolve_entry h s re) entries r) w1
      (\<lambda>x es2 w'. \<exists>r'. x = Ok r' \<and> r_anchored r' = r_anchored r \<and> resolution_inv s r' (es @ es2))"
    if "resolution_inv s r es" "s_re s = Some re" for re entries r es w1
  proof -
    have step: "ensures_at (resolve_entry h s re entry r1) w2 (\<lambda>x es2 w'. \<exists>r'. x = Ok r' \<and>
        (r_anchored r' = r_anchored r \<and> resolution_inv s r' (es1 @ es2)))"
      if "r_anchored r1 = r_anchored r \<and> resolution_inv s r1 es1" for entry r1 es1 w2
      using that \<open>s_re s = Some re\<close> by (auto intro: ensures_at_mono [OF resolve_entry_inv])
    show ?thesis using foldE_returns [where body = "resolve_entry h s re" and I = "\<lambda>r' es. r_anchored r' = r_anchored r \<and>
        resolution_inv s r' es", OF step] that by simp
  qed
  have fin: "keeps_anchors (s_anchored s) (r_anchored r) \<and> (\<forall>t \<in> set (map snd (r_found r)). shows_process s t es \<and>
      (by_pid s (r_anchored r) t \<or> by_domain s t es))" if "resolution_inv s r es" for r es
    using that by (fastforce simp: resolution_inv_def)
  show ?thesis unfolding Resolve_def
  proof (rule ensures_at_bindI [OF pids], goal_cases)
    case (1 r es w1)
    then have inv: "resolution_inv s r es" by simp
    show ?case
    proof (cases "s_re s")
      case None
      then show ?thesis using fin [OF inv] sorted [OF inv] by (auto simp: Let_def)
    next
      case (Some re)
      obtain a w2 where d: "h_ReadDir h (s_LibvirtDir s) w1 = (a, w2)" by fastforce
      let ?es = "es @ [EReadDir (s_LibvirtDir s) a]"
      have "resolution_inv s r ?es" by (rule resolution_inv_calls [OF inv]) auto
      note e = entries [OF this Some]
      have f: "ensures_at (foldE (resolve_entry h s re) entries r) w2 (\<lambda>x es2 w'. \<exists>r'. x = Ok r' \<and> r_anchored r' = r_anchored r \<and>
          keeps_anchors (s_anchored s) (r_anchored r) \<and>
          sorted_wrt (<) (map st_PID (sort_key st_PID (map snd (r_found r')))) \<and>
          (\<forall>t \<in> set (map snd (r_found r')). shows_process s t (?es @ es2) \<and>
             (by_pid s (r_anchored r) t \<or> by_domain s t (?es @ es2))))" for entries
        by (rule ensures_at_mono [OF e]) (metis fin sorted)
      show ?thesis using fin [OF inv] Some d
        by (auto simp: Let_def ensures_at_bind ensures_at_attempt ensures_at_calls split: sum.split prod.split
            intro!: ensures_at_mono [OF f] exI [of _ "r_anchored r"])
    qed
  qed auto
qed

text \<open>
  C34. A selected target is what was read just now: the list is ordered by PID without repetition; of each target the
  command name, the start time and the command line were read during this very resolution; and the target is there
  either as an explicit PID whose start time is the one anchored for it, or through a domain file that was decoded during
  this resolution, is running, matches the expression and carries the PID and the UUID of the process.  No anchor is lost or
  changed.
\<close>

theorem Resolve_selects_justified:
  assumes "Resolve h s w = (Ok (s', problems, Inr ts), es, w')"
  shows "sorted_wrt (<) (map st_PID ts) \<and> keeps_anchors (s_anchored s) (s_anchored s') \<and>
    (\<forall>t \<in> set ts. shows_process s t es \<and> (by_pid s (s_anchored s') t \<or> by_domain s t es))"
  using Resolve_spec [of h s w] assms by (auto simp: ensures_at_def)

section \<open>Anchors\<close>

text \<open>The targets of successive resolutions, from arbitrary worlds.\<close>

fun resolutions :: "'w host \<Rightarrow> Selector \<Rightarrow> 'w list \<Rightarrow> selection_Target list" where
  "resolutions h s [] = []"
| "resolutions h s (w # ws) = (case Resolve h s w of
     (Ok (s', _, res), _, _) \<Rightarrow> (case res of Inl _ \<Rightarrow> [] | Inr ts \<Rightarrow> ts) @ resolutions h s' ws | _ \<Rightarrow> [])"

lemma resolutions_anchored:
  "\<exists>a. keeps_anchors (s_anchored s) a \<and>
     (\<forall>t \<in> set (resolutions h s ws). st_Domain t = '''' \<longrightarrow> map_of a (st_PID t) = Some (st_StartTime t))"
proof (induction ws arbitrary: s)
  case (Cons w ws)
  obtain a problems res es w' where r: "Resolve h s w = (Ok (s\<lparr>s_anchored := a\<rparr>, problems, res), es, w')"
    and k: "keeps_anchors (s_anchored s) a"
    and t: "\<And>ts t. res = Inr ts \<Longrightarrow> t \<in> set ts \<Longrightarrow> by_pid s a t \<or> by_domain s t es"
    using Resolve_spec [of h s w] by (auto simp: ensures_at_def split: prod.splits)
  obtain b where b: "keeps_anchors a b"
    "\<forall>t \<in> set (resolutions h (s\<lparr>s_anchored := a\<rparr>) ws). st_Domain t = '''' \<longrightarrow> map_of b (st_PID t) = Some (st_StartTime t)"
    using Cons [of "s\<lparr>s_anchored := a\<rparr>"] by auto
  have "keeps_anchors (s_anchored s) b" using k b(1) by (auto simp: keeps_anchors_def intro: map_le_trans)
  moreover have "map_of b (st_PID t) = Some (st_StartTime t)" if "by_pid s a t" for t
    using that b(1) by (auto simp: by_pid_def keeps_anchors_def map_le_def dom_def)
  ultimately show ?case using r t b(2)
    by (intro exI [of _ b]) (fastforce simp: by_domain_def split: sum.splits)
qed (auto intro: keeps_anchors_refl)

text \<open>
  C35. An explicit PID never follows reuse: over any number of resolutions, whatever happens in between, a PID that is
  selected as an explicit PID always stands for a process with one and the same start time.
\<close>

theorem explicit_pids_never_follow_reuse:
  assumes "t \<in> set (resolutions h s ws)" and "u \<in> set (resolutions h s ws)"
    and "st_Domain t = ''''" and "st_Domain u = ''''" and "st_PID t = st_PID u"
  shows "st_StartTime t = st_StartTime u"
  using resolutions_anchored [of s h ws] assms by (metis option.inject)

lemma Check_OkD:
  assumes "Check h s t w = (Ok (), es, w')"
  shows "shows_process s t es"
proof -
  have "ensures_at (Check h s t) w (\<lambda>r es w'. r = Ok () \<longrightarrow> shows_process s t es)"
    unfolding Check_def ensures_at_bind
    by (rule ensures_at_mono [OF process_spec]) (auto simp: shows_process_def)
  then show ?thesis using assms by (simp add: ensures_at_def)
qed

text \<open>
  C36. The second look at a target, after its pidfd was opened, succeeds only if the command name, the start time and
  the UUID read now are those of the selected process.
\<close>

theorem Check_confirms_identity:
  assumes "Check h s t w = (Ok (), es, w')"
  shows "shows_process s t es"
  by (rule Check_OkD [OF assms])

section \<open>Descriptors\<close>

lemma process_keeps: "traces (list_all keeps_fds) (process h s pid)"
  unfolding process_def by (intro every_call.intros traces_calls) auto

lemma process_neutral: "traces_if d neutral (process h s pid)"
  by (rule completes_keeps) (rule process_keeps)

lemma Check_neutral: "traces_if d neutral (Check h s t)"
  unfolding Check_def by (intro neutral.intros process_neutral)

lemma readDomain_neutral: "completes neutral (readDomain h path)"
  unfolding readDomain_def
  by (intro completes_scoped [where f = "\<lambda>f. f"] acquires_call neutral.intros traces_calls) (auto simp: neutral_def)

lemma Resolve_neutral: "completes neutral (Resolve h s)"
  unfolding Resolve_def resolve_pid_def resolve_entry_def resolve_domain_def
  by (intro neutral.intros process_neutral readDomain_neutral traces_calls) (auto simp: neutral_def)

section \<open>PID lists\<close>

lemma parse_items_spec:
  "case parse_items items of
     Inl e \<Rightarrow> \<exists>item \<in> set items. \<nexists>pid. 0 < pid \<and> Atoi (TrimSpace item) = Inr pid
   | Inr values \<Rightarrow> map (\<lambda>item. Atoi (TrimSpace item)) items = map Inr values \<and> list_all ((<) 0) values"
  by (induction items) (auto split: sum.splits)

lemma add_missing:
  "\<exists>new. fold (\<lambda>pid p. if pid \<in> set p then p else p @ [pid]) vs p = p @ new \<and> distinct new \<and> set new = set vs - set p"
proof (induction vs arbitrary: p)
  case (Cons v vs)
  show ?case
  proof (cases "v \<in> set p")
    case True
    then show ?thesis using Cons [of p] by auto
  next
    case False
    obtain new where "fold (\<lambda>pid p. if pid \<in> set p then p else p @ [pid]) vs (p @ [v]) = (p @ [v]) @ new"
      "distinct new" "set new = set vs - set (p @ [v])" using Cons [of "p @ [v]"] by blast
    then show ?thesis using False by (intro exI [of _ "v # new"]) auto
  qed
qed simp

text \<open>
  C37. An argument of \<^verbatim>\<open>--pid\<close> is taken as a whole or not at all: it is refused exactly when one of its
  items is not a positive number; else its numbers that are not yet listed are appended, each once.
\<close>

theorem PIDList_Set_all_or_nothing:
  "case PIDList_Set p value of
     Inl e \<Rightarrow> \<exists>item \<in> set (Split value (CHR '','')). \<nexists>pid. 0 < pid \<and> Atoi (TrimSpace item) = Inr pid
   | Inr p' \<Rightarrow> \<exists>values new. map (\<lambda>item. Atoi (TrimSpace item)) (Split value (CHR '','')) = map Inr values \<and>
       list_all ((<) 0) values \<and> p' = p @ new \<and> distinct new \<and> set new = set values - set p"
  using parse_items_spec [of "Split value (CHR '','')"] add_missing [of _ p]
  by (auto simp: PIDList_Set_def split: sum.splits)

lemma parse_items_Itoa:
  "(\<And>pid. pid \<in> set p \<Longrightarrow> 0 < pid \<and> pid < 2 ^ 63) \<Longrightarrow> parse_items (map Itoa p) = Inr p"
proof (induction p)
  case (Cons pid p)
  have "TrimSpace (Itoa pid) = Itoa pid" by (rule TrimSpace_id) (auto simp: list_all_iff dest: Itoa_no_sep)
  then show ?case using Cons Atoi_Itoa [of pid] by fastforce
qed simp

lemma fold_add_distinct:
  "distinct (q @ p) \<Longrightarrow> fold (\<lambda>pid p. if pid \<in> set p then p else p @ [pid]) p q = q @ p"
  by (induction p arbitrary: q) auto

text \<open>C38. Printing a list of distinct positive PIDs and setting it again is the identity.\<close>

theorem PIDList_round_trip:
  assumes "p \<noteq> []" and "distinct p" and "\<forall>pid \<in> set p. 0 < pid \<and> pid < 2 ^ 63"
  shows "PIDList_Set [] (PIDList_String p) = Inr p"
proof -
  have "Split (str_Join (map Itoa p) '','') (CHR '','') = map Itoa p"
    using assms(1) by (intro Split_Join) (auto dest: Itoa_no_sep)
  then show ?thesis using assms parse_items_Itoa [of p] fold_add_distinct [of "[]" p]
    by (simp add: PIDList_Set_def PIDList_String_def)
qed

theorem PIDList_round_trip_witness: "PIDList_Set [] (PIDList_String [4711, 7, 9223372036854775807]) = Inr [4711, 7, 9223372036854775807]"
  by (rule PIDList_round_trip) simp_all

section \<open>A host with one machine\<close>

definition proc_host :: "unit host" where
  "proc_host = idle_host\<lparr>h_ReadFile := (\<lambda>p w. (Inr
     (if p = ''/p/7/comm'' then ''qemu-system-x86''
      else if p = ''/p/7/stat'' then ''7 (q) S 1 1 1 0 1 0 0 0 0 0 0 0 0 0 0 0 1 0 42 0''
      else ''q'' @ [CHR 0x00] @ ''-uuid'' @ [CHR 0x00] @ ''AB''), w))\<rparr>"

definition proc_selector :: Selector where
  "proc_selector = \<lparr>s_PIDs = [7], s_Pattern = '''', s_ProcRoot = ''/p'', s_LibvirtDir = '''', s_anchored = [], s_re = None\<rparr>"

definition proc_target :: selection_Target where
  "proc_target = \<lparr>st_PID = 7, st_StartTime = ''42'', st_Domain = '''', st_UUID = ''ab''\<rparr>"

lemma proc_paths:
  "filepath_Join [''/p'', Itoa 7] = ''/p/7''" "filepath_Join [''/p/7'', ''comm''] = ''/p/7/comm''"
  "filepath_Join [''/p/7'', ''stat''] = ''/p/7/stat''" "filepath_Join [''/p/7'', ''cmdline''] = ''/p/7/cmdline''"
  by (simp_all add: filepath_Join_def filepath_Clean_def Split_def Itoa_def nat_str.simps digit_def char_of_def bit_0)

lemma proc_files:
  "stat_start ''7 (q) S 1 1 1 0 1 0 0 0 0 0 0 0 0 0 0 0 1 0 42 0'' = Inr ''42''"
  "TrimSpace ''qemu-system-x86'' = ''qemu-system-x86''"
  "scan_uuid (Split (''q'' @ [CHR 0x00] @ ''-uuid'' @ [CHR 0x00] @ ''AB'') (CHR 0x00)) '''' = ''ab''"
  by (simp_all add: stat_start_def LastIndexByte_def Fields_def is_space_def ParseUint_def is_digit_def
      parse_digits_def Let_def TrimSpace_def Split_def ToLower_def char_of_def bit_0)

lemma proc_process: "\<exists>es. process proc_host s 7 () = (Ok proc_target, es, ())" if "s_ProcRoot s = ''/p''"
  using that proc_files
  by (simp add: process_def proc_host_def idle_host_def proc_paths proc_target_def Let_def bindE_def callE_def retE_def
      HasPrefix_def)

theorem Check_confirms_identity_witness:
  "\<exists>es. Check proc_host proc_selector proc_target () = (Ok (), es, ()) \<and> shows_process proc_selector proc_target es"
proof -
  obtain es where "process proc_host proc_selector 7 () = (Ok proc_target, es, ())"
    using proc_process [of proc_selector] by (auto simp: proc_selector_def)
  then have r: "Check proc_host proc_selector proc_target () = (Ok (), es, ())"
    by (simp add: Check_def bindE_def retE_def proc_target_def)
  show ?thesis using r Check_confirms_identity [OF r] by blast
qed

lemma proc_resolve:
  "\<exists>es. Resolve proc_host (proc_selector\<lparr>s_anchored := a\<rparr>) () =
     (Ok (proc_selector\<lparr>s_anchored := [(7, ''42'')]\<rparr>, [], Inr [proc_target]), es, ())" if "a = [] \<or> a = [(7, ''42'')]"
  using proc_process [of "proc_selector\<lparr>s_anchored := a\<rparr>"] that
  by (auto simp: Resolve_def resolve_pid_def proc_selector_def bindE_def attempt_def retE_def Let_def proc_target_def)

theorem Resolve_selects_justified_witness:
  "\<exists>s' es. Resolve proc_host proc_selector () = (Ok (s', [], Inr [proc_target]), es, ()) \<and>
     shows_process proc_selector proc_target es \<and> by_pid proc_selector (s_anchored s') proc_target"
proof -
  have "proc_selector\<lparr>s_anchored := []\<rparr> = proc_selector" by (simp add: proc_selector_def)
  then obtain s' es where r: "Resolve proc_host proc_selector () = (Ok (s', [], Inr [proc_target]), es, ())"
    using proc_resolve [of "[]"] by auto
  show ?thesis using r Resolve_selects_justified [OF r] by (auto simp: by_domain_def proc_selector_def)
qed

theorem explicit_pids_never_follow_reuse_witness:
  "resolutions proc_host proc_selector [(), ()] = [proc_target, proc_target] \<and>
   st_StartTime (resolutions proc_host proc_selector [(), ()] ! 0) = st_StartTime (resolutions proc_host proc_selector [(), ()] ! 1)"
proof -
  have s: "proc_selector\<lparr>s_anchored := []\<rparr> = proc_selector" by (simp add: proc_selector_def)
  have r: "resolutions proc_host proc_selector [(), ()] = [proc_target, proc_target]"
    using proc_resolve [of "[]"] proc_resolve [of "[(7, ''42'')]"] s by auto
  show ?thesis using r explicit_pids_never_follow_reuse [of proc_target proc_host proc_selector "[(), ()]" proc_target]
    by (simp add: proc_target_def)
qed

end
