(* ===== verification/Manager.thy ===== *)
theory Manager
  imports Agent Selection
begin

text \<open>
  \<^verbatim>\<open>internal/watch/manager_linux.go\<close>: one set of probes and a worker per selected virtual machine.  A worker is
  a goroutine; the manager sees of it what its \<^verbatim>\<open>cancel\<close> function and its \<^verbatim>\<open>done\<close> channel show.
  Starting, cancelling and awaiting a worker are calls to the scheduler, which may answer anything, so that
  what is proved of the manager holds for every interleaving of the workers.  What a worker does is
  \<open>worker_body\<close>.  The lock of \<^verbatim>\<open>lockedWriter\<close> keeps the lines of several workers apart; a line is one
  event here.
\<close>

section \<open>Configuration\<close>

record 'w ManagerConfig =
  m_Agent :: "'w Config"
  m_Selector :: "Selector option"
  m_Refresh :: int
  m_List :: bool
  m_ListQueues :: bool

record 'w scheduler =
  g_Go :: "string \<Rightarrow> int \<Rightarrow> 'w \<Rightarrow> 'w"
  g_Cancel :: "string \<Rightarrow> 'w \<Rightarrow> 'w"
  g_PollDone :: "string \<Rightarrow> 'w \<Rightarrow> error option option \<times> 'w"
  g_Done :: "string \<Rightarrow> 'w \<Rightarrow> error option \<times> 'w"
  g_WithTimeout :: "int \<Rightarrow> 'w \<Rightarrow> 'w"

abbreviation Go :: "'w scheduler \<Rightarrow> string \<Rightarrow> int \<Rightarrow> (event, 'w, unit) io" where
  "Go g key delay \<equiv> callU (g_Go g key delay) (ESpawn key delay)"

abbreviation Cancel :: "'w scheduler \<Rightarrow> string \<Rightarrow> (event, 'w, unit) io" where
  "Cancel g key \<equiv> callU (g_Cancel g key) (ECancel key)"

text \<open>The receive with a \<^verbatim>\<open>default\<close> (\<open>None\<close> when nothing is there yet), and the blocking one.\<close>

abbreviation PollDone :: "'w scheduler \<Rightarrow> string \<Rightarrow> (event, 'w, error option option) io" where
  "PollDone g key \<equiv> callV (g_PollDone g key) (\<lambda>r. [EPollDone key r])"

abbreviation Done :: "'w scheduler \<Rightarrow> string \<Rightarrow> (event, 'w, error option) io" where
  "Done g key \<equiv> callV (g_Done g key) (\<lambda>r. [EJoin key r])"

text \<open>The configuration of the worker for one target.\<close>

definition policy :: "'w host \<Rightarrow> 'w Config \<Rightarrow> Selector \<Rightarrow> selection_Target \<Rightarrow> 'w Config" where
  "policy h agent sel t =
    agent\<lparr>c_PID := st_PID t, c_Domain := st_Domain t, c_CheckIdentity := Some (Check h sel t)\<rparr>"

text \<open>A supervised worker has no duration of its own; the context of the manager ends it.\<close>

definition worker_config :: "'w host \<Rightarrow> 'w Config \<Rightarrow> Selector \<Rightarrow> selection_Target \<Rightarrow> 'w Config" where
  "worker_config h agent sel t = (policy h agent sel t)\<lparr>c_Duration := Fin 0\<rparr>"

text \<open>The goroutine: wait for the stagger delay or the cancellation, then watch.\<close>

definition worker_body ::
  "nat \<Rightarrow> 'w host \<Rightarrow> 'w ebpf \<Rightarrow> 'w Config \<Rightarrow> nat \<Rightarrow> BPF \<Rightarrow> (event, 'w, unit) io" where
  "worker_body n h eb c child b =
    bindE (Select h child) (\<lambda>cancelled. if cancelled then retE () else RunWithBPF n h eb c child (Some b))"

definition stagger :: "'w Config \<Rightarrow> nat \<Rightarrow> nat \<Rightarrow> int" where
  "stagger c index targets_len =
    f64_to_int64 (f64_mul (f64_div (f64_mul (f64_of_int (int index)) (c_Interval c)) (f64_of_int (max 1 (int targets_len)))) time_Second)"

definition timeout_ns :: "'w Config \<Rightarrow> int" where
  "timeout_ns c = f64_to_int64 (f64_mul (c_Duration c) time_Second)"

section \<open>One-shot commands\<close>

definition target_fields :: "selection_Target \<Rightarrow> fields" where
  "target_fields t = [(''pid'', JInt (st_PID t)), (''domain'', JString (st_Domain t)), (''uuid'', JString (st_UUID t)),
     (''start_time'', JString (st_StartTime t))]"

definition emit_all :: "'w host \<Rightarrow> string \<Rightarrow> fields list \<Rightarrow> logger \<Rightarrow> (event, 'w, logger) io" where
  "emit_all h ev fss l = foldE (\<lambda>fs l. emit h l ev fs) fss l"

definition list_targets ::
  "'w host \<Rightarrow> selection_Target list \<Rightarrow> error list \<Rightarrow> logger \<Rightarrow> (event, 'w, unit) io" where
  "list_targets h targets problems lg =
    bindE (emit_all h ''target'' (map target_fields targets) lg) (\<lambda>lg.
    if length targets = 0 \<or> length problems > 0
    then failE (ErrorString ''selection contains unavailable targets or has no matches'')
    else checkE (l_err lg))"

text \<open>The listing of the queues of one target: its error, if any, and the logger.\<close>

definition list_target ::
  "'w host \<Rightarrow> Selector \<Rightarrow> selection_Target \<Rightarrow> logger \<Rightarrow> (event, 'w, error option \<times> logger) io" where
  "list_target h sel t lg =
    bindE (attempt (OpenTarget h (st_PID t))) (\<lambda>r.
    case r of
      Inl e \<Rightarrow> retE (Some e, lg)
    | Inr target \<Rightarrow>
        bindE
          (bindE (attempt (Check h sel t)) (\<lambda>r.
           case r of
             Inl e \<Rightarrow> retE (Some e, lg)
           | Inr _ \<Rightarrow>
               bindE (attempt (ListQueues h target)) (\<lambda>r.
               case r of
                 Inl e \<Rightarrow> retE (Some e, lg)
               | Inr rows \<Rightarrow>
                   bindE (emit h lg ''queues'' [(''pid'', JInt (st_PID t)), (''domain'', JString (st_Domain t)),
                            (''queues'', JRows rows)]) (\<lambda>lg. retE (None, lg)))))
          (\<lambda>x. bindE (Target_Close h target) (\<lambda>_. retE x)))"

definition rescue_target ::
  "nat \<Rightarrow> 'w host \<Rightarrow> 'w ebpf \<Rightarrow> 'w Config \<Rightarrow> nat \<Rightarrow> Selector \<Rightarrow> BPF \<Rightarrow> selection_Target \<Rightarrow> logger \<Rightarrow>
   (event, 'w, error option \<times> logger) io" where
  "rescue_target n h eb agent ctx sel b t lg =
    bindE (attempt (RunWithBPF n h eb (policy h agent sel t) ctx (Some b))) (\<lambda>r.
    retE (case r of Inl e \<Rightarrow> Some e | Inr _ \<Rightarrow> None, lg))"

definition one_shot_target ::
  "nat \<Rightarrow> 'w host \<Rightarrow> 'w ebpf \<Rightarrow> 'w ManagerConfig \<Rightarrow> nat \<Rightarrow> Selector \<Rightarrow> BPF \<Rightarrow> selection_Target \<Rightarrow> nat \<times> logger \<Rightarrow>
   (event, 'w, nat \<times> logger) io" where
  "one_shot_target n h eb cfg ctx sel b t acc =
    bindE (CtxErr h ctx) (\<lambda>cerr.
    case cerr of
      Some e \<Rightarrow> failE e
    | None \<Rightarrow>
        bindE (if m_ListQueues cfg then list_target h sel t (snd acc)
               else rescue_target n h eb (m_Agent cfg) ctx sel b t (snd acc)) (\<lambda>(e, lg).
        case e of
          None \<Rightarrow> retE (fst acc, lg)
        | Some e \<Rightarrow>
            bindE (emit h lg ''target_failed'' [(''pid'', JInt (st_PID t)), (''domain'', JString (st_Domain t)),
                     (''error'', JError e)]) (\<lambda>lg.
            retE (Suc (fst acc), lg))))"

definition one_shot ::
  "nat \<Rightarrow> 'w host \<Rightarrow> 'w ebpf \<Rightarrow> 'w ManagerConfig \<Rightarrow> nat \<Rightarrow> Selector \<Rightarrow> BPF \<Rightarrow> selection_Target list \<Rightarrow> error list \<Rightarrow> logger \<Rightarrow>
   (event, 'w, unit) io" where
  "one_shot n h eb cfg ctx sel b targets problems lg =
    bindE (foldE (one_shot_target n h eb cfg ctx sel b) targets (length problems, lg)) (\<lambda>(failures, lg).
    if failures > 0 then failE (ErrorString (Itoa (int failures) @ '' selected target(s) failed''))
    else checkE (l_err lg))"

section \<open>The supervisor\<close>

record mvars = logged +
  mv_selector :: Selector
  mv_targets :: "selection_Target list"
  mv_workers :: "(string \<times> selection_Target) list"
  mv_retired :: "string list"

definition worker_fields :: "selection_Target \<Rightarrow> fields" where
  "worker_fields t = [(''pid'', JInt (st_PID t)), (''domain'', JString (st_Domain t))]"

definition delete_worker :: "string \<Rightarrow> mvars \<Rightarrow> mvars" where
  "delete_worker key v = v\<lparr>mv_workers := AList.delete key (mv_workers v)\<rparr>"

text \<open>One worker of the map: stop it when its target is no longer wanted, else see whether it has ended by itself.\<close>

definition reap_worker ::
  "'w host \<Rightarrow> 'w scheduler \<Rightarrow> string list \<Rightarrow> string \<times> selection_Target \<Rightarrow> (event, mvars \<times> 'w, unit) io" where
  "reap_worker h g wanted w = (case w of (key, t) \<Rightarrow>
    if key \<notin> set wanted
    then
      bindE (liftE (Cancel g key)) (\<lambda>_.
      bindE (liftE (Done g key)) (\<lambda>_.
      bindE (modE (delete_worker key)) (\<lambda>_.
      logV h ''target_removed'' (worker_fields t))))
    else
      bindE (liftE (PollDone g key)) (\<lambda>r.
      case r of
        None \<Rightarrow> retE ()
      | Some e \<Rightarrow>
          bindE (modE (delete_worker key)) (\<lambda>_.
          bindE (if e = None then modE (\<lambda>v. v\<lparr>mv_retired := key # mv_retired v\<rparr>) else retE ()) (\<lambda>_.
          logV h ''target_stopped'' (case e of None \<Rightarrow> worker_fields t
             | Some e \<Rightarrow> AList.update ''error'' (JError e) (worker_fields t))))))"

text \<open>One target of the list: start a worker unless there is one or it is retired.\<close>

definition start_worker ::
  "'w host \<Rightarrow> 'w scheduler \<Rightarrow> 'w Config \<Rightarrow> nat \<Rightarrow> nat \<times> selection_Target \<Rightarrow> (event, mvars \<times> 'w, unit) io" where
  "start_worker h g agent targets_len it = (case it of (index, t) \<Rightarrow>
    bindE getE (\<lambda>v.
    if map_of (mv_workers v) (Key t) \<noteq> None \<or> Key t \<in> set (mv_retired v) then retE ()
    else
      bindE (modE (\<lambda>v. v\<lparr>mv_workers := AList.update (Key t) t (mv_workers v)\<rparr>)) (\<lambda>_.
      bindE (logV h ''target_selected'' (target_fields t)) (\<lambda>_.
      liftE (Go g (Key t) (stagger agent index targets_len))))))"

definition log_problems :: "'w host \<Rightarrow> error list \<Rightarrow> (event, mvars \<times> 'w, unit) io" where
  "log_problems h problems = forE problems (\<lambda>e. logV h ''target_unavailable'' [(''error'', JError e)])"

text \<open>While discovery fails, the targets are those of the workers that are there.\<close>

definition rediscover_targets :: "'w host \<Rightarrow> (event, mvars \<times> 'w, unit) io" where
  "rediscover_targets h =
    bindE getE (\<lambda>v.
    bindE (liftE (Resolve h (mv_selector v))) (\<lambda>(sel, problems, res).
    bindE (modE (\<lambda>v. v\<lparr>mv_selector := sel\<rparr>)) (\<lambda>_.
    bindE
      (case res of
         Inl e \<Rightarrow>
           bindE (logV h ''discovery_failed'' [(''error'', JError e)]) (\<lambda>_.
           modE (\<lambda>v. v\<lparr>mv_targets := map snd (mv_workers v)\<rparr>))
       | Inr targets \<Rightarrow> modE (\<lambda>v. v\<lparr>mv_targets := targets\<rparr>))
      (\<lambda>_. log_problems h problems))))"

text \<open>Bring the workers in line with the targets.\<close>

definition reconcile :: "'w host \<Rightarrow> 'w scheduler \<Rightarrow> 'w Config \<Rightarrow> (event, mvars \<times> 'w, unit) io" where
  "reconcile h g agent =
    bindE getE (\<lambda>v.
    bindE (forE (mv_workers v) (reap_worker h g (map Key (mv_targets v)))) (\<lambda>_.
    forE (enumerate 0 (mv_targets v)) (start_worker h g agent (length (mv_targets v)))))"

definition manager_round ::
  "'w host \<Rightarrow> 'w scheduler \<Rightarrow> 'w Config \<Rightarrow> nat \<Rightarrow> (event, mvars \<times> 'w, bool) io" where
  "manager_round h g agent ctx =
    bindE (reconcile h g agent) (\<lambda>_.
    bindE check_log (\<lambda>_.
    bindE (liftE (Select h ctx)) (\<lambda>fin.
    if fin then retE False
    else bindE (rediscover_targets h) (\<lambda>_. retE True))))"

fun manager_loop :: "nat \<Rightarrow> 'w host \<Rightarrow> 'w scheduler \<Rightarrow> 'w Config \<Rightarrow> nat \<Rightarrow> (event, mvars \<times> 'w, unit) io" where
  "manager_loop 0 h g agent ctx = runningE"
| "manager_loop (Suc n) h g agent ctx =
    bindE (manager_round h g agent ctx) (\<lambda>continue. if continue then manager_loop n h g agent ctx else retE ())"

text \<open>The deferred function: cancel all, then await all.\<close>

definition stop_workers :: "'w scheduler \<Rightarrow> (event, mvars \<times> 'w, unit) io" where
  "stop_workers g =
    bindE getE (\<lambda>v.
    bindE (forE (mv_workers v) (\<lambda>(key, _). liftE (Cancel g key))) (\<lambda>_.
    forE (mv_workers v) (\<lambda>(key, _). bindE (liftE (Done g key)) (\<lambda>_. retE ()))))"

definition supervise ::
  "nat \<Rightarrow> 'w host \<Rightarrow> 'w scheduler \<Rightarrow> 'w Config \<Rightarrow> int \<Rightarrow> nat \<Rightarrow> Selector \<Rightarrow> selection_Target list \<Rightarrow> logger \<Rightarrow> (event, 'w, unit) io" where
  "supervise n h g agent refresh ctx sel targets lg =
    bindE (if f64_lt (Fin 0) (c_Duration agent)
           then bindE (callU (g_WithTimeout g (timeout_ns agent)) (EWithTimeout (timeout_ns agent))) (\<lambda>_. retE (Suc ctx))
           else retE ctx) (\<lambda>ctx.
    localE \<lparr>v_log = lg, mv_selector = sel, mv_targets = targets, mv_workers = [], mv_retired = []\<rparr>
      (deferE (bindE (NewTicker refresh) (\<lambda>_. manager_loop n h g agent ctx)) (stop_workers g)))"

definition RunSelected ::
  "nat \<Rightarrow> 'w host \<Rightarrow> 'w ebpf \<Rightarrow> 'w scheduler \<Rightarrow> nat \<Rightarrow> 'w ManagerConfig \<Rightarrow> (event, 'w, unit) io" where
  "RunSelected n h eb g ctx cfg =
    (case m_Selector cfg of
       None \<Rightarrow> failE (ErrorString ''selector and positive target refresh interval required'')
     | Some sel \<Rightarrow>
    if m_Refresh cfg \<le> 0 then failE (ErrorString ''selector and positive target refresh interval required'')
    else
    let base = (m_Agent cfg)\<lparr>c_PID := 1\<rparr> in
    bindE (checkE (Config_Validate base)) (\<lambda>_.
    if c_Rescue base \<and> m_List cfg then failE (ErrorString ''--once and --list cannot be combined'')
    else if m_List cfg \<and> m_ListQueues cfg then failE (ErrorString ''choose --list or --list-queues'')
    else if c_Rescue base \<and> m_ListQueues cfg then failE (ErrorString ''--once and --list-queues cannot be combined'')
    else
    bindE (Resolve h sel) (\<lambda>(sel, problems, res).
    case res of
      Inl e \<Rightarrow> failE e
    | Inr targets \<Rightarrow>
    bindE (emit_all h ''target_unavailable'' (map (\<lambda>e. [(''error'', JError e)]) problems)
             \<lparr>l_err = None, l_pid = 0, l_domain = ''''\<rparr>) (\<lambda>lg.
    if m_List cfg then list_targets h targets problems lg
    else if (c_Rescue base \<or> m_ListQueues cfg) \<and> length targets = 0
    then failE (ErrorString ''no selected running QEMU targets'')
    else if c_VhostFD base \<ge> 0 \<and> length targets \<noteq> 1
    then failE (ErrorString ''--vhost-fd requires exactly one selected VM'')
    else
    bindE (OpenBPF eb (c_BPFObject base) (c_TraceStages base)) (\<lambda>b.
    deferE
      (if c_Rescue base \<or> m_ListQueues cfg then one_shot n h eb cfg ctx sel b targets problems lg
       else supervise n h g (m_Agent cfg) (m_Refresh cfg) ctx sel targets lg)
      (BPF_Close eb b))))))"

end
