(* ===== verification/Panics.thy ===== *)
theory Panics
  imports Agent
begin

text \<open>
  A worker does not panic.  Five things in the code can: the reading of the clock, the deletion from a map that the
  BPF collection does not have, the ticker of an interval that is not positive, the address of the first byte of a
  batch without queues, and the slice expression with which a ring of the batch is picked.  The first two are up to the
  host; the ticker is safe because the configuration was validated, the empty batch because it is refused before, and
  the slice expression because the batch is as long as the list of queues, which is kept by every step of the loop.
\<close>

text \<open>The monotonic clock can be read.\<close>

definition clock_works :: "'w host \<Rightarrow> bool" where
  "clock_works h \<longleftrightarrow> (\<forall>w e w'. h_ClockGettime h w \<noteq> (Inl e, w'))"

text \<open>The BPF object defines the maps that are cleaned up after a queue.\<close>

definition maps_loaded :: "'w host \<Rightarrow> bool" where
  "maps_loaded h \<longleftrightarrow> (\<forall>name \<in> {''stats'', ''contexts'', ''works'', ''waits''}. h_HasMap h name)"

section \<open>Rules\<close>

lemma no_panic_calls:
  "no_panic (callE c1 ev1)" "no_panic (callO c2 ev2)" "no_panic (callV c3 ev3)" "no_panic (callU c4 ev4)"
  by (auto simp: no_panic_def ensures_at_calls split: prod.split sum.split option.split)

lemma no_panic_clock: "clock_works h \<Longrightarrow> no_panic (clock h ev)"
  by (auto simp: no_panic_def ensures_at_clock clock_works_def split: prod.split sum.split)

lemma no_panic_pure:
  "no_panic (retE x)" "no_panic (failE e)" "no_panic runningE" "no_panic getE" "no_panic (modE f)" "no_panic (checkE c)"
  by (simp_all add: no_panic_def checkE_def split: option.split)

lemma no_panicD: "no_panic m \<Longrightarrow> m w \<noteq> (Panic e, es, w')"
  by (auto simp: no_panic_def ensures_at_def split: prod.splits dest!: spec [of _ w])

lemma no_panic_bind: "no_panic m \<Longrightarrow> (\<And>x. no_panic (f x)) \<Longrightarrow> no_panic (bindE m f)"
  unfolding no_panic_def by (intro allI, rule ensures_at_bindI [where R = "\<lambda>r es w'. \<forall>e. r \<noteq> Panic e"]) auto

lemma no_panic_attempt: "no_panic m \<Longrightarrow> no_panic (attempt m)"
  unfolding no_panic_def ensures_at_attempt by (intro allI, erule allE, erule ensures_at_mono) (auto split: outcome.split)

lemma no_panic_defer: "no_panic m \<Longrightarrow> no_panic d \<Longrightarrow> no_panic (deferE m d)"
  unfolding no_panic_def
proof (intro allI, rule ensures_at_deferI, blast, simp, goal_cases)
  case (1 w r es w')
  then have "ensures_at d w' (\<lambda>r es w'. \<forall>e. r \<noteq> Panic e)" by blast
  then show ?case by (rule ensures_at_mono) (use 1 in \<open>auto split: outcome.split\<close>)
qed

lemma no_panic_for: "(\<And>x. x \<in> set xs \<Longrightarrow> no_panic (body x)) \<Longrightarrow> no_panic (forE xs body)"
  by (induction xs) (auto intro!: no_panic_pure no_panic_bind)

lemma no_panic_fold: "(\<And>x s. x \<in> set xs \<Longrightarrow> no_panic (body x s)) \<Longrightarrow> no_panic (foldE body xs s)"
  by (induction xs arbitrary: s) (auto intro!: no_panic_pure no_panic_bind)

lemma no_panic_cases:
  "(b \<Longrightarrow> no_panic m) \<Longrightarrow> (\<not> b \<Longrightarrow> no_panic m') \<Longrightarrow> no_panic (if b then m else m')"
  "(\<And>e. x = Inl e \<Longrightarrow> no_panic (f e)) \<Longrightarrow> (\<And>y. x = Inr y \<Longrightarrow> no_panic (k y)) \<Longrightarrow>
    no_panic (case x of Inl e \<Rightarrow> f e | Inr y \<Rightarrow> k y)"
  "(z = None \<Longrightarrow> no_panic m) \<Longrightarrow> (\<And>y. z = Some y \<Longrightarrow> no_panic (j y)) \<Longrightarrow>
    no_panic (case z of None \<Rightarrow> m | Some y \<Rightarrow> j y)"
  "(\<And>a b. p = (a, b) \<Longrightarrow> no_panic (l a b)) \<Longrightarrow> no_panic (case p of (a, b) \<Rightarrow> l a b)"
  "no_panic (o' y) \<Longrightarrow> no_panic (let z = y in o' z)"
  by (auto split: sum.split option.split prod.split simp: Let_def)

lemmas no_panic_intros = no_panic_pure no_panic_bind no_panic_attempt no_panic_defer no_panic_for no_panic_fold no_panic_cases
  no_panic_calls

text \<open>
  The same for a computation with local variables, together with an invariant of them that holds however it returned.
\<close>

definition safe :: "('s \<Rightarrow> bool) \<Rightarrow> ('e, 's \<times> 'w, 'a) io \<Rightarrow> bool" where
  "safe I m \<longleftrightarrow> (\<forall>s w. I s \<longrightarrow> ensures_at m (s, w) (\<lambda>r es sw. (\<forall>e. r \<noteq> Panic e) \<and> (r = Running \<or> I (fst sw))))"

lemma safeD: "safe I m \<Longrightarrow> I s \<Longrightarrow> ensures_at m (s, w) (\<lambda>r es sw. (\<forall>e. r \<noteq> Panic e) \<and> (r = Running \<or> I (fst sw)))"
  by (simp add: safe_def)

lemma safe_pure:
  "safe I (retE x)" "safe I (failE e)" "safe I runningE" "safe I getE" "safe I (checkE c)"
  by (simp_all add: safe_def checkE_def split: option.split)

lemma safe_mod: "(\<And>s. I s \<Longrightarrow> I (f s)) \<Longrightarrow> safe I (modE f)"
  by (simp add: safe_def)

lemma safe_lift: "no_panic m \<Longrightarrow> safe I (liftE m)"
  unfolding safe_def no_panic_def ensures_at_lift by (auto intro: ensures_at_mono)

lemma safe_bind:
  assumes "safe I m" and "\<And>x. safe I (f x)"
  shows "safe I (bindE m f)"
  unfolding safe_def
proof (intro allI impI, rule ensures_at_bindI [OF safeD [OF assms(1)]], assumption, goal_cases)
  case (1 s w x es sw)
  then show ?case using safeD [OF assms(2), of "fst sw" x "snd sw"] by simp
qed auto

lemma safe_bind_get:
  "(\<And>s w. I s \<Longrightarrow> ensures_at (f s) (s, w) (\<lambda>r es sw. (\<forall>e. r \<noteq> Panic e) \<and> (r = Running \<or> I (fst sw)))) \<Longrightarrow> safe I (bindE getE f)"
  by (auto simp: safe_def ensures_at_bind)

lemma safe_attempt: "safe I m \<Longrightarrow> safe I (attempt m)"
  unfolding safe_def ensures_at_attempt
  by (intro allI impI, erule allE, erule allE, erule impE, assumption, erule ensures_at_mono) (auto split: outcome.split)

lemma safe_defer:
  assumes "safe I m" and "safe I d"
  shows "safe I (deferE m d)"
  unfolding safe_def
proof (intro allI impI, rule ensures_at_deferI [OF safeD [OF assms(1)]], assumption, goal_cases)
  case (2 s w r es sw)
  then have "ensures_at d sw (\<lambda>r es sw. (\<forall>e. r \<noteq> Panic e) \<and> (r = Running \<or> I (fst sw)))"
    using safeD [OF assms(2), of "fst sw" "snd sw"] by simp
  then show ?case by (rule ensures_at_mono) (use 2 in \<open>auto split: outcome.split\<close>)
qed auto

lemma safe_local: "safe I m \<Longrightarrow> I s \<Longrightarrow> no_panic (localE s m)"
  unfolding no_panic_def ensures_at_local by (auto intro: ensures_at_mono [OF safeD])

lemma safe_for: "(\<And>x. x \<in> set xs \<Longrightarrow> safe I (body x)) \<Longrightarrow> safe I (forE xs body)"
  by (induction xs) (auto intro!: safe_pure safe_bind)

lemma safe_fold: "(\<And>x s. x \<in> set xs \<Longrightarrow> safe I (body x s)) \<Longrightarrow> safe I (foldE body xs s)"
  by (induction xs arbitrary: s) (auto intro!: safe_pure safe_bind)

lemma safe_cases:
  "(b \<Longrightarrow> safe I m) \<Longrightarrow> (\<not> b \<Longrightarrow> safe I m') \<Longrightarrow> safe I (if b then m else m')"
  "(\<And>e. x = Inl e \<Longrightarrow> safe I (f e)) \<Longrightarrow> (\<And>y. x = Inr y \<Longrightarrow> safe I (k y)) \<Longrightarrow>
    safe I (case x of Inl e \<Rightarrow> f e | Inr y \<Rightarrow> k y)"
  "(z = None \<Longrightarrow> safe I m) \<Longrightarrow> (\<And>y. z = Some y \<Longrightarrow> safe I (j y)) \<Longrightarrow>
    safe I (case z of None \<Rightarrow> m | Some y \<Rightarrow> j y)"
  "(\<And>a b. p = (a, b) \<Longrightarrow> safe I (l a b)) \<Longrightarrow> safe I (case p of (a, b) \<Rightarrow> l a b)"
  "safe I (o' y) \<Longrightarrow> safe I (let z = y in o' z)"
  by (auto split: sum.split option.split prod.split simp: Let_def)

lemmas safe_intros = safe_pure safe_bind safe_attempt safe_defer safe_for safe_fold safe_cases safe_lift

section \<open>The parts of a worker\<close>

lemma pollAlive_no_panic: "no_panic (pollAlive n h fd)"
  by (induction n) (auto intro!: no_panic_intros)

lemma target_no_panic:
  "no_panic (CheckAlive h t)" "no_panic (Alive h t)" "no_panic (OpenTarget h pid)" "no_panic (Duplicate h t fd)"
  "no_panic (eventID h p fd)" "no_panic (Inventory h t)" "no_panic (Ring h t s)" "no_panic (RingBatch_Read h b)"
  unfolding Alive_def CheckAlive_def OpenTarget_def Target_Close_def Duplicate_def eventID_def Inventory_def inventory_entry_def
    Ring_def RingBatch_Read_def
  by (intro no_panic_intros pollAlive_no_panic)+

lemma bpf_no_panic:
  "no_panic (BPF_Snapshot h fd)" "no_panic (BPF_Counters h ts vq)" "no_panic (BPF_Close eb b)"
  unfolding BPF_Snapshot_def BPF_Counters_def BPF_Close_def by (intro no_panic_intros)+

lemma Forget_no_panic: "maps_loaded h \<Longrightarrow> no_panic (BPF_Forget h s)"
  unfolding BPF_Forget_def by (intro no_panic_for) (auto simp: maps_loaded_def no_panic_calls)

lemma attach_probes_no_panic: "no_panic (attach_probes eb ps b)"
  by (induction eb ps b rule: attach_probes.induct) (auto intro!: no_panic_intros)

lemma OpenBPF_no_panic: "no_panic (OpenBPF eb path ts)"
  unfolding OpenBPF_def by (intro no_panic_intros attach_probes_no_panic bpf_no_panic)

lemma liveRow_no_panic: "no_panic (liveRow h t fd)"
  unfolding liveRow_def by (intro no_panic_intros target_no_panic bpf_no_panic)

lemma rekick_current_no_panic: "no_panic (rekick_current h t fd s events)"
  unfolding rekick_current_def by (intro no_panic_intros target_no_panic Rekick_no_panic)

lemma emit_no_panic: "clock_works h \<Longrightarrow> no_panic (emit h l ev fs)"
  unfolding emit_def by (intro no_panic_intros no_panic_clock)

lemmas part_no_panic = target_no_panic bpf_no_panic Forget_no_panic OpenBPF_no_panic liveRow_no_panic rekick_current_no_panic emit_no_panic

lemma rescue_no_panic: "clock_works h \<Longrightarrow> no_panic (rescue h t only l)"
  unfolding rescue_def rescue_one_def by (intro no_panic_intros part_no_panic Rekick_no_panic)

text \<open>An invariant that does not look at the log.\<close>

lemma safe_log:
  assumes "clock_works h" and "\<And>v l. I v \<Longrightarrow> I (v\<lparr>v_log := l\<rparr>)"
  shows "safe I (logV h ev fs)" "safe I check_log" "safe I return_log"
  unfolding logV_def return_log_def check_log_def
  by (intro safe_intros safe_mod emit_no_panic assms; assumption)+

section \<open>The loop over single queues\<close>

lemma run_queues_no_panic:
  assumes "clock_works h" and "maps_loaded h" and "Config_Validate c = None"
  shows "no_panic (run_queues n h c t b ctx l)"
proof -
  note safe_log = safe_log [OF assms(1), where I = "\<lambda>_. True"]
  have k: "safe (\<lambda>_. True) (kick_queue h c t ctx now fd s row)" for now fd s row
    unfolding kick_queue_def refresh_events_def by (intro safe_intros safe_mod safe_log part_no_panic no_panic_calls TrueI)
  have q: "safe (\<lambda>_. True) (visit_queue h c t b ctx now fd)" for now fd
    unfolding visit_queue_def queue_row_def take_snapshot_def verify_kick_def report_stall_def
    by (intro safe_intros safe_mod safe_log part_no_panic no_panic_calls k assms TrueI)
  have r: "safe (\<lambda>_. True) (run_tick h c t b ctx started)" for started
    unfolding run_tick_def refresh_inventory_def forget_gone_def summarise_def
    by (intro safe_intros safe_mod safe_log part_no_panic no_panic_calls no_panic_clock assms q TrueI)
  have "safe (\<lambda>_. True) (run_loop n h c t b ctx started)" for started
    by (induction n) (use r in \<open>auto intro!: safe_intros\<close>)
  then show ?thesis unfolding run_queues_def valid_ticker [OF assms(3)] bindE_retE
    by (intro no_panic_bind no_panic_clock assms safe_local [where I = "\<lambda>_. True"] safe_defer safe_bind safe_pure safe_log TrueI)
qed

section \<open>The batched loop\<close>

text \<open>A batch is as long as the list of queues.\<close>

definition batch_fits :: "bvars \<Rightarrow> bool" where
  "batch_fits v \<longleftrightarrow> (\<forall>b. bv_batch v = Some b \<longrightarrow> length (rb_data b) = 4 * length (bv_queues v))"

lemma batch_fits_updates [simp]:
  "batch_fits (v\<lparr>v_log := l\<rparr>) = batch_fits v" "batch_fits (update_queue i f v) = batch_fits v"
  "batch_fits (set_detector fd d v) = batch_fits v" "batch_fits (v\<lparr>bv_writes := x\<rparr>) = batch_fits v"
  "batch_fits (v\<lparr>bv_lastInventory := y\<rparr>) = batch_fits v" "batch_fits (v\<lparr>bv_lastSummary := y\<rparr>) = batch_fits v"
  "batch_fits (v\<lparr>bv_rows := z\<rparr>) = batch_fits v" "batch_fits (v\<lparr>v_detectors := ds\<rparr>) = batch_fits v"
  "length qs = length (bv_queues v) \<Longrightarrow> batch_fits (v\<lparr>bv_queues := qs\<rparr>) = batch_fits v"
  by (simp_all add: batch_fits_def update_queue_def set_detector_def)


lemma emit_returns: "clock_works h \<Longrightarrow> ensures_at (emit h l ev fs) w (\<lambda>r es w'. \<exists>l'. r = Ok l')"
  by (auto simp: emit_def ensures_at_rules ensures_at_calls ensures_at_clock Let_def clock_works_def
      split: prod.split sum.split)

lemma logV_returns:
  assumes "clock_works h"
  shows "ensures_at (logV h ev fs) (v, w) (\<lambda>r es sw. r = Ok () \<and> (\<exists>l. fst sw = v\<lparr>v_log := l\<rparr>))"
proof -
  obtain r es2 w' where e: "emit h (v_log v) ev fs w = (r, es2, w')" by (cases "emit h (v_log v) ev fs w")
  have "\<exists>l. r = Ok l" using emit_returns [OF assms, of "v_log v" ev fs w] e by (simp add: ensures_at_def)
  then show ?thesis by (auto simp: logV_def ensures_at_rules ensures_at_def [of "emit _ _ _ _"] e)
qed

lemma attempt_lift_returns:
  "no_panic m \<Longrightarrow> ensures_at (attempt (liftE m)) (v, w) (\<lambda>r es sw. fst sw = v \<and> (r = Running \<or> (\<exists>y. r = Ok y)))"
  unfolding no_panic_def ensures_at_attempt ensures_at_lift
  by (erule allE, erule ensures_at_mono) (auto split: outcome.split)

lemma Forget_returns: "maps_loaded h \<Longrightarrow> ensures_at (liftE (BPF_Forget h s)) (v, w) (\<lambda>r es sw. r = Ok () \<and> fst sw = v)"
  by (simp add: maps_loaded_def BPF_Forget_def ensures_at_rules ensures_at_calls)

abbreviation discovered :: "('a \<times> Snapshot list) outcome \<Rightarrow> bvars \<Rightarrow> bool" where
  "discovered r v \<equiv> r = Running \<or> (\<exists>acc. r = Ok acc \<and> length (bv_queues v) = length (snd acc))"

lemma rediscover_counts:
  assumes "clock_works h" and "length (bv_queues v) = length (snd acc)" and "maps_loaded h"
  shows "ensures_at (rediscover h c t fd acc) (v, w) (\<lambda>r es sw. discovered r (fst sw))"
  unfolding rediscover_def
proof (rule ensures_at_bindI [OF attempt_lift_returns [OF liveRow_no_panic]], goal_cases)
  case (1 x es sw)
  then obtain w' where sw: "sw = (v, w')" by (cases sw) auto
  let ?add = "\<lambda>s q. bindE (modE (\<lambda>v. v\<lparr>bv_queues := bv_queues v @ [q\<lparr>q_snapshot := s\<rparr>]\<rparr>)) (\<lambda>_.
           bindE (modE (\<lambda>v. set_detector fd (detector_of c v fd) v)) (\<lambda>_.
           retE (AList.delete fd (fst acc), snd acc @ [s])))"
  have add: "ensures_at (?add s q) (v, w1) (\<lambda>r es sw. discovered r (fst sw))" for s q w1
    using assms(2) by (simp add: ensures_at_bind set_detector_def)
  have fg: "ensures_at (bindE (bindE (liftE (BPF_Forget h o')) (\<lambda>_. retE q)) (?add s)) (v, w')
     (\<lambda>r es sw. discovered r (fst sw))" for o' q s
    unfolding bindE_assoc by (rule ensures_at_bindI [OF Forget_returns [OF assms(3)]]) (use add in \<open>auto simp: bindE_retE\<close>)
  show ?case
  proof (cases x)
    case (Inl e)
    show ?thesis unfolding Inl sum.case sw
      by (rule ensures_at_bindI [OF logV_returns [OF assms(1)]]) (use assms(2) in \<open>cases acc, auto\<close>)
  next
    case (Inr a)
    then show ?thesis using add fg by (cases a) (auto simp: sw split: option.split)
  qed
qed auto

lemma rediscover_all_counts:
  assumes "clock_works h" and "maps_loaded h"
  shows "length (bv_queues v) = length (snd acc) \<Longrightarrow>
    ensures_at (foldE (rediscover h c t) vhosts acc) (v, w) (\<lambda>r es sw. discovered r (fst sw))"
proof (induction vhosts arbitrary: acc v w)
  case (Cons fd vhosts)
  show ?case unfolding foldE.simps
  proof (rule ensures_at_bindI [OF rediscover_counts [OF assms(1) Cons.prems assms(2)]], goal_cases)
    case (1 acc' es sw)
    then show ?case using Cons.IH [of "fst sw" acc' "snd sw"] by simp
  qed auto
qed auto


lemma Forget_all_returns:
  "maps_loaded h \<Longrightarrow> ensures_at (forE qs (\<lambda>(fd, q). liftE (BPF_Forget h (q_snapshot q)))) (v, w) (\<lambda>r es sw. r = Ok () \<and> fst sw = v)"
proof (induction qs arbitrary: w)
  case (Cons a qs)
  obtain fd q where a: "a = (fd, q)" by fastforce
  show ?case unfolding forE.simps a prod.case
    by (rule ensures_at_bindI [OF Forget_returns [OF Cons.prems]]) (use Cons in auto)
qed simp

lemma discover_safe:
  assumes "clock_works h" and "maps_loaded h"
  shows "safe batch_fits (discover_queues h c t now)"
  unfolding discover_queues_def
proof (rule safe_bind_get, goal_cases)
  case (1 v w)
  let ?Q = "\<lambda>r es sw. (\<forall>e. r \<noteq> Panic e) \<and> (r = Running \<or> batch_fits (fst sw))"
  let ?new = "\<lambda>snapshots. bindE (modE (\<lambda>v. v\<lparr>bv_batch := None\<rparr>)) (\<lambda>_.
    bindE
      (if length snapshots \<noteq> 0
       then bindE (outcomeE (NewRingBatch t snapshots)) (\<lambda>b. modE (\<lambda>v. v\<lparr>bv_batch := Some b\<rparr>))
       else retE ())
      (\<lambda>_. modE (\<lambda>v. v\<lparr>bv_lastInventory := now\<rparr>)))"
  have new: "ensures_at (?new ss) (v, w) ?Q" if "length (bv_queues v) = length ss" for v w ss
    using that by (auto simp: ensures_at_bind batch_fits_def NewRingBatch_def Let_def split: sum.split if_splits)
  let ?all = "\<lambda>vhosts old. bindE (foldE (rediscover h c t) vhosts (old, [])) (\<lambda>(gone, snapshots).
    bindE (forE gone (\<lambda>(fd, q). liftE (BPF_Forget h (q_snapshot q)))) (\<lambda>_. ?new snapshots))"
  have all: "ensures_at (?all vhosts old) (v\<lparr>bv_queues := []\<rparr>, w') ?Q" for vhosts old w'
  proof (rule ensures_at_bindI [OF rediscover_all_counts [OF assms]], simp, goal_cases)
    case (1 acc es sw)
    then obtain v' w' where sw: "sw = (v', w')" "length (bv_queues v') = length (snd acc)" by (cases sw) auto
    show ?case unfolding sw case_prod_unfold
    proof (rule ensures_at_bindI [OF Forget_all_returns [OF assms(2), unfolded case_prod_unfold]], goal_cases)
      case (1 x es2 sw')
      then show ?case using new [OF sw(2), of "snd sw'"] by (cases sw') simp
    qed auto
  qed auto
  show ?case
  proof (cases "f64_le (c_InventoryInterval c) (f64_sub now (bv_lastInventory v))")
    case True
    have "ensures_at (liftE (Inventory h t)) (v, w) (\<lambda>r es sw. (\<forall>e. r \<noteq> Panic e) \<and> fst sw = v)"
      using target_no_panic(6) [of h t] unfolding no_panic_def ensures_at_lift by (auto intro: ensures_at_mono)
    then have "ensures_at (bindE (liftE (Inventory h t)) (\<lambda>(vhosts, _).
        bindE (modE (\<lambda>v. v\<lparr>bv_queues := []\<rparr>)) (\<lambda>_. ?all vhosts old))) (v, w) ?Q" for old
    proof (rule ensures_at_bindI, goal_cases)
      case (1 x es sw)
      then show ?case using all by (cases sw; cases x) (simp add: ensures_at_bind [of "modE _"])
    qed (use 1 in auto)
    then show ?thesis by (subst if_not_P) (simp add: True, unfold Let_def)
  qed (use 1 in simp)
qed

lemma Read_length:
  "ensures_at (RingBatch_Read h b) w (\<lambda>r es w'. \<forall>err b'. r = Ok (err, b') \<longrightarrow> length (rb_data b') = length (rb_data b))"
  by (auto simp: RingBatch_Read_def ensures_at_rules ensures_at_calls Let_def split: prod.split sum.split)


definition fits :: "nat \<Rightarrow> bvars \<Rightarrow> bool" where
  "fits N v \<longleftrightarrow> batch_fits v \<and> length (bv_queues v) = N"

lemma fits_updates [simp]:
  "fits N (v\<lparr>v_log := l\<rparr>) = fits N v" "fits N (update_queue i f v) = fits N v"
  "fits N (set_detector fd d v) = fits N v" "fits N (v\<lparr>bv_writes := x\<rparr>) = fits N v"
  "fits N (v\<lparr>bv_lastInventory := y\<rparr>) = fits N v"
  unfolding fits_def batch_fits_updates by (simp_all add: update_queue_def set_detector_def)

lemma recover_queue_safe:
  assumes "clock_works h"
  shows "safe (fits N) (recover_queue h c t ctx now i fd s row)"
  unfolding recover_queue_def report_batched_def
  by (intro safe_intros safe_mod safe_log [OF assms] part_no_panic no_panic_calls) simp_all

lemma confirm_queue_safe:
  assumes "clock_works h"
  shows "safe (fits N) (confirm_queue h c t ctx now i used ready)"
  unfolding confirm_queue_def verify_batched_def
  by (intro safe_intros safe_mod safe_log [OF assms] part_no_panic recover_queue_safe assms) simp_all

lemma poll_queue_safe:
  assumes "clock_works h" and "length (rb_data b) = 4 * N" and "i < N"
  shows "safe (fits N) (poll_queue h c t ctx now b i)"
proof -
  have "RingBatch_Indices b i \<noteq> None" using assms(2,3) by (simp add: RingBatch_Indices_def Let_def)
  then show ?thesis unfolding poll_queue_def
    by (intro safe_intros safe_mod safe_log [OF assms(1)] confirm_queue_safe [OF assms(1)]) simp_all
qed

lemma poll_batch_safe:
  assumes "clock_works h"
  shows "safe batch_fits (poll_batch h c t ctx now)"
  unfolding poll_batch_def
proof (rule safe_bind_get, goal_cases)
  case (1 v w)
  show ?case
  proof (cases "bv_batch v")
    case (Some b)
    let ?N = "length (bv_queues v)"
    have l: "length (rb_data b) = 4 * ?N" and f: "fits ?N v" using 1 Some by (auto simp: batch_fits_def fits_def)
    have "ensures_at (liftE (RingBatch_Read h b)) (v, w) (\<lambda>r es sw. (\<forall>e. r \<noteq> Panic e) \<and> fst sw = v \<and>
        (\<forall>err b'. r = Ok (err, b') \<longrightarrow> length (rb_data b') = 4 * ?N))"
      using ensures_at_conj [OF Read_length [of h b w] target_no_panic(8) [of h b, unfolded no_panic_def, THEN spec]]
      unfolding ensures_at_lift by (rule ensures_at_mono) (simp add: l)
    then show ?thesis unfolding Some option.case
    proof (rule ensures_at_bindI, goal_cases)
      case (1 x es sw)
      then obtain err b' w' where x: "x = (err, b')" "sw = (v, w')" "length (rb_data b') = 4 * ?N" by (cases x; cases sw) auto
      let ?rest = "case err of
          Some e \<Rightarrow>
            bindE (logV h ''queue_unavailable'' [(''error'', JError e), (''scope'', JString ''ring_batch'')]) (\<lambda>_.
            modE (\<lambda>v. v\<lparr>bv_queues := map (reset_queue now) (bv_queues v), bv_lastInventory := NInf\<rparr>))
        | None \<Rightarrow> forE [0..<?N] (poll_queue h c t ctx now b')"
      have "safe (fits ?N) ?rest"
        by (intro safe_intros safe_mod safe_log [OF assms] poll_queue_safe [OF assms x(3)]) (auto simp: fits_def)
      moreover have "fits ?N (v\<lparr>bv_batch := Some b'\<rparr>)" using x(3) by (simp add: fits_def batch_fits_def)
      ultimately have "ensures_at ?rest (v\<lparr>bv_batch := Some b'\<rparr>, w') (\<lambda>r es sw. (\<forall>e. r \<noteq> Panic e) \<and> (r = Running \<or> fits ?N (fst sw)))"
        by (rule safeD)
      then show ?case unfolding x prod.case ensures_at_bind [of "modE _"] ensures_at_mod outcome.case
        by (auto simp: fits_def intro: ensures_at_mono)
    qed (use 1 in auto)
  qed (use 1 in simp)
qed

lemma runBatched_no_panic:
  assumes "clock_works h" and "maps_loaded h" and "Config_Validate c = None"
  shows "no_panic (runBatched n h c t ctx l)"
proof -
  note safe_log = safe_log [OF assms(1), where I = batch_fits]
  have s: "safe batch_fits (summarise_batched h c t now)" for now
    unfolding summarise_batched_def summary_row_def by (intro safe_intros safe_mod safe_log part_no_panic) simp_all
  have r: "safe batch_fits (batched_tick h c t ctx started)" for started
    unfolding batched_tick_def
    by (intro safe_intros safe_log discover_safe poll_batch_safe s part_no_panic no_panic_calls no_panic_clock assms) simp_all
  have "safe batch_fits (batched_loop n h c t ctx started)" for started
    by (induction n) (use r in \<open>auto intro!: safe_intros\<close>)
  then show ?thesis unfolding runBatched_def valid_ticker [OF assms(3)] bindE_retE
    by (intro no_panic_bind no_panic_clock assms safe_local [where I = batch_fits] safe_defer safe_bind safe_pure safe_log)
       (simp_all add: init_bvars_def batch_fits_def)
qed

section \<open>The worker\<close>

abbreviation check_no_panic :: "'w Config \<Rightarrow> bool" where
  "check_no_panic c \<equiv> (case c_CheckIdentity c of None \<Rightarrow> True | Some check \<Rightarrow> no_panic check)"

lemma run_no_panic:
  assumes "clock_works h" and "maps_loaded h" and "check_no_panic c"
  shows "no_panic (run n h eb c ctx shared)"
proof (cases "Config_Validate c")
  case None
  then have w: "no_panic (watch n h c ctx t b)" for t b unfolding watch_def
    by (intro no_panic_intros rescue_no_panic emit_no_panic runBatched_no_panic run_queues_no_panic assms)
  have i: "no_panic check" if "c_CheckIdentity c = Some check" for check using assms(3) that by simp
  show ?thesis unfolding run_def run_target_def run_attached_def Target_Close_def
    by (intro no_panic_intros part_no_panic w i)
next
  case (Some e)
  then show ?thesis by (simp add: run_def checkE_def no_panic_pure)
qed


lemma cancelled_works: "clock_works cancelled_host" "maps_loaded cancelled_host"
  by (simp add: clock_works_def)
     (simp add: maps_loaded_def cancelled_host_def qemu_host_def demo_host_def idle_host_def)


end
