(* ===== verification/Supervision.thy ===== *)
theory Supervision
  imports Manager Panics
begin

section \<open>Supervision\<close>

text \<open>
  The workers that run and the ones that are retired, read off the call list.  It is \<open>None\<close> when a worker is
  started that is running or retired, when one is cancelled, polled or awaited that is not running (to await
  it would block for ever), or when a probe is detached or the collection unloaded while a worker runs.
\<close>

type_synonym tasks = "string set \<times> string set"

fun task_step :: "event \<Rightarrow> tasks \<Rightarrow> tasks option" where
  "task_step (ESpawn k _) (R, D) = (if k \<in> R \<or> k \<in> D then None else Some (insert k R, D))"
| "task_step (ECancel k) (R, D) = (if k \<in> R then Some (R, D) else None)"
| "task_step (EPollDone k r) (R, D) = (if k \<in> R
     then Some (case r of None \<Rightarrow> (R, D) | Some e \<Rightarrow> (R - {k}, if e = None then insert k D else D)) else None)"
| "task_step (EJoin k _) (R, D) = (if k \<in> R then Some (R - {k}, D) else None)"
| "task_step (EBpfDetach _) (R, D) = (if R = {} then Some (R, D) else None)"
| "task_step (EBpfUnload _) (R, D) = (if R = {} then Some (R, D) else None)"
| "task_step _ RD = Some RD"

fun supervision :: "event list \<Rightarrow> tasks \<Rightarrow> tasks option" where
  "supervision [] RD = Some RD"
| "supervision (e # es) RD = Option.bind (task_step e RD) (supervision es)"

lemma supervision_append: "supervision (es @ es') RD = Option.bind (supervision es RD) (supervision es')"
  by (induction es arbitrary: RD) (auto split: bind_split)

text \<open>Calls that have nothing to do with workers and probes.\<close>

fun taskless :: "event \<Rightarrow> bool" where
  "taskless (ESpawn _ _) = False"
| "taskless (ECancel _) = False"
| "taskless (EPollDone _ _) = False"
| "taskless (EJoin _ _) = False"
| "taskless (EBpfDetach _) = False"
| "taskless (EBpfUnload _) = False"
| "taskless _ = True"

lemma taskless_step: "taskless e \<Longrightarrow> task_step e RD = Some RD"
  by (cases "(e, RD)" rule: task_step.cases) auto

lemma taskless_supervision: "list_all taskless es \<Longrightarrow> supervision es RD = Some RD"
  by (induction es) (auto simp: taskless_step)

lemma emit_taskless: "traces (list_all taskless) (emit h l ev fs)"
  unfolding emit_def by (intro every_call.intros traces_calls traces_clock) auto

lemma Resolve_taskless: "traces (list_all taskless) (Resolve h s)"
  unfolding Resolve_def resolve_pid_def resolve_entry_def resolve_domain_def process_def readDomain_def
  by (intro every_call.intros traces_calls) auto

text \<open>The workers of the variables are the running ones, and the retired ones are known.\<close>

definition supervised :: "mvars \<Rightarrow> event list \<Rightarrow> bool" where
  "supervised v es \<longleftrightarrow> supervision es ({}, {}) = Some (fst ` set (mv_workers v), set (mv_retired v)) \<and>
     distinct (map fst (mv_workers v))"

lemma supervised_calls: "list_all taskless es' \<Longrightarrow> supervised v (es @ es') = supervised v es"
  by (auto simp: supervised_def supervision_append taskless_supervision split: bind_split)

lemma supervised_cong:
  "mv_workers v' = mv_workers v \<Longrightarrow> mv_retired v' = mv_retired v \<Longrightarrow> supervised v' es = supervised v es"
  by (simp add: supervised_def)

lemma supervised_logs_var:
  assumes "clock_works h"
  shows "ensures_at (logV h ev fs) (v, w) (\<lambda>r es2 sw. r = Ok () \<and> (\<exists>l. fst sw = v\<lparr>v_log := l\<rparr>) \<and> list_all taskless es2)"
proof -
  obtain r es2 w' where e: "emit h (v_log v) ev fs w = (r, es2, w')" by (cases "emit h (v_log v) ev fs w")
  have "\<exists>l. r = Ok l" using emit_returns [OF assms(1), of "v_log v" ev fs w] e by (simp add: ensures_at_def)
  moreover have "list_all taskless es2" using traces_ifD [OF emit_taskless e] by simp
  ultimately show ?thesis by (auto simp: logV_def ensures_at_rules ensures_at_def [of "emit _ _ _ _"] e)
qed

lemma supervised_logs:
  assumes "clock_works h" and "supervised v es"
  shows "ensures_at (logV h ev fs) (v, w) (\<lambda>r es2 sw. r = Ok () \<and> supervised (fst sw) (es @ es2) \<and>
     (\<exists>l. fst sw = v\<lparr>v_log := l\<rparr>) \<and> list_all taskless es2)"
proof (rule ensures_at_mono [OF supervised_logs_var [OF assms(1)]], goal_cases)
  case (1 r es2 sw)
  then obtain l where "r = Ok ()" "fst sw = v\<lparr>v_log := l\<rparr>" "list_all taskless es2" by blast
  then show ?case using assms(2) supervised_calls [of es2 v es] by (auto simp: supervised_def)
qed

text \<open>
  A step of the manager that returns and keeps what the variables and the calls say of the workers, together with a
  property of the variables.
\<close>

definition step_ok :: "(mvars \<Rightarrow> bool) \<Rightarrow> (event, mvars \<times> 'w, 'a) io \<Rightarrow> (mvars \<Rightarrow> bool) \<Rightarrow> bool" where
  "step_ok A m B \<longleftrightarrow> (\<forall>v w es. A v \<and> supervised v es \<longrightarrow>
     ensures_at m (v, w) (\<lambda>r es2 sw. (\<exists>x. r = Ok x) \<and> B (fst sw) \<and> supervised (fst sw) (es @ es2)))"

lemma step_bind:
  assumes "step_ok A m B" and "\<And>x. step_ok B (f x) C"
  shows "step_ok A (bindE m f) C"
  unfolding step_ok_def
proof (intro allI impI, goal_cases)
  case start: (1 v w es)
  then have m: "ensures_at m (v, w) (\<lambda>r es2 sw. (\<exists>x. r = Ok x) \<and> B (fst sw) \<and> supervised (fst sw) (es @ es2))"
    using assms(1) by (simp add: step_ok_def)
  show ?case
  proof (rule ensures_at_bindI [OF m], goal_cases)
    case (1 x es2 sw)
    then show ?case using assms(2) [of x, unfolded step_ok_def, rule_format, of "fst sw" "es @ es2" "snd sw"] by simp
  qed auto
qed

lemma step_get: "(\<And>v. A v \<Longrightarrow> step_ok (\<lambda>v'. v' = v) (f v) B) \<Longrightarrow> step_ok A (bindE getE f) B"
  by (auto simp: step_ok_def ensures_at_bind)

lemma step_ret: "(\<And>v. A v \<Longrightarrow> B v) \<Longrightarrow> step_ok A (retE x) B"
  by (auto simp: step_ok_def)

lemma step_log: "clock_works h \<Longrightarrow> (\<And>v l. A v \<Longrightarrow> B (v\<lparr>v_log := l\<rparr>)) \<Longrightarrow> step_ok A (logV h ev fs) B"
  unfolding step_ok_def by (auto intro!: ensures_at_mono [OF supervised_logs])

lemma step_taskless:
  assumes "traces (list_all taskless) m" and "\<And>w. ensures_at m w (\<lambda>r es w'. \<exists>x. r = Ok x)" and "\<And>v. A v \<Longrightarrow> B v"
  shows "step_ok A (liftE m) B"
  unfolding step_ok_def ensures_at_lift
proof (intro allI impI, goal_cases)
  case (1 v w es)
  have "ensures_at m w (\<lambda>r es w'. (\<exists>x. r = Ok x) \<and> list_all taskless es)"
    using assms(1,2) by (auto simp: traces_if_def intro: ensures_at_conj)
  then show ?case by (rule ensures_at_mono) (use 1 assms(3) in \<open>auto simp: supervised_calls\<close>)
qed

lemma step_mod:
  "(\<And>v. A v \<Longrightarrow> mv_workers (f v) = mv_workers v \<and> mv_retired (f v) = mv_retired v \<and> B (f v)) \<Longrightarrow> step_ok A (modE f) B"
  by (auto simp: step_ok_def supervised_def)

lemma step_weaken:
  assumes "step_ok A m B" and "\<And>v. A' v \<Longrightarrow> A v" and "\<And>v. B v \<Longrightarrow> B' v"
  shows "step_ok A' m B'"
  unfolding step_ok_def
proof (intro allI impI, goal_cases)
  case (1 v w es)
  then have "ensures_at m (v, w) (\<lambda>r es2 sw. (\<exists>x. r = Ok x) \<and> B (fst sw) \<and> supervised (fst sw) (es @ es2))"
    using assms(1,2) by (simp add: step_ok_def)
  then show ?case by (rule ensures_at_mono) (auto intro: assms(3))
qed

lemma step_maintains:
  assumes "step_ok (\<lambda>_. True) m B"
  shows "maintains supervised m"
  unfolding maintains_def
proof (intro allI impI, goal_cases)
  case (1 v w es)
  then have "ensures_at m (v, w) (\<lambda>r es2 sw. (\<exists>x. r = Ok x) \<and> B (fst sw) \<and> supervised (fst sw) (es @ es2))"
    using assms by (simp add: step_ok_def)
  then show ?case by (rule ensures_at_mono) simp
qed

section \<open>Reaping\<close>

abbreviation worker_keys :: "mvars \<Rightarrow> string set" where
  "worker_keys v \<equiv> fst ` set (mv_workers v)"

lemma delete_worker_keys:
  "worker_keys (delete_worker key v) = worker_keys v - {key}" "mv_retired (delete_worker key v) = mv_retired v"
  "mv_targets (delete_worker key v) = mv_targets v"
proof -
  have "fst ` set (AList.delete key al) = fst ` set al - {key}" for al :: "(string \<times> selection_Target) list"
    by (induction al) auto
  then show "worker_keys (delete_worker key v) = worker_keys v - {key}" by (simp add: delete_worker_def)
qed (simp_all add: delete_worker_def)

lemma supervised_deleted:
  assumes "supervised v es" and "key \<in> worker_keys v"
  shows "supervised (delete_worker key v) (es @ [ECancel key, EJoin key r])"
    "supervised (delete_worker key v) (es @ [EPollDone key (Some (Some e))])"
    "supervised ((delete_worker key v)\<lparr>mv_retired := key # mv_retired v\<rparr>) (es @ [EPollDone key (Some None)])"
    "supervised v (es @ [EPollDone key None])"
  using assms delete_worker_keys(1,2) [of key v] distinct_delete [of "mv_workers v" key]
  by (auto simp: supervised_def supervision_append delete_worker_def)

definition awaiting :: "string list \<Rightarrow> (string \<times> selection_Target) list \<Rightarrow> mvars \<Rightarrow> bool" where
  "awaiting wanted ws v \<longleftrightarrow> fst ` set ws \<subseteq> worker_keys v \<and> worker_keys v \<subseteq> set wanted \<union> fst ` set ws"

lemma awaiting_later: "awaiting wanted ((key, t) # ws) v \<Longrightarrow> key \<notin> fst ` set ws \<Longrightarrow> awaiting wanted ws (delete_worker key v)"
  "awaiting wanted ((key, t) # ws) v \<Longrightarrow> key \<in> set wanted \<Longrightarrow> awaiting wanted ws v"
proof -
  assume "awaiting wanted ((key, t) # ws) v" "key \<notin> fst ` set ws"
  then show "awaiting wanted ws (delete_worker key v)"
    unfolding awaiting_def delete_worker_keys list.set image_insert fst_conv by blast
next
  assume "awaiting wanted ((key, t) # ws) v" "key \<in> set wanted"
  then show "awaiting wanted ws v" unfolding awaiting_def list.set image_insert fst_conv by blast
qed

lemma awaiting_log [simp]: "awaiting wanted ws (v\<lparr>v_log := l\<rparr>) = awaiting wanted ws v"
  by (simp add: awaiting_def)

lemma reap_worker_ok:
  assumes "clock_works h" and "key \<notin> fst ` set ws"
  shows "step_ok (awaiting wanted ((key, t) # ws)) (reap_worker h g wanted (key, t)) (awaiting wanted ws)"
  unfolding step_ok_def
proof (intro allI impI, goal_cases)
  case (1 v w es)
  then have k: "key \<in> worker_keys v" and a: "awaiting wanted ((key, t) # ws) v" and s: "supervised v es"
    by (auto simp: awaiting_def)
  note del = supervised_deleted [OF s k]
  have lg: "ensures_at (logV h ev fs) (v', w') (\<lambda>r es2 sw. (\<exists>x. r = Ok x) \<and> awaiting wanted ws (fst sw) \<and>
      supervised (fst sw) (es' @ es2))" if "supervised v' es'" "awaiting wanted ws v'" for v' w' es' ev fs
    using that(2) by (intro ensures_at_mono [OF supervised_logs [OF assms(1) that(1)]]) auto
  show ?case
  proof (cases "key \<in> set wanted")
    case False
    obtain r w2 where d: "g_Done g key (g_Cancel g key w) = (r, w2)" by fastforce
    show ?thesis using False d lg [OF del(1)] awaiting_later(1) [OF a assms(2)]
      by (simp add: reap_worker_def ensures_at_rules(2,5) ensures_at_calls)
  next
    case True
    obtain r w2 where d: "g_PollDone g key w = (r, w2)" by fastforce
    have ret: "awaiting wanted ws ((delete_worker key v)\<lparr>mv_retired := key # mv_retired v\<rparr>)"
      using awaiting_later(1) [OF a assms(2)] by (simp add: awaiting_def)
    show ?thesis
    proof (cases r)
      case None
      then show ?thesis using True d del(4) awaiting_later(2) [OF a]
        by (simp add: reap_worker_def ensures_at_rules(2,5) ensures_at_calls)
    next
      case (Some e)
      then show ?thesis using True d lg [OF del(2)] lg [OF del(3) ret] awaiting_later(1) [OF a assms(2)]
        by (cases e) (simp_all add: reap_worker_def ensures_at_rules(2,5) ensures_at_calls delete_worker_keys)
    qed
  qed
qed

lemma reap_all:
  "clock_works h \<Longrightarrow> distinct (map fst ws) \<Longrightarrow>
   step_ok (awaiting wanted ws) (forE ws (reap_worker h g wanted)) (\<lambda>v. worker_keys v \<subseteq> set wanted)"
proof (induction ws)
  case Nil
  then show ?case by (simp add: step_ret awaiting_def)
next
  case (Cons w ws)
  obtain key t where w: "w = (key, t)" by fastforce
  show ?case unfolding forE.simps w using Cons by (intro step_bind [OF reap_worker_ok]) (auto simp: w)
qed


section \<open>Starting\<close>

text \<open>The workers are among the wanted ones, and the targets \<open>ts\<close> have a worker or are retired.\<close>

definition serving :: "string list \<Rightarrow> selection_Target list \<Rightarrow> mvars \<Rightarrow> bool" where
  "serving wanted ts v \<longleftrightarrow> worker_keys v \<subseteq> set wanted \<and> Key ` set ts \<subseteq> worker_keys v \<union> set (mv_retired v)"

definition add_worker :: "selection_Target \<Rightarrow> mvars \<Rightarrow> mvars" where
  "add_worker t v = v\<lparr>mv_workers := AList.update (Key t) t (mv_workers v)\<rparr>"

lemma add_worker_keys:
  "worker_keys (add_worker t v) = insert (Key t) (worker_keys v)" "mv_retired (add_worker t v) = mv_retired v"
proof -
  have "dom (map_of (AList.update (Key t) t (mv_workers v))) = insert (Key t) (dom (map_of (mv_workers v)))"
    by (simp add: update_conv')
  then show "worker_keys (add_worker t v) = insert (Key t) (worker_keys v)"
    by (simp add: dom_map_of_conv_image_fst add_worker_def)
qed (simp add: add_worker_def)

lemma supervised_added:
  assumes "supervised v es" and "Key t \<notin> worker_keys v" and "Key t \<notin> set (mv_retired v)"
  shows "supervised (add_worker t v) (es @ [ESpawn (Key t) d])"
  using assms add_worker_keys [of t v] distinct_update [of "mv_workers v" "Key t" t]
  by (simp add: supervised_def supervision_append) (simp add: add_worker_def)

lemma start_worker_ok:
  assumes "clock_works h" and "Key t \<in> set wanted"
  shows "step_ok (serving wanted ts) (start_worker h g agent n (i, t)) (serving wanted (t # ts))"
  unfolding step_ok_def
proof (intro allI impI, goal_cases)
  case (1 v w es)
  then have s: "supervised v es" and a: "serving wanted ts v" by auto
  let ?m = "bindE (logV h ''target_selected'' (target_fields t)) (\<lambda>_. liftE (Go g (Key t) (stagger agent i n)))"
  let ?Q = "\<lambda>r es2 sw. (\<exists>x. r = Ok x) \<and> serving wanted (t # ts) (fst sw) \<and> supervised (fst sw) (es @ es2)"
  show ?case
  proof (cases "Key t \<in> worker_keys v \<or> Key t \<in> set (mv_retired v)")
    case True
    then have "map_of (mv_workers v) (Key t) \<noteq> None \<or> Key t \<in> set (mv_retired v)" by (simp add: map_of_eq_None_iff)
    moreover have "serving wanted (t # ts) v" using a True by (auto simp: serving_def)
    ultimately show ?thesis using s by (simp add: start_worker_def ensures_at_bind)
  next
    case False
    then have n: "map_of (mv_workers v) (Key t) = None" by (simp add: map_of_eq_None_iff)
    have b: "serving wanted (t # ts) (add_worker t v)" using a assms(2) by (auto simp: serving_def add_worker_keys)
    have "ensures_at ?m (add_worker t v, w) ?Q"
    proof (rule ensures_at_bindI [OF supervised_logs_var [OF assms(1)]], goal_cases)
      case (1 x es2 sw)
      then obtain l where l: "fst sw = (add_worker t v)\<lparr>v_log := l\<rparr>" "list_all taskless es2" by blast
      have "supervised (fst sw) ((es @ es2) @ [ESpawn (Key t) d])" for d
        using supervised_added [of v "es @ es2" t d] s l False by (simp add: supervised_calls) (simp add: supervised_def)
      moreover have "serving wanted (t # ts) (fst sw)" using b l(1) by (simp add: serving_def)
      ultimately show ?case by (cases sw) (simp add: ensures_at_lift ensures_at_calls)
    qed auto
    then show ?thesis using n False
      by (simp add: start_worker_def ensures_at_bind [of getE] ensures_at_bind [of "modE _"] add_worker_def)
  qed
qed

lemma start_all:
  assumes "clock_works h" and "Key ` snd ` set its \<subseteq> set wanted"
  shows "step_ok (serving wanted ts) (forE its (start_worker h g agent n)) (serving wanted (rev (map snd its) @ ts))"
  using assms(2)
proof (induction its arbitrary: ts)
  case Nil
  then show ?case by (simp add: step_ret)
next
  case (Cons it its)
  obtain i t where it: "it = (i, t)" by fastforce
  show ?case unfolding forE.simps it
    using Cons by (intro step_bind [OF start_worker_ok [OF assms(1), of t wanted ts]]) (auto simp: it)
qed

section \<open>A round and the loop\<close>

lemma reconcile_ok:
  assumes c: "clock_works h" and s: "supervised v es"
  shows "ensures_at (reconcile h g agent) (v, w) (\<lambda>r es2 sw. (\<exists>x. r = Ok x) \<and>
     serving (map Key (mv_targets v)) (mv_targets v) (fst sw) \<and> supervised (fst sw) (es @ es2))"
proof -
  let ?W = "map Key (mv_targets v)"
  have d: "distinct (map fst (mv_workers v))" using s by (simp add: supervised_def)
  have a: "awaiting ?W (mv_workers v) v" by (simp add: awaiting_def)
  have r: "step_ok (awaiting ?W (mv_workers v)) (forE (mv_workers v) (reap_worker h g ?W)) (serving ?W [])"
    by (rule step_weaken [OF reap_all [OF c d]]) (auto simp: serving_def)
  have st: "step_ok (serving ?W []) (forE (enumerate 0 (mv_targets v)) (start_worker h g agent (length (mv_targets v))))
      (serving ?W (mv_targets v))"
    by (rule step_weaken [OF start_all [OF c, where ts = "[]" and wanted = ?W]])
       (auto simp: serving_def in_set_enumerate_eq)
  show ?thesis
    using step_bind [OF r st] a s unfolding step_ok_def reconcile_def ensures_at_bind [of getE] by simp
qed

lemma rediscover_maintains: "clock_works h \<Longrightarrow> maintains supervised (rediscover_targets h)"
  unfolding rediscover_targets_def log_problems_def
  by (intro maintains_intros maintains_mod maintains_lift [OF Resolve_taskless] step_maintains [OF step_log])
     (auto simp: supervised_def supervision_append taskless_step)

lemma manager_loop_maintains:
  assumes c: "clock_works h"
  shows "maintains supervised (manager_loop n h g agent ctx)"
proof (induction n)
  case (Suc n)
  have r: "maintains supervised (reconcile h g agent)"
    unfolding maintains_def by (auto intro: ensures_at_mono [OF reconcile_ok [OF c]])
  have s: "traces (list_all taskless) (Select h ctx)" by (intro every_call.intros traces_calls) simp
  have "maintains supervised (liftE (Select h ctx))"
    by (rule maintains_lift [OF s]) (auto simp: supervised_def supervision_append taskless_step)
  then show ?case unfolding manager_loop.simps manager_round_def check_log_def
    by (intro maintains_intros r rediscover_maintains [OF c] Suc)
qed (simp add: maintains_pure)

lemma cancel_all:
  "fst ` set ws \<subseteq> R \<Longrightarrow> ensures_at (forE ws (\<lambda>(key, _). liftE (Cancel g key))) (v, w) (\<lambda>r es2 sw.
     r = Ok () \<and> fst sw = v \<and> supervision es2 (R, D) = Some (R, D))"
proof (induction ws arbitrary: w)
  case (Cons x ws)
  then show ?case by (cases x) (auto simp: ensures_at_rules(2,5) ensures_at_calls intro: ensures_at_mono)
qed simp

lemma await_all:
  "distinct (map fst ws) \<Longrightarrow> fst ` set ws \<subseteq> R \<Longrightarrow>
   ensures_at (forE ws (\<lambda>(key, _). bindE (liftE (Done g key)) (\<lambda>_. retE ()))) (v, w) (\<lambda>r es2 sw.
     r = Ok () \<and> fst sw = v \<and> supervision es2 (R, D) = Some (R - fst ` set ws, D))"
proof (induction ws arbitrary: w R)
  case (Cons x ws)
  obtain key t where x: "x = (key, t)" by fastforce
  obtain r w2 where d: "g_Done g key w = (r, w2)" by fastforce
  have "distinct (map fst ws)" "fst ` set ws \<subseteq> R - {key}" and k: "key \<in> R" using Cons.prems by (auto simp: x)
  from Cons.IH [OF this(1,2), of w2]
  have "ensures_at (forE ws (\<lambda>(key, _). bindE (liftE (Done g key)) (\<lambda>_. retE ()))) (v, w2) (\<lambda>r' es2 sw.
     r' = Ok () \<and> fst sw = v \<and> supervision (EJoin key r # es2) (R, D) = Some (R - fst ` set (x # ws), D))"
    by (rule ensures_at_mono) (simp add: k x Diff_insert2 [of R key "fst ` set ws"])
  then show ?case by (simp add: x d ensures_at_rules(2,5) ensures_at_calls)
qed simp

lemma stop_workers_ok:
  assumes "supervised v es"
  shows "ensures_at (stop_workers g) (v, w) (\<lambda>r es2 sw. r = Ok () \<and> (\<exists>D. supervision (es @ es2) ({}, {}) = Some ({}, D)))"
proof -
  have s: "supervision es ({}, {}) = Some (worker_keys v, set (mv_retired v))" and d: "distinct (map fst (mv_workers v))"
    using assms by (auto simp: supervised_def)
  show ?thesis unfolding stop_workers_def ensures_at_bind [of getE] ensures_at_get
  proof (simp, rule ensures_at_bindI [OF cancel_all [of "mv_workers v" "worker_keys v" _ _ _ "set (mv_retired v)"]],
      goal_cases)
    case (2 x es2 sw)
    then show ?case using await_all [OF d, of "worker_keys v" g v "snd sw" "set (mv_retired v)"] s
      by (cases sw) (auto simp: supervision_append intro: ensures_at_mono)
  qed auto
qed


section \<open>The whole command\<close>

lemma selection_idle:
  "traces (list_all idle) (process h s pid)" "traces (list_all idle) (readDomain h path)"
  unfolding process_def readDomain_def by (intro every_call.intros traces_calls; auto)+

lemma Check_idle: "traces (list_all idle) (Check h s t)"
  unfolding Check_def by (intro every_call.intros selection_idle)

lemma Resolve_idle: "traces (list_all idle) (Resolve h s)"
  unfolding Resolve_def resolve_pid_def resolve_entry_def resolve_domain_def
  by (intro every_call.intros traces_calls selection_idle) auto

interpretation local_calls: idle_property "list_all local_call"
  by unfold_locales (auto elim!: list.pred_mono_strong idle_local)

lemma Rekick_local: "traces (list_all local_call) (Rekick h (recovery_of h t) (BPF_Snapshot h) fd s events)"
  unfolding Rekick_def recovery_of_def recoveryTarget.simps
  by (intro every_call.intros local_calls.parts traces_calls) auto

lemma rekick_current_local: "traces (list_all local_call) (rekick_current h t fd s events)"
  unfolding rekick_current_def by (intro every_call.intros local_calls.parts Rekick_local traces_calls) auto

lemma RunWithBPF_local:
  assumes "identity_check (list_all idle) c"
  shows "traces (list_all local_call) (RunWithBPF n h eb c ctx shared)"
proof -
  have i: "identity_check (list_all local_call) c" using assms
    by (auto split: option.splits intro: local_calls.of_idle)
  have "traces (list_all local_call) (watch n h c ctx t b)" for t b unfolding watch_def
    by (intro every_call.intros local_calls.rescue Rekick_local local_calls.runBatched local_calls.recover_queue
      local_calls.run_queues local_calls.kick_queue rekick_current_local local_calls.of_idle [OF emit_idle]
      traces_calls traces_clock) auto
  from local_calls.run [OF i this] show ?thesis unfolding RunWithBPF_def by (intro every_call.intros)
qed

lemma local_supervision: "list_all local_call es \<Longrightarrow> supervision es ({}, D) = Some ({}, D)"
proof (induction es)
  case (Cons e es)
  then have "task_step e ({}, D) = Some ({}, D)" by (cases e) auto
  with Cons show ?case by simp
qed simp

lemma emit_all_idle: "traces (list_all idle) (emit_all h ev fss l)"
  unfolding emit_all_def by (intro every_call.intros emit_idle)

lemma policy_check: "identity_check (list_all idle) (policy h agent sel t)" "identity_check neutral (policy h agent sel t)"
  by (simp_all add: policy_def Check_idle Check_neutral)

lemma one_shot_local: "traces (list_all local_call) (one_shot n h eb cfg ctx sel b targets problems lg)"
  unfolding one_shot_def one_shot_target_def list_target_def rescue_target_def ListQueues_def Target_Close_def
  by (intro every_call.intros local_calls.parts RunWithBPF_local [OF policy_check(1)] local_calls.of_idle [OF Check_idle] traces_calls)
     auto

lemma list_targets_local: "traces (list_all local_call) (list_targets h targets problems lg)"
  unfolding list_targets_def by (intro every_call.intros local_calls.of_idle [OF emit_all_idle])

abbreviation all_stopped :: "unit outcome \<Rightarrow> event list \<Rightarrow> bool" where
  "all_stopped r es \<equiv> \<exists>R D. supervision es ({}, {}) = Some (R, D) \<and> (r = Running \<or> R = {})"

text \<open>A part of the command that leaves no worker behind.\<close>

definition leaves_none :: "(event, 'w, unit) io \<Rightarrow> bool" where
  "leaves_none m \<longleftrightarrow> (\<forall>w. ensures_at m w (\<lambda>r es w'. all_stopped r es))"

lemma leaves_local: "traces (list_all local_call) m \<Longrightarrow> leaves_none m"
  unfolding traces_if_def leaves_none_def
  by (intro allI) (erule allE, erule ensures_at_mono, simp add: local_supervision)

lemma supervise_stops:
  assumes "clock_works h"
  shows "leaves_none (supervise n h g agent refresh ctx sel targets lg)"
proof -
  let ?v = "\<lparr>v_log = lg, mv_selector = sel, mv_targets = targets, mv_workers = [], mv_retired = []\<rparr>"
  have s: "supervised ?v []" "supervised ?v [EWithTimeout t]" for t by (auto simp: supervised_def)
  have m: "maintains supervised (bindE (NewTicker refresh) (\<lambda>_. manager_loop n h g agent c))" for c
    by (intro maintains_bind maintains_pure manager_loop_maintains [OF assms])
  have "ensures_at (deferE (bindE (NewTicker refresh) (\<lambda>_. manager_loop n h g agent c)) (stop_workers g)) (?v, w0)
      (\<lambda>r es2 sw. all_stopped r (es @ es2))"
    if "supervised ?v es" for es c w0
  proof (rule ensures_at_deferI [OF maintainsD [OF m that]], goal_cases)
    case (1 es2 sw)
    then show ?case by (auto simp: supervised_def)
  next
    case (2 r es2 sw)
    then show ?case using stop_workers_ok [of "fst sw" "es @ es2" g "snd sw"]
      by (auto intro: ensures_at_mono)
  qed
  from this [OF s(1)] this [OF s(2)] show ?thesis
    by (auto simp: leaves_none_def supervise_def ensures_at_rules(2,6) ensures_at_calls)
qed


lemma leaves_after:
  assumes "traces (list_all local_call) m" and "\<And>x. leaves_none (f x)"
  shows "leaves_none (bindE m f)"
  unfolding leaves_none_def
proof
  fix w
  have "ensures_at m w (\<lambda>r es w'. list_all local_call es)" using assms(1) by (simp add: traces_if_def)
  then show "ensures_at (bindE m f) w (\<lambda>r es w'. all_stopped r es)"
  proof (rule ensures_at_bindI, goal_cases)
    case (1 x es w')
    then show ?case using assms(2) [of x] unfolding leaves_none_def
      by (auto simp: supervision_append local_supervision intro: ensures_at_mono)
  qed (auto simp: local_supervision)
qed

lemma leaves_then_close:
  assumes "leaves_none m"
  shows "leaves_none (deferE m (BPF_Close eb b))"
  unfolding leaves_none_def
proof
  fix w
  have m: "ensures_at m w (\<lambda>r es w'. all_stopped r es)" using assms by (simp add: leaves_none_def)
  show "ensures_at (deferE m (BPF_Close eb b)) w (\<lambda>r es w'. all_stopped r es)"
  proof (rule ensures_at_deferI [OF m], goal_cases)
    case (2 r es w')
    then obtain D where d: "supervision es ({}, {}) = Some ({}, D)" by auto
    have "ensures_at (BPF_Close eb b) w' (\<lambda>r es w'. list_all local_call es)"
      using local_calls.of_idle [OF BPF_Close_idle [of eb b]] by (simp add: traces_if_def)
    then show ?case by (rule ensures_at_mono) (simp add: supervision_append d local_supervision)
  qed simp
qed

lemma leaves_cases:
  "(b \<Longrightarrow> leaves_none m) \<Longrightarrow> (\<not> b \<Longrightarrow> leaves_none m') \<Longrightarrow> leaves_none (if b then m else m')"
  "(\<And>e. x = Inl e \<Longrightarrow> leaves_none (f e)) \<Longrightarrow> (\<And>y. x = Inr y \<Longrightarrow> leaves_none (k y)) \<Longrightarrow>
    leaves_none (case x of Inl e \<Rightarrow> f e | Inr y \<Rightarrow> k y)"
  "(z = None \<Longrightarrow> leaves_none m) \<Longrightarrow> (\<And>y. z = Some y \<Longrightarrow> leaves_none (j y)) \<Longrightarrow>
    leaves_none (case z of None \<Rightarrow> m | Some y \<Rightarrow> j y)"
  "(\<And>a b. p = (a, b) \<Longrightarrow> leaves_none (l a b)) \<Longrightarrow> leaves_none (case p of (a, b) \<Rightarrow> l a b)"
  "leaves_none (o' y) \<Longrightarrow> leaves_none (let z = y in o' z)"
  "leaves_none (failE e)"
  by (auto split: sum.split option.split prod.split simp: leaves_none_def Let_def)

lemma RunSelected_stops: "clock_works h \<Longrightarrow> leaves_none (RunSelected n h eb g ctx cfg)"
  unfolding RunSelected_def
  by (intro leaves_cases leaves_after leaves_then_close every_call.check local_calls.of_idle [OF Resolve_idle]
      local_calls.of_idle [OF emit_all_idle] local_calls.of_idle [OF OpenBPF_idle]
      leaves_local [OF one_shot_local] leaves_local [OF list_targets_local] supervise_stops)

text \<open>
  C7. Whatever the workers do and however discovery changes: the manager never runs two workers for the same process, never
  restarts one that ended without an error, waits only for workers that were started, and by the time it returns every
  worker has ended; no probe is detached and the collection is not unloaded while a worker runs.
\<close>

theorem manager_supervises_workers:
  assumes "RunSelected n h eb g ctx cfg w = (r, es, w')" and "clock_works h"
  shows "\<exists>running retired. supervision es ({}, {}) = Some (running, retired) \<and> (r = Running \<or> running = {})"
  using RunSelected_stops [OF assms(2), of n eb g ctx cfg] assms(1) by (auto simp: leaves_none_def ensures_at_def dest!: spec [of _ w])

lemma supervision_disjoint:
  "supervision es (R, D) = Some (R', D') \<Longrightarrow> R \<inter> D = {} \<Longrightarrow> R' \<inter> D' = {}"
proof (induction es arbitrary: R D)
  case (Cons e es)
  then obtain R1 D1 where t: "task_step e (R, D) = Some (R1, D1)" "supervision es (R1, D1) = Some (R', D')"
    by (auto split: bind_splits)
  have "R1 \<inter> D1 = {}" using t(1) Cons.prems(2) by (cases "(e, (R, D))" rule: task_step.cases) (auto split: if_splits option.splits)
  with Cons.IH t(2) show ?case by blast
qed simp

text \<open>
  C8. When the manager has brought its workers in line with the targets, the running workers are exactly those of the
  targets that have not ended by themselves: one that failed was started again, one whose target has gone was stopped.
\<close>

theorem reconcile_runs_the_selection:
  assumes "reconcile h g agent (v, w) = (r, es', (v', w'))"
    and "supervision es ({}, {}) = Some (fst ` set (mv_workers v), set (mv_retired v))"
    and "distinct (map fst (mv_workers v))" and "clock_works h"
  shows "r = Ok () \<and> fst ` set (mv_workers v') = Key ` set (mv_targets v) - set (mv_retired v') \<and>
    supervision (es @ es') ({}, {}) = Some (fst ` set (mv_workers v'), set (mv_retired v'))"
proof -
  have "supervised v es" using assms by (simp add: supervised_def)
  from reconcile_ok [OF assms(4) this, of g agent w] assms(1)
  have *: "r = Ok ()" "serving (map Key (mv_targets v)) (mv_targets v) v'" "supervised v' (es @ es')"
    by (auto simp: ensures_at_def)
  have s: "supervision (es @ es') ({}, {}) = Some (fst ` set (mv_workers v'), set (mv_retired v'))"
    using *(3) by (simp add: supervised_def)
  have "fst ` set (mv_workers v') = Key ` set (mv_targets v) - set (mv_retired v')"
    using *(2) supervision_disjoint [OF s] unfolding serving_def set_map by blast
  then show ?thesis using * s by blast
qed

section \<open>Writes and descriptors\<close>

lemma one_shot_verified: "traces only_verified_kicks (one_shot n h eb cfg ctx sel b targets problems lg)"
proof -
  have r: "traces only_verified_kicks (RunWithBPF n h eb (policy h agent sel t) ctx (Some b))" for agent t
  proof -
    have "identity_check only_verified_kicks (policy h agent sel t)"
      by (simp add: policy_def verified_kicks.of_idle [OF Check_idle])
    from verified_kicks.run [OF this watch_verified] show ?thesis unfolding RunWithBPF_def by (intro verified.intros)
  qed
  show ?thesis
    unfolding one_shot_def one_shot_target_def list_target_def rescue_target_def ListQueues_def Target_Close_def
    by (intro verified.intros verified_kicks.parts r verified_kicks.of_idle [OF Check_idle] traces_calls)
       (auto intro: verified_quiet)
qed

lemma one_shot_list_quiet:
  "m_ListQueues cfg \<Longrightarrow> traces (list_all quiet) (one_shot n h eb cfg ctx sel b targets problems lg)"
  unfolding one_shot_def one_shot_target_def list_target_def ListQueues_def Target_Close_def
  by (simp only: if_True, intro every_call.intros no_writes.parts no_writes.of_idle [OF Check_idle] traces_calls) auto

lemma supervise_quiet: "traces (list_all quiet) (supervise n h g agent refresh ctx sel targets lg)"
proof -
  have r: "traces (list_all quiet) (manager_round h g agent ctx)" for ctx
    unfolding manager_round_def reconcile_def reap_worker_def start_worker_def rediscover_targets_def log_problems_def
    by (intro every_call.intros no_writes.parts no_writes.of_idle [OF Resolve_idle] traces_calls) auto
  have "traces (list_all quiet) (manager_loop n h g agent ctx)" for ctx
    by (induction n) (use r in \<open>auto intro!: every_call.intros\<close>)
  then show ?thesis unfolding supervise_def stop_workers_def
    by (intro every_call.intros traces_calls) auto
qed

lemma RunSelected_verified: "traces only_verified_kicks (RunSelected n h eb g ctx cfg)"
  unfolding RunSelected_def list_targets_def
  by (intro verified.intros verified_kicks.parts verified_kicks.of_idle [OF Resolve_idle]
      verified_kicks.of_idle [OF emit_all_idle] one_shot_verified traces_quiet_verified [OF supervise_quiet])

lemma RunSelected_quiet: "\<not> c_Rescue (m_Agent cfg) \<Longrightarrow> traces (list_all quiet) (RunSelected n h eb g ctx cfg)"
  unfolding RunSelected_def list_targets_def
  by (intro every_call.intros no_writes.parts no_writes.of_idle [OF Resolve_idle]
      no_writes.of_idle [OF emit_all_idle] one_shot_list_quiet supervise_quiet) auto

text \<open>
  C23. The command itself writes only as a rescue, and then only verified kicks: listing machines or queues and
  supervising workers never write to a descriptor.
\<close>

theorem manager_writes_only_when_rescuing:
  assumes "RunSelected n h eb g ctx cfg w = (r, es, w')"
  shows "only_verified_kicks es \<and> (EWrite fd d res \<in> set es \<longrightarrow> c_Rescue (m_Agent cfg))"
  using traces_ifD [OF RunSelected_verified assms] traces_ifD [OF RunSelected_quiet assms]
  by (fastforce simp: list_all_iff)

text \<open>
  What a goroutine of the manager does on behalf of a machine: it writes only verified kicks, and when it has
  ended it has closed every descriptor it opened.
\<close>

theorem worker_kicks_verified_and_closes:
  assumes "worker_body n h eb (worker_config h agent sel t) child b w = (r, es, w')"
  shows "only_verified_kicks es \<and> (r \<noteq> Running \<longrightarrow> fds es M = Some M)"
proof -
  let ?c = "worker_config h agent sel t"
  have c: "identity_check neutral ?c" "identity_check only_verified_kicks ?c"
    by (simp_all add: worker_config_def policy_def Check_neutral verified_kicks.of_idle [OF Check_idle])
  have "traces only_verified_kicks (run n h eb ?c child (Some b))"
    by (rule verified_kicks.run [OF c(2) watch_verified])
  then have v: "traces only_verified_kicks (worker_body n h eb ?c child b)" unfolding worker_body_def RunWithBPF_def
    by (intro verified.intros traces_calls) (auto intro: verified_quiet)
  have "completes neutral (run n h eb ?c child (Some b))"
    by (rule run_neutral [OF c(1)])
  then have "completes neutral (worker_body n h eb ?c child b)" unfolding worker_body_def RunWithBPF_def
    by (intro neutral.intros traces_calls) (auto simp: neutral_def)
  with v show ?thesis using assms by (auto simp: neutral_def dest: traces_ifD)
qed

section \<open>Refused commands\<close>

text \<open>
  A command without selection or refresh interval, with an invalid policy, or that combines exclusive
  modes is refused before anything is called.
\<close>

theorem refused_command_makes_no_call:
  assumes "m_Selector cfg = None \<or> m_Refresh cfg \<le> 0 \<or> Config_Validate ((m_Agent cfg)\<lparr>c_PID := 1\<rparr>) \<noteq> None \<or>
      c_Rescue (m_Agent cfg) \<and> m_List cfg \<or> m_List cfg \<and> m_ListQueues cfg \<or> c_Rescue (m_Agent cfg) \<and> m_ListQueues cfg"
  shows "\<exists>e. RunSelected n h eb g ctx cfg w = (Err e, [], w)"
  using assms by (auto simp: RunSelected_def io_execs Let_def split: option.split)

section \<open>The duration of the command\<close>

text \<open>No worker is started before a context with the timeout \<open>d\<close> is made.\<close>

fun spawns_under :: "int \<Rightarrow> event list \<Rightarrow> bool" where
  "spawns_under d [] = True"
| "spawns_under d (EWithTimeout t # es) = (t = d \<or> spawns_under d es)"
| "spawns_under d (ESpawn key delay # es) = False"
| "spawns_under d (_ # es) = spawns_under d es"

interpretation timed: trace_property "spawns_under d"
proof
  show "spawns_under d es \<Longrightarrow> spawns_under d es' \<Longrightarrow> spawns_under d (es @ es')" for es es'
    by (induction d es rule: spawns_under.induct) auto
qed simp

lemma local_spawns: "list_all local_call es \<Longrightarrow> spawns_under d es"
proof (induction es)
  case (Cons e es)
  then show ?case by (cases e) auto
qed simp

lemma timed_local: "traces (list_all local_call) m \<Longrightarrow> traces (spawns_under d) m"
  by (erule traces_imp) (rule local_spawns)

lemma supervise_timed:
  assumes "f64_lt (Fin 0) (c_Duration agent)"
  shows "traces (spawns_under (timeout_ns agent)) (supervise n h g agent refresh ctx sel targets lg)"
  using assms by (auto simp: supervise_def traces_if_def ensures_at_bind ensures_at_callU ensures_at_def [of "localE _ _"] split: prod.split)

lemma RunSelected_timed:
  assumes "f64_lt (Fin 0) (c_Duration (m_Agent cfg))"
  shows "traces (spawns_under (timeout_ns (m_Agent cfg))) (RunSelected n h eb g ctx cfg)"
  unfolding RunSelected_def
  by (intro timed.intros timed_local local_calls.of_idle [OF Resolve_idle] local_calls.of_idle [OF emit_all_idle]
      local_calls.of_idle [OF OpenBPF_idle] local_calls.of_idle [OF BPF_Close_idle] one_shot_local list_targets_local
      supervise_timed assms)

lemma timeout_short:
  assumes "f64_le (Fin 0) (c_Duration c)" and "f64_le (c_Duration c) (Fin 9223372036)"
  shows "0 \<le> timeout_ns c"
proof -
  obtain x where x: "c_Duration c = Fin x" "0 \<le> x" "x \<le> 9223372036" using assms by (cases "c_Duration c") auto
  define y where "y = rndv (x * 1000000000)"
  have "rndv 9223372036000000000 < 2 ^ 63" by code_simp
  moreover have "y \<le> rndv 9223372036000000000" unfolding y_def by (rule rndv_mono) (use x in simp)
  moreover have "0 \<le> y" unfolding y_def using x by (intro rndv_nonneg) simp
  ultimately have y: "0 \<le> y" "y < 2 ^ 63" by linarith+
  then have "rnd (x * 1000000000) = Fin y"
    using pow2_mono [of 63 1024] pow2_pos(1) [of 1024] by (auto simp: rnd_def Let_def y_def [symmetric] pow2_def [of 63])
  with y x(1) show ?thesis by (auto simp: timeout_ns_def time_Second_def rat_trunc_def)
qed

lemma timeout_long:
  assumes "f64_le (Fin 9223372037) (c_Duration c)"
  shows "timeout_ns c = - (2 ^ 63)"
proof (cases "c_Duration c")
  case (Fin x)
  have "(2::rat) ^ 63 \<le> rndv 9223372037000000000" by code_simp
  also have "\<dots> \<le> rndv (x * 1000000000)" by (rule rndv_mono) (use assms Fin in simp)
  finally have "2 ^ 63 \<le> \<lfloor>rndv (x * 1000000000)\<rfloor>" by (simp add: le_floor_iff)
  then show ?thesis using Fin by (auto simp: timeout_ns_def time_Second_def rnd_def Let_def rat_trunc_def)
qed (use assms in \<open>auto simp: timeout_ns_def time_Second_def f64_inf_def\<close>)

text \<open>
  C24. A command with a duration starts its workers only under a context whose timeout is that duration in nanoseconds, and
  what it asks for is right up to 9223372036 seconds: the conversion is not checked, and from 9223372037 seconds on,
  which the validation accepts, the timeout is the smallest 64-bit number, a deadline in the past.
\<close>

theorem duration_becomes_the_timeout:
  assumes "RunSelected n h eb g ctx cfg w = (r, es, w')" and "f64_lt (Fin 0) (c_Duration (m_Agent cfg))"
  shows "spawns_under (timeout_ns (m_Agent cfg)) es \<and>
    (f64_le (c_Duration (m_Agent cfg)) (Fin 9223372036) \<longrightarrow> 0 \<le> timeout_ns (m_Agent cfg)) \<and>
    (f64_le (Fin 9223372037) (c_Duration (m_Agent cfg)) \<longrightarrow> timeout_ns (m_Agent cfg) = - (2 ^ 63))"
  using traces_ifD [OF RunSelected_timed [OF assms(2)] assms(1)] timeout_short [of "m_Agent cfg"] timeout_long assms(2)
  by (auto simp: f64_lt_def)

section \<open>A managed machine\<close>

text \<open>The context is cancelled while the manager waits for its first tick; the worker is then cancelled and awaited.\<close>

definition lone_scheduler :: "unit scheduler" where
  "lone_scheduler = \<lparr>g_Go = (\<lambda>k d w. w), g_Cancel = (\<lambda>k w. w), g_PollDone = (\<lambda>k w. (None, w)), g_Done = (\<lambda>k w. (None, w)),
     g_WithTimeout = (\<lambda>d w. w)\<rparr>"

definition proc_manager :: "unit ManagerConfig" where
  "proc_manager = \<lparr>m_Agent = qemu_config, m_Selector = Some proc_selector, m_Refresh = 5000000000, m_List = False,
     m_ListQueues = False\<rparr>"

definition proc_bpf :: BPF where
  "proc_bpf = \<lparr>b_collection = 0, b_links = [0], b_traceStages = False\<rparr>"

lemma proc_calls [simp]:
  "h_UnixNano proc_host w = (0, w)" "h_ClockGettime proc_host w = (Inr (0, 0), w)" "h_Encode proc_host fs w = (None, w)"
  "h_Select proc_host ctx w = (True, w)"
  by (simp_all add: proc_host_def idle_host_def)

lemma proc_clock: "clock_works proc_host"
  by (simp add: clock_works_def)

lemma proc_emit: "l_err l = None \<Longrightarrow> \<exists>fs'. emit proc_host l ev fs w = (Ok l, [EEncode fs' None], w)"
  by (simp add: emit_def io_execs Let_def)

lemma qemu_OpenBPF:
  "OpenBPF qemu_ebpf path False w = (Ok proc_bpf, [EBpfPrepare ''memlock'' (Inr 0), EBpfPrepare path (Inr 0), EBpfLoad (Inr 0),
     EOwnerUpdate 1 None, EBpfAttach False ''vhost_net_ioctl'' ''snapshot_tx'' (Inr 0)], w)"
  by (simp add: OpenBPF_def qemu_ebpf_def io_execs wire_layout_def probes_def proc_bpf_def Let_def)

lemma qemu_BPF_Close: "BPF_Close qemu_ebpf proc_bpf w = (Ok (), [EBpfDetach 0, EBpfUnload 0], w)"
  by (simp add: BPF_Close_def qemu_ebpf_def proc_bpf_def io_execs)

lemma proc_valid: "Config_Validate (qemu_config\<lparr>c_PID := 1\<rparr>) = None"
  by code_simp

lemma qemu_config_flags: "c_VhostFD qemu_config = -1" "c_TraceStages qemu_config = False" "c_Duration qemu_config = Fin 0"
  by (simp_all add: qemu_config_def)

lemma proc_supervise:
  assumes "l_err lg = None"
  shows "\<exists>fs d. supervise 1 proc_host lone_scheduler qemu_config 5000000000 0 sel [proc_target] lg () =
    (Ok (), [EEncode fs None, ESpawn (Key proc_target) d, ESelect 0 True, ECancel (Key proc_target), EJoin (Key proc_target) None], ())"
proof -
  obtain fs where e: "emit proc_host lg ''target_selected'' (target_fields proc_target) () = (Ok lg, [EEncode fs None], ())"
    using proc_emit [OF assms] by fastforce
  show ?thesis using assms e
    by (auto simp: supervise_def NewTicker_def qemu_config_flags manager_round_def reconcile_def start_worker_def stop_workers_def check_log_def
        logV_def io_execs lone_scheduler_def)
qed

lemma proc_managed:
  "\<exists>es fs d. list_all idle es \<and> RunSelected 1 proc_host qemu_ebpf lone_scheduler 0 proc_manager () =
    (Ok (), es @ [EEncode fs None, ESpawn (Key proc_target) d, ESelect 0 True, ECancel (Key proc_target),
       EJoin (Key proc_target) None, EBpfDetach 0, EBpfUnload 0], ())"
proof -
  have "proc_selector\<lparr>s_anchored := []\<rparr> = proc_selector" by (simp add: proc_selector_def)
  then obtain sel es where r: "Resolve proc_host proc_selector () = (Ok (sel, [], Inr [proc_target]), es, ())"
    using proc_resolve [of "[]"] by auto
  have i: "list_all idle es" using traces_ifD [OF Resolve_idle r] by simp
  obtain fs d where s: "supervise 1 proc_host lone_scheduler qemu_config 5000000000 0 sel [proc_target] \<lparr>l_err = None, l_pid = 0, l_domain = ''''\<rparr> () =
    (Ok (), [EEncode fs None, ESpawn (Key proc_target) d, ESelect 0 True, ECancel (Key proc_target), EJoin (Key proc_target) None], ())"
    using proc_supervise [of "\<lparr>l_err = None, l_pid = 0, l_domain = ''''\<rparr>" sel] by auto
  let ?es = "es @ [EBpfPrepare ''memlock'' (Inr 0), EBpfPrepare (c_BPFObject qemu_config) (Inr 0), EBpfLoad (Inr 0),
     EOwnerUpdate 1 None, EBpfAttach False ''vhost_net_ioctl'' ''snapshot_tx'' (Inr 0)]"
  have "RunSelected 1 proc_host qemu_ebpf lone_scheduler 0 proc_manager () =
    (Ok (), ?es @ [EEncode fs None, ESpawn (Key proc_target) d, ESelect 0 True, ECancel (Key proc_target),
       EJoin (Key proc_target) None, EBpfDetach 0, EBpfUnload 0], ())"
    using r s proc_valid
    by (simp add: RunSelected_def proc_manager_def io_execs emit_all_def qemu_OpenBPF qemu_BPF_Close qemu_config_run
        qemu_config_flags)
  moreover have "list_all idle ?es" using i by simp
  ultimately show ?thesis by blast
qed

text \<open>The same with a duration that does not fit.\<close>

lemma supervise_asks:
  assumes "f64_lt (Fin 0) (c_Duration agent)"
  shows "\<exists>r post w'. supervise n h g agent refresh ctx sel targets lg w = (r, EWithTimeout (timeout_ns agent) # post, w')"
proof -
  let ?rest = "localE \<lparr>v_log = lg, mv_selector = sel, mv_targets = targets, mv_workers = [], mv_retired = []\<rparr>
      (deferE (bindE (NewTicker refresh) (\<lambda>_. manager_loop n h g agent (Suc ctx))) (stop_workers g))"
  obtain r es w' where "?rest (g_WithTimeout g (timeout_ns agent) w) = (r, es, w')" by (metis prod.exhaust)
  then show ?thesis using assms by (simp add: supervise_def bindE_def callU_def retE_def)
qed

abbreviation long_config :: "unit Config" where
  "long_config \<equiv> qemu_config\<lparr>c_Duration := Fin 10000000000\<rparr>"

lemma long_valid: "Config_Validate (long_config\<lparr>c_PID := 1\<rparr>) = None"
  by code_simp

lemma long_managed:
  "\<exists>es r. RunSelected 1 proc_host qemu_ebpf lone_scheduler 0 (proc_manager\<lparr>m_Agent := long_config\<rparr>) () = (r, es, ()) \<and>
     EWithTimeout (timeout_ns long_config) \<in> set es"
proof -
  have "proc_selector\<lparr>s_anchored := []\<rparr> = proc_selector" by (simp add: proc_selector_def)
  then obtain sel es where r: "Resolve proc_host proc_selector () = (Ok (sel, [], Inr [proc_target]), es, ())"
    using proc_resolve [of "[]"] by auto
  obtain r2 post where s: "supervise 1 proc_host lone_scheduler long_config 5000000000 0 sel [proc_target]
      \<lparr>l_err = None, l_pid = 0, l_domain = ''''\<rparr> () = (r2, EWithTimeout (timeout_ns long_config) # post, ())"
    using supervise_asks [of long_config 1 proc_host lone_scheduler 5000000000 0 sel "[proc_target]"
        "\<lparr>l_err = None, l_pid = 0, l_domain = ''''\<rparr>" "()"] by auto
  show ?thesis using r s long_valid
    by (cases r2) (auto simp: RunSelected_def proc_manager_def io_execs emit_all_def qemu_OpenBPF qemu_BPF_Close qemu_config_run
        qemu_config_flags)
qed

theorem duration_becomes_the_timeout_witness:
  "\<exists>es r. RunSelected 1 proc_host qemu_ebpf lone_scheduler 0 (proc_manager\<lparr>m_Agent := long_config\<rparr>) () = (r, es, ()) \<and>
     EWithTimeout (- (2 ^ 63)) \<in> set es \<and> spawns_under (- (2 ^ 63)) es"
proof -
  obtain es r where r: "RunSelected 1 proc_host qemu_ebpf lone_scheduler 0 (proc_manager\<lparr>m_Agent := long_config\<rparr>) () = (r, es, ())"
    and t: "EWithTimeout (timeout_ns long_config) \<in> set es" using long_managed by blast
  have "f64_lt (Fin 0) (c_Duration (m_Agent (proc_manager\<lparr>m_Agent := long_config\<rparr>)))" by simp
  moreover have "timeout_ns long_config = - (2 ^ 63)" by (rule timeout_long) simp
  ultimately show ?thesis using duration_becomes_the_timeout [OF r] t r by (auto simp: proc_manager_def)
qed

theorem manager_supervises_workers_witness:
  "\<exists>es d. RunSelected 1 proc_host qemu_ebpf lone_scheduler 0 proc_manager () = (Ok (), es, ()) \<and>
     ESpawn (Key proc_target) d \<in> set es \<and> (\<exists>retired. supervision es ({}, {}) = Some ({}, retired))"
proof -
  obtain es d where r: "RunSelected 1 proc_host qemu_ebpf lone_scheduler 0 proc_manager () = (Ok (), es, ())"
    and d: "ESpawn (Key proc_target) d \<in> set es"
    using proc_managed by fastforce
  show ?thesis using r d manager_supervises_workers [OF r proc_clock] by auto
qed

theorem manager_writes_only_when_rescuing_witness:
  "\<exists>es. RunSelected 1 proc_host qemu_ebpf lone_scheduler 0 proc_manager () = (Ok (), es, ()) \<and> only_verified_kicks es \<and>
     EWrite 9 (put_u64 1) (Inr 8) \<notin> set es"
proof -
  obtain es where r: "RunSelected 1 proc_host qemu_ebpf lone_scheduler 0 proc_manager () = (Ok (), es, ())"
    using proc_managed by fastforce
  show ?thesis using r manager_writes_only_when_rescuing [OF r, of 9 "put_u64 1" "Inr 8"]
    by (auto simp: proc_manager_def qemu_config_run)
qed

text \<open>A worker whose target has gone is stopped, a failed one is started again.\<close>

definition other_target :: selection_Target where
  "other_target = \<lparr>st_PID = 8, st_StartTime = ''43'', st_Domain = ''x'', st_UUID = ''cd''\<rparr>"

definition two_workers :: mvars where
  "two_workers = \<lparr>v_log = \<lparr>l_err = None, l_pid = 0, l_domain = ''''\<rparr>, mv_selector = proc_selector, mv_targets = [other_target],
     mv_workers = [(Key proc_target, proc_target), (Key other_target, other_target)], mv_retired = []\<rparr>"

lemma Keys_differ: "Key proc_target \<noteq> Key other_target"
  by (simp add: Key_def proc_target_def other_target_def Itoa_def nat_str.simps digit_def char_of_def bit_0)

definition failing_scheduler :: "unit scheduler" where
  "failing_scheduler = lone_scheduler\<lparr>g_PollDone := (\<lambda>k w. (Some (Some (Errno 5)), w))\<rparr>"

theorem reconcile_runs_the_selection_witness:
  "\<exists>es' v'. reconcile proc_host failing_scheduler qemu_config (two_workers, ()) = (Ok (), es', (v', ())) \<and>
     fst ` set (mv_workers v') = Key ` set (mv_targets two_workers) - set (mv_retired v')"
proof -
  obtain r es' v' where r: "reconcile proc_host failing_scheduler qemu_config (two_workers, ()) = (r, es', (v', ()))"
    by (metis prod.exhaust old.unit.exhaust)
  have "supervision [ESpawn (Key proc_target) 0, ESpawn (Key other_target) 0] ({}, {}) =
      Some (fst ` set (mv_workers two_workers), set (mv_retired two_workers))"
    using Keys_differ by (auto simp: two_workers_def)
  moreover have "distinct (map fst (mv_workers two_workers))" using Keys_differ by (simp add: two_workers_def)
  ultimately show ?thesis using r reconcile_runs_the_selection [OF r _ _ proc_clock] by blast
qed

theorem worker_kicks_verified_and_closes_witness:
  "\<exists>es. worker_body 1 proc_host qemu_ebpf (worker_config proc_host qemu_config proc_selector proc_target) 0 proc_bpf () = (Ok (), es, ())
     \<and> only_verified_kicks es \<and> fds es {#3#} = Some {#3#}"
proof -
  have r: "worker_body 1 proc_host qemu_ebpf (worker_config proc_host qemu_config proc_selector proc_target) 0 proc_bpf () =
      (Ok (), [ESelect 0 True], ())"
    by (simp add: worker_body_def io_execs)
  show ?thesis using r worker_kicks_verified_and_closes [OF r, of "{#3#}"] by simp
qed

theorem refused_command_makes_no_call_witness:
  "\<exists>e. RunSelected 1 proc_host qemu_ebpf lone_scheduler 0 (proc_manager\<lparr>m_Refresh := 0\<rparr>) () = (Err e, [], ())"
  by (rule refused_command_makes_no_call) simp

end
