(* ===== verification/Machine.thy ===== *)
theory Machine
  imports Supervision
begin

text \<open>
  A host with one machine, on which the theorems about whole commands are applied: QEMU is process 7, its descriptor
  42 is a vhost file with a waiter and a stuck queue, its descriptor 66 the kick eventfd, and every call succeeds.
\<close>

definition lab_snapshot :: Snapshot where
  "lab_snapshot = demo_snapshot\<lparr>sn_Wait := 8\<rparr>"

definition lab_host :: "unit host" where
  "lab_host = qemu_host
    \<lparr>h_ReadFile := (\<lambda>p w. (Inr (if p = ''/proc/7/comm'' then ''qemu-system-x86''
       else if p = ''/proc/7/stat'' then ''7 (q) S 1 1 1 0 1 0 0 0 0 0 0 0 0 0 0 0 1 0 42 0''
       else if p = ''/proc/7/cmdline'' then ''q'' @ [CHR 0x00] @ ''-uuid'' @ [CHR 0x00] @ ''AB''
       else if take 5 p = ''/sys/'' then ''1'' else ''eventfd-id: 0''), w)),
     h_SampleLookup := (\<lambda>w. (Inr lab_snapshot, w))\<rparr>"

definition lab_selector :: Selector where
  "lab_selector = \<lparr>s_PIDs = [7], s_Pattern = '''', s_ProcRoot = ''/proc'', s_LibvirtDir = ''/run/libvirt/qemu'', s_anchored = [],
     s_re = None\<rparr>"

lemma lab_host_calls [simp]:
  "h_Encode lab_host fs w = (None, w)" "h_MkdirAll lab_host p w = (None, w)" "h_OpenFile lab_host p w = (Inr 3, w)"
  "h_Flock lab_host fd w = (None, w)" "h_Close lab_host fd w = w" "h_PidfdOpen lab_host pid w = (Inr 5, w)"
  "h_PidfdGetfd lab_host pidfd fd w = (Inr 9, w)" "h_Poll lab_host fd w = (Inr (0, 0), w)" "h_polls lab_host = 1"
  "h_FcntlGetfl lab_host fd w = (Inr 0x802, w)" "h_Write lab_host fd d w = (Inr 8, w)" "h_Ioctl lab_host fd c w = (None, w)"
  "h_SampleUpdate lab_host s w = (None, w)" "h_SampleLookup lab_host w = (Inr lab_snapshot, w)"
  "h_ReadDir lab_host p w = (Inr [(''42'', False), (''66'', False)], w)"
  "h_Readlink lab_host p w = (Inr (if p = ''/proc/7/fd/66'' then ''anon_inode:[eventfd]'' else ''/dev/vhost-net''), w)"
  by (simp_all add: lab_host_def qemu_host_def demo_host_def idle_host_def)

lemma lab_ReadFile:
  "h_ReadFile lab_host ''/proc/7/comm'' w = (Inr ''qemu-system-x86'', w)"
  "h_ReadFile lab_host ''/proc/7/stat'' w = (Inr ''7 (q) S 1 1 1 0 1 0 0 0 0 0 0 0 0 0 0 0 1 0 42 0'', w)"
  "h_ReadFile lab_host ''/proc/7/cmdline'' w = (Inr (''q'' @ [CHR 0x00] @ ''-uuid'' @ [CHR 0x00] @ ''AB''), w)"
  "h_ReadFile lab_host (''/proc/7/fdinfo/'' @ p) w = (Inr ''eventfd-id: 0'', w)"
  "h_ReadFile lab_host (''/proc/self/fdinfo/'' @ p) w = (Inr ''eventfd-id: 0'', w)"
  "h_ReadFile lab_host (''/fault-source/'' @ p) w = (Inr ''eventfd-id: 0'', w)"
  by (simp_all add: lab_host_def)

lemma lab_paths:
  "filepath_Join [''/proc'', Itoa 7] = ''/proc/7''" "filepath_Join [''/proc/7'', ''comm''] = ''/proc/7/comm''"
  "filepath_Join [''/proc/7'', ''stat''] = ''/proc/7/stat''" "filepath_Join [''/proc/7'', ''cmdline''] = ''/proc/7/cmdline''"
  by (simp_all add: filepath_Join_def filepath_Clean_def Split_def qemu_Itoa)

lemma lab_snapshot_valid: "Validate lab_snapshot = None"
  by (simp add: Validate_def lab_snapshot_def demo_snapshot_def stuck_snapshot_def zero_Snapshot_def)

lemma lab_process: "\<exists>es. process lab_host s 7 w = (Ok proc_target, es, w)" if "s_ProcRoot s = ''/proc''"
  using that proc_files
  by (simp add: process_def lab_ReadFile lab_paths proc_target_def Let_def io_execs HasPrefix_def)

lemma lab_check: "\<exists>es. Check lab_host s proc_target w = (Ok (), es, w)" if "s_ProcRoot s = ''/proc''"
  using lab_process [OF that, of w] by (auto simp: Check_def io_execs proc_target_def)

lemma lab_resolve:
  "\<exists>es. Resolve lab_host lab_selector () = (Ok (lab_selector\<lparr>s_anchored := [(7, ''42'')]\<rparr>, [], Inr [proc_target]), es, ())"
  using lab_process [of lab_selector "()"]
  by (auto simp: Resolve_def resolve_pid_def lab_selector_def io_execs Let_def proc_target_def)

abbreviation lab_target :: Target where
  "lab_target \<equiv> \<lparr>t_PID = 7, t_pidfd = 5\<rparr>"

lemma lab_open: "\<exists>es. OpenTarget lab_host 7 w = (Ok lab_target, es, w)"
  by (simp add: OpenTarget_def Alive_def CheckAlive_def qemu_Itoa lab_ReadFile io_execs HasPrefix_def Let_def)

lemma lab_Snapshot: "\<exists>es. BPF_Snapshot lab_host fd w = (Ok lab_snapshot, es, w)"
  using lab_snapshot_valid by (simp add: BPF_Snapshot_def io_execs lab_snapshot_def demo_snapshot_def)

lemma lab_Inventory: "\<exists>es. Inventory lab_host lab_target w = (Ok ([42], qemu_events), es, w)"
  using demo_eventfd_id
  by (simp add: Inventory_def inventory_entry_def eventID_def lab_ReadFile [simplified] qemu_Itoa qemu_Atoi io_execs qemu_events_def)

lemma lab_Alive: "Alive lab_host t w = (Ok True, [EPoll (t_pidfd t) (Inr (0, 0))], w)"
  by (simp add: Alive_def CheckAlive_def io_execs)

lemma lab_Rekick: 
  "\<exists>es. Rekick lab_host (recovery_of lab_host lab_target) (BPF_Snapshot lab_host) 9 lab_snapshot qemu_events w = (Ok (), es, w)"
  using lab_snapshot_valid demo_eventfd_id lab_Snapshot [of 9 w]
  by (auto simp: Rekick_def recovery_of_def Duplicate_def lab_Alive eventID_def lab_ReadFile [simplified] io_execs Let_def qemu_events_def
       lab_snapshot_def demo_snapshot_def stuck_snapshot_def zero_Snapshot_def)

lemma lab_clock [simp]: "h_UnixNano lab_host w = (0, w)" "h_ClockGettime lab_host w = (Inr (100, 0), w)" "h_CtxErr lab_host ctx w = (None, w)"
  by (simp_all add: lab_host_def qemu_host_def demo_host_def idle_host_def)

lemma lab_emit: "l_err l = None \<Longrightarrow> \<exists>fs'. emit lab_host l ev fs w = (Ok l, [EEncode fs' None], w)"
  by (simp add: emit_def io_execs Let_def)

end
