(* ===== verification/Rescue.thy ===== *)
theory Rescue
  imports Machine
begin

text \<open>
  What success of the one-shot recovery means: the calls of a rescue that returned without an error split into
  the inventory and one complete verified kick per selected slot, and those of the whole command into one such
  rescue per selected machine.
\<close>

section \<open>One slot\<close>

text \<open>
  The calls of a rescued slot: it is pinned, a valid snapshot is taken, the kick eventfd that the inventory lists for
  the snapshot is given a complete verified kick, and the pin is dropped.
\<close>

definition slot_rescued :: "int \<Rightarrow> eventmap \<Rightarrow> int \<Rightarrow> event list \<Rightarrow> bool" where
  "slot_rescued pidfd events remoteFD es \<longleftrightarrow>
    (\<exists>fd s kick log. es = EPidfdGetfd pidfd remoteFD (Inr fd) # snapshot_events fd s @ kick @ log @ [EClose fd] \<and>
       Validate s = None \<and> events (sn_EventID s) \<noteq> [] \<and>
       verified_kick pidfd fd s (Min (set (events (sn_EventID s)))) (Inr 8) kick \<and> list_all quiet log)"

lemma Rekick_OkD:
  "Rekick h (recovery_of h t) (BPF_Snapshot h) fd s events w = (Ok u, es, w') \<Longrightarrow>
   Validate s = None \<and> events (sn_EventID s) \<noteq> [] \<and>
   verified_kick (t_pidfd t) fd s (Min (set (events (sn_EventID s)))) (Inr 8) es"
  using Rekick_spec [of h t fd s events w] by (simp add: ensures_at_def kick_outcome_def)

lemma Snapshot_OkD: "BPF_Snapshot h fd w = (Ok s, es, w') \<Longrightarrow> es = snapshot_events fd s"
  using Snapshot_spec [of h fd w] by (simp add: ensures_at_def)

lemma rescue_one_OkD:
  assumes "rescue_one h t events remoteFD l w = (Ok l', es, w')"
  shows "slot_rescued (t_pidfd t) events remoteFD es"
proof -
  let ?log = "\<lambda>s. emit h l ''rescue_kick'' [(''vhost_fd'', JInt remoteFD), (''eventfd_id'', JInt (uint (sn_EventID s))),
                (''implementation'', JString ''go'')]"
  let ?kick = "\<lambda>fd s. bindE (Rekick h (recovery_of h t) (BPF_Snapshot h) fd s events) (\<lambda>_.
       bindE (?log s) (\<lambda>l'. bindE (checkE (l_err l')) (\<lambda>_. retE l')))"
  from assms obtain fd es1 w1 es2 where d: "Duplicate h t remoteFD w = (Ok fd, es1, w1)" and es: "es = es1 @ es2"
    and r: "deferE (bindE (BPF_Snapshot h fd) (?kick fd)) (Close h fd) w1 = (Ok l', es2, w')"
    unfolding rescue_one_def by (elim bindE_OkE)
  from r obtain es3 w2 where b: "bindE (BPF_Snapshot h fd) (?kick fd) w1 = (Ok l', es3, w2)" and es2: "es2 = es3 @ [EClose fd]"
    by (elim deferE_OkE) (simp add: callU_def)
  from b obtain s es4 w3 u kick w4 log l2 w5 where s: "BPF_Snapshot h fd w1 = (Ok s, es4, w3)"
    and rk: "Rekick h (recovery_of h t) (BPF_Snapshot h) fd s events w3 = (Ok u, kick, w4)"
    and l: "?log s w4 = (Ok l2, log, w5)" and es3: "es3 = es4 @ kick @ log"
    by (elim bindE_OkE) (auto dest!: checkE_OkE simp: retE_def)
  have "es = EPidfdGetfd (t_pidfd t) remoteFD (Inr fd) # snapshot_events fd s @ kick @ log @ [EClose fd]"
    using callE_OkE [OF d [unfolded Duplicate_def]] Snapshot_OkD [OF s] es es2 es3 by simp
  then show ?thesis unfolding slot_rescued_def using Rekick_OkD [OF rk] traces_ifD [OF emit_quiet l] by blast
qed


section \<open>One machine\<close>

text \<open>
  The calls of a rescued machine: an inventory, then for each of its vhost descriptors in ascending order the rescue of the
  slot, or nothing when the rescue is restricted to another one; at least one slot is rescued.
\<close>

abbreviation in_scope :: "int \<Rightarrow> int \<Rightarrow> bool" where
  "in_scope only fd \<equiv> only < 0 \<or> only = fd"

definition slots_rescued :: "Target \<Rightarrow> int \<Rightarrow> event list \<Rightarrow> bool" where
  "slots_rescued t only es \<longleftrightarrow>
    (\<exists>inv vhosts events segs. es = inv @ concat segs \<and> list_all quiet inv \<and> sorted vhosts \<and> inventory_inv t (vhosts, events) inv \<and>
       list_ex (in_scope only) vhosts \<and>
       list_all2 (\<lambda>fd seg. if in_scope only fd then slot_rescued (t_pidfd t) events fd seg else seg = []) vhosts segs)"

lemma rescue_OkD:
  assumes "rescue h t only l w = (Ok (), es, w')"
  shows "slots_rescued t only es"
proof -
  let ?body = "\<lambda>events remoteFD (written, l).
             if only \<ge> 0 \<and> only \<noteq> remoteFD then retE (written, l)
             else bindE (rescue_one h t events remoteFD l) (\<lambda>l'. retE (True, l'))"
  let ?Q = "\<lambda>events fd seg. if in_scope only fd then slot_rescued (t_pidfd t) events fd seg else seg = []"
  from assms obtain vhosts events inv w1 es2 where i: "Inventory h t w = (Ok (vhosts, events), inv, w1)" and es: "es = inv @ es2"
    and r: "bindE (foldE (?body events) vhosts (False, l)) (\<lambda>(written, l).
      if \<not> written then failE (ErrorString ''no matching vhost TX queue in current inventory'') else retE ()) w1 = (Ok (), es2, w')"
    unfolding rescue_def by (elim bindE_OkE) (auto split: prod.splits)
  from r obtain l' where f: "foldE (?body events) vhosts (False, l) w1 = (Ok (True, l'), es2, w')"
    by (elim bindE_OkE) (auto simp: failE_def retE_def split: if_splits)
  have b: "?Q events fd seg \<and> (fst acc' \<longrightarrow> fst acc \<or> in_scope only fd)"
    if "?body events fd acc w = (Ok acc', seg, w')" for fd acc w acc' seg w'
    using that rescue_one_OkD by (cases acc) (auto simp: retE_def elim!: bindE_OkE split: if_splits)
  have q: "\<exists>segs. es2 = concat segs \<and> list_all2 (?Q events) vhosts segs"
    using foldE_segments [where G = "\<lambda>_. True" and Q = "?Q events", OF _ f] b by blast
  have "ensures_at (foldE (?body events) vhosts (False, l)) w1
      (\<lambda>r es w'. \<forall>acc. r = Ok acc \<longrightarrow> fst acc \<longrightarrow> list_ex (in_scope only) vhosts)"
    using foldE_invariant [where I = "\<lambda>acc (_ :: event list). fst acc \<longrightarrow> list_ex (in_scope only) vhosts" and es = "[]" and
        body = "?body events" and xs = vhosts and s = "(False, l)" and w = w1] b
    by (fastforce simp: ensures_at_def list_ex_iff split: prod.splits)
  with f have "list_ex (in_scope only) vhosts" by (fastforce simp: ensures_at_def)
  moreover have "list_all quiet inv" by (rule traces_ifD [OF no_writes.of_idle [OF Inventory_idle] i]) simp
  moreover have "sorted vhosts \<and> inventory_inv t (vhosts, events) inv" using Inventory_spec [of h t w] i by (simp add: ensures_at_def)
  ultimately show ?thesis unfolding slots_rescued_def using q es by blast
qed

text \<open>Each slot in scope is written to exactly once.\<close>

lemma slot_rescued_writes: "slot_rescued pidfd events fd es \<Longrightarrow> \<exists>e. filter (\<lambda>e. \<not> quiet e) es = [EWrite e (put_u64 1) (Inr 8)]"
proof -
  have "filter (\<lambda>e. \<not> quiet e) (snapshot_events f s) = []" for f s by (simp add: snapshot_events_def)
  moreover have "list_all quiet log \<Longrightarrow> filter (\<lambda>e. \<not> quiet e) log = []" for log by (simp add: filter_empty_conv list_all_iff)
  ultimately show "slot_rescued pidfd events fd es \<Longrightarrow> ?thesis"
    by (auto simp: slot_rescued_def dest!: verified_kick_writes)
qed


section \<open>The whole command\<close>

text \<open>
  The calls of the rescue of one selected machine: its process is opened, its identity read and confirmed, its slots
  rescued, and the process let go.
\<close>

definition target_rescued :: "nat \<Rightarrow> Selector \<Rightarrow> int \<Rightarrow> selection_Target \<Rightarrow> event list \<Rightarrow> bool" where
  "target_rescued ctx sel only t es \<longleftrightarrow>
    (\<exists>pidfd opened checked kicks. es = ECtxErr ctx None # EPidfdOpen (st_PID t) (Inr pidfd) # opened @ checked @ kicks @ [EClose pidfd] \<and>
       list_all quiet opened \<and> list_all quiet checked \<and> shows_process sel t checked \<and>
       slots_rescued \<lparr>t_PID = st_PID t, t_pidfd = pidfd\<rparr> only kicks)"

lemma OpenTarget_OkD:
  assumes "OpenTarget h pid w = (Ok t, es, w')"
  shows "\<exists>opened. es = EPidfdOpen pid (Inr (t_pidfd t)) # opened \<and> list_all quiet opened \<and> t_PID t = pid"
proof -
  have q: "list_all quiet es" by (rule traces_ifD [OF no_writes.of_idle [OF OpenTarget_idle] assms]) simp
  have "\<exists>opened. es = EPidfdOpen pid (Inr (t_pidfd t)) # opened \<and> t_PID t = pid"
    using assms unfolding OpenTarget_def by (elim bindE_OkE) (auto dest!: callE_OkE simp: Let_def retE_def failE_def elim!: bindE_OkE split: if_splits)
  with q show ?thesis by auto
qed


lemma rescue_run_OkD:
  assumes "RunWithBPF n h eb (policy h agent sel t) ctx (Some b) w = (Ok (), es, w')" and "c_Rescue agent"
  shows "target_rescued ctx sel (c_VhostFD agent) t (ECtxErr ctx None # es)"
proof -
  let ?c = "policy h agent sel t"
  have c: "c_Rescue ?c" "c_CheckIdentity ?c = Some (Check h sel t)" "c_PID ?c = st_PID t" "c_VhostFD ?c = c_VhostFD agent"
    using assms(2) by (simp_all add: policy_def)
  from assms(1) c obtain es1 where "run_target n h eb ?c ctx (Some b) w = (Ok (), es, w')"
    by (auto simp: RunWithBPF_def run_def elim!: bindE_OkE dest!: checkE_OkE)
  then obtain target es1 w1 es2 where o: "OpenTarget h (st_PID t) w = (Ok target, es1, w1)" and es: "es = es1 @ es2"
    and a: "deferE (run_attached n h eb ?c ctx (Some b) target) (Target_Close h target) w1 = (Ok (), es2, w')"
    unfolding run_target_def c by (elim bindE_OkE)
  from a obtain es3 w2 where r: "run_attached n h eb ?c ctx (Some b) target w1 = (Ok (), es3, w2)"
    and es2: "es2 = es3 @ [EClose (t_pidfd target)]"
    by (elim deferE_OkE) (simp add: Target_Close_def callU_def)
  from r obtain checked w3 kicks l where k: "Check h sel t w1 = (Ok (), checked, w3)" and es3: "es3 = checked @ kicks"
    and q: "rescue h target (c_VhostFD agent) l w3 = (Ok (), kicks, w2)"
    using c by (auto simp: run_attached_def watch_def Let_def elim!: bindE_OkE)
  have "list_all quiet checked" by (rule traces_ifD [OF no_writes.of_idle [OF Check_idle] k]) simp
  moreover obtain opened where "es1 = EPidfdOpen (st_PID t) (Inr (t_pidfd target)) # opened" "list_all quiet opened"
    and "t_PID target = st_PID t" using OpenTarget_OkD [OF o] by blast
  moreover have "target = \<lparr>t_PID = t_PID target, t_pidfd = t_pidfd target\<rparr>" by simp
  ultimately show ?thesis unfolding target_rescued_def
    using Check_OkD [OF k] rescue_OkD [OF q] es es2 es3 by (metis append.assoc append_Cons)
qed

lemma one_shot_target_OkD:
  assumes "one_shot_target n h eb cfg ctx sel b t acc w = (Ok acc', es, w')" and "c_Rescue (m_Agent cfg)" "\<not> m_ListQueues cfg"
    and "fst acc' = 0"
  shows "fst acc = 0 \<and> target_rescued ctx sel (c_VhostFD (m_Agent cfg)) t es"
proof -
  from assms(1,3) obtain e es1 where "CtxErr h ctx w = (Ok None, [ECtxErr ctx None], e)"
    and r: "bindE (rescue_target n h eb (m_Agent cfg) ctx sel b t (snd acc)) (\<lambda>(e, lg).
        case e of
          None \<Rightarrow> retE (fst acc, lg)
        | Some e \<Rightarrow>
            bindE (emit h lg ''target_failed'' [(''pid'', JInt (st_PID t)), (''domain'', JString (st_Domain t)),
                     (''error'', JError e)]) (\<lambda>lg.
            retE (Suc (fst acc), lg))) e = (Ok acc', es1, w')" and es: "es = ECtxErr ctx None # es1"
    unfolding one_shot_target_def
    by (elim bindE_OkE) (auto simp: callV_def failE_def split: option.splits prod.splits elim!: bindE_OkE)
  from r assms(4) obtain lg w1 where "rescue_target n h eb (m_Agent cfg) ctx sel b t (snd acc) e = (Ok (None, lg), es1, w1)"
    and f: "fst acc = 0"
    by (elim bindE_OkE) (auto simp: retE_def split: option.splits elim!: bindE_OkE)
  then have "RunWithBPF n h eb (policy h (m_Agent cfg) sel t) ctx (Some b) e = (Ok (), es1, w1)"
    unfolding rescue_target_def
    by (elim bindE_OkE) (auto simp: retE_def split: sum.splits dest!: attempt_InrE)
  then show ?thesis using rescue_run_OkD assms(2) es f by simp
qed

lemma one_shot_OkD:
  assumes "one_shot n h eb cfg ctx sel b targets problems lg w = (Ok (), es, w')" and "c_Rescue (m_Agent cfg)" "\<not> m_ListQueues cfg"
  shows "problems = [] \<and> (\<exists>segs. es = concat segs \<and> list_all2 (target_rescued ctx sel (c_VhostFD (m_Agent cfg))) targets segs)"
proof -
  from assms(1) obtain acc where f: "foldE (one_shot_target n h eb cfg ctx sel b) targets (length problems, lg) w = (Ok acc, es, w')"
    and "fst acc = 0"
    unfolding one_shot_def by (elim bindE_OkE) (auto simp: failE_def split: if_splits prod.splits dest!: checkE_OkE)
  then have "fst (length problems, lg) = 0 \<and>
      (\<exists>segs. es = concat segs \<and> list_all2 (target_rescued ctx sel (c_VhostFD (m_Agent cfg))) targets segs)"
    by (intro foldE_segments [where G = "\<lambda>acc. fst acc = 0", OF one_shot_target_OkD [OF _ assms(2,3)] f])
  then show ?thesis by simp
qed


lemma filter_concat_segments:
  assumes "list_all2 (\<lambda>x seg. if p x then length (filter q seg) = 1 else seg = []) xs segs"
  shows "length (filter q (concat segs)) = length (filter p xs)"
  using assms by (induction rule: list_all2_induct) (auto split: if_splits)

text \<open>
  C16. A rescue of a machine that returns without an error has, after one inventory of the descriptors of the
  process, given every vhost slot of that inventory (the named one, when the rescue is restricted to it) one complete verified
  kick through the eventfd that the inventory lists for it, in ascending order, and has written nothing else.
\<close>

theorem rescue_kicks_each_slot_once:
  assumes "rescue h t only l w = (Ok (), es, w')"
  shows "\<exists>inv vhosts events segs. es = inv @ concat segs \<and> sorted vhosts \<and> inventory_inv t (vhosts, events) inv \<and>
     list_ex (in_scope only) vhosts \<and>
     list_all2 (\<lambda>fd seg. if in_scope only fd then slot_rescued (t_pidfd t) events fd seg else seg = []) vhosts segs \<and>
     length (filter (\<lambda>e. \<not> quiet e) es) = length (filter (in_scope only) vhosts)"
proof -
  obtain inv vhosts events segs where es: "es = inv @ concat segs" and q: "list_all quiet inv" and
    i: "sorted vhosts" "inventory_inv t (vhosts, events) inv" "list_ex (in_scope only) vhosts" and
    l: "list_all2 (\<lambda>fd seg. if in_scope only fd then slot_rescued (t_pidfd t) events fd seg else seg = []) vhosts segs"
    using rescue_OkD [OF assms] unfolding slots_rescued_def by blast
  have "list_all2 (\<lambda>fd seg. if in_scope only fd then length (filter (\<lambda>e. \<not> quiet e) seg) = 1 else seg = []) vhosts segs"
    using l by (rule list_all2_mono) (auto dest: slot_rescued_writes split: if_splits)
  then have "length (filter (\<lambda>e. \<not> quiet e) es) = length (filter (in_scope only) vhosts)"
    using q es by (simp add: filter_concat_segments filter_empty_conv list_all_iff)
  with es i l show ?thesis by blast
qed

text \<open>
  The calls of a one-shot recovery that succeeded: the selection is resolved without a problem to at least one
  machine, and machine by machine the process is opened, its identity confirmed and its slots rescued.
\<close>

definition machines_rescued :: "'w host \<Rightarrow> nat \<Rightarrow> Selector \<Rightarrow> int \<Rightarrow> 'w \<Rightarrow> event list \<Rightarrow> bool" where
  "machines_rescued h ctx sel0 only w es \<longleftrightarrow>
    (\<exists>sel targets resolved w1 pre segs post. Resolve h sel0 w = (Ok (sel, [], Inr targets), resolved, w1) \<and> targets \<noteq> [] \<and>
       es = resolved @ pre @ concat segs @ post \<and> list_all quiet (resolved @ pre @ post) \<and>
       list_all2 (target_rescued ctx sel only) targets segs)"

lemma RunSelected_rescue_OkD:
  assumes "RunSelected n h eb g ctx cfg w = (Ok (), es, w')" and "c_Rescue (m_Agent cfg)"
  shows "\<exists>sel0. m_Selector cfg = Some sel0 \<and> machines_rescued h ctx sel0 (c_VhostFD (m_Agent cfg)) w es"
proof -
  let ?c = "m_Agent cfg"
  from assms obtain sel0 where s0: "m_Selector cfg = Some sel0" by (auto simp: RunSelected_def failE_def split: option.splits)
  from assms s0 obtain sel problems targets resolved w1 lg pre1 w2 b pre2 w3 es1 where
      r: "Resolve h sel0 w = (Ok (sel, problems, Inr targets), resolved, w1)" and n: "\<not> m_ListQueues cfg" "targets \<noteq> []"
    and e: "emit_all h ''target_unavailable'' (map (\<lambda>e. [(''error'', JError e)]) problems)
             \<lparr>l_err = None, l_pid = 0, l_domain = ''''\<rparr> w1 = (Ok lg, pre1, w2)"
    and o: "OpenBPF eb (c_BPFObject ?c) (c_TraceStages ?c) w2 = (Ok b, pre2, w3)"
    and d: "deferE (one_shot n h eb cfg ctx sel b targets problems lg) (BPF_Close eb b) w3 = (Ok (), es1, w')"
    and es: "es = resolved @ pre1 @ pre2 @ es1"
    by (auto simp: RunSelected_def Let_def failE_def elim!: bindE_OkE dest!: checkE_OkE split: if_splits sum.splits prod.splits)
  from d obtain es2 w4 z post where o2: "one_shot n h eb cfg ctx sel b targets problems lg w3 = (Ok (), es2, w4)"
    and c: "BPF_Close eb b w4 = (z, post, w')" and es1: "es1 = es2 @ post" by (elim deferE_OkE)
  have "list_all quiet (resolved @ (pre1 @ pre2) @ post)"
    using traces_ifD [OF no_writes.of_idle [OF Resolve_idle] r] traces_ifD [OF no_writes.of_idle [OF emit_all_idle] e]
      traces_ifD [OF no_writes.of_idle [OF OpenBPF_idle] o] traces_ifD [OF no_writes.of_idle [OF BPF_Close_idle] c] by simp
  moreover obtain segs where "problems = []" "es2 = concat segs" "list_all2 (target_rescued ctx sel (c_VhostFD ?c)) targets segs"
    using one_shot_OkD [OF o2 assms(2) n(1)] by blast
  moreover have "es = resolved @ (pre1 @ pre2) @ es2 @ post" using es es1 by simp
  ultimately show ?thesis unfolding machines_rescued_def using s0 r n(2) by blast
qed


section \<open>A rescued machine\<close>

lemma lab_rescue: "l_err l = None \<Longrightarrow> \<exists>es. rescue lab_host lab_target (-1) l w = (Ok (), es, w)"
proof -
  assume "l_err l = None"
  then obtain fs where "emit lab_host l ''rescue_kick'' [(''vhost_fd'', JInt 42),
      (''eventfd_id'', JInt (uint (sn_EventID lab_snapshot))), (''implementation'', JString ''go'')] w = (Ok l, [EEncode fs None], w)"
    using lab_emit by blast
  with \<open>l_err l = None\<close> show ?thesis using lab_Inventory [of w] lab_Snapshot [of 9 w] lab_Rekick [of w]
    by (auto simp: rescue_def rescue_one_def Duplicate_def io_execs)
qed

theorem rescue_kicks_each_slot_once_witness:
  "\<exists>es (vhosts :: int list). rescue lab_host lab_target (-1) \<lparr>l_err = None, l_pid = 7, l_domain = ''''\<rparr> () = (Ok (), es, ()) \<and> vhosts \<noteq> [] \<and>
     length (filter (\<lambda>e. \<not> quiet e) es) = length vhosts"
proof -
  obtain es where r: "rescue lab_host lab_target (-1) \<lparr>l_err = None, l_pid = 7, l_domain = ''''\<rparr> () = (Ok (), es, ())"
    using lab_rescue [of "\<lparr>l_err = None, l_pid = 7, l_domain = ''''\<rparr>" "()"] by auto
  obtain vhosts where "list_ex (in_scope (-1)) vhosts" "length (filter (\<lambda>e. \<not> quiet e) es) = length (filter (in_scope (-1)) vhosts)"
    using rescue_kicks_each_slot_once [OF r] by blast
  then show ?thesis using r by (intro exI [of _ es] exI [of _ vhosts]) (auto simp: list_ex_iff)
qed

end
