(* ===== verification/Fault.thy ===== *)
theory Fault
  imports Panics Selection
begin

text \<open>
  \<^verbatim>\<open>internal/fault/run_linux.go\<close>: the bounded lost-wakeup experiment.  A kernel module that drops wakeups of one queue
  is built, loaded for a delay and a window, unloaded, and the queue is kicked again unless it was seen to
  make progress by itself.  The tools the controller calls beyond the host are the record \<open>lab\<close>: the
  file system, \<^verbatim>\<open>make\<close>, the module system calls, the ticker.  Times and durations are integers of nanoseconds.
\<close>

record 'w lab =
  x_MkdirTemp :: "'w \<Rightarrow> (error + string) \<times> 'w"
  x_RemoveAll :: "string \<Rightarrow> 'w \<Rightarrow> 'w"
  x_WriteFile :: "string \<Rightarrow> string \<Rightarrow> 'w \<Rightarrow> error option \<times> 'w"
  x_Make :: "string list \<Rightarrow> 'w \<Rightarrow> error option \<times> 'w"
  x_Uname :: "'w \<Rightarrow> (error + string) \<times> 'w"
  x_Stat :: "string \<Rightarrow> 'w \<Rightarrow> error option \<times> 'w"
  x_FinitModule :: "int \<Rightarrow> string \<Rightarrow> 'w \<Rightarrow> error option \<times> 'w"
  x_DeleteModule :: "string \<Rightarrow> 'w \<Rightarrow> error option \<times> 'w"
  x_Sleep :: "int \<Rightarrow> 'w \<Rightarrow> 'w"
  x_Now :: "'w \<Rightarrow> int \<times> 'w"
  x_Tick :: "'w \<Rightarrow> int option \<times> 'w"

text \<open>The wait for the context or the ticker: \<open>None\<close> when the context was done, else the time of the tick.\<close>

abbreviation Tick :: "'w lab \<Rightarrow> (event, 'w, int option) io" where
  "Tick x \<equiv> callV (x_Tick x) (\<lambda>r. [ETick r])"

abbreviation DeleteModule :: "'w lab \<Rightarrow> (event, 'w, unit) io" where
  "DeleteModule x \<equiv> callO (x_DeleteModule x ''vhost_fault'') (EDeleteModule ''vhost_fault'')"

abbreviation RemoveAll :: "'w lab \<Rightarrow> string \<Rightarrow> (event, 'w, unit) io" where
  "RemoveAll x dir \<equiv> callU (x_RemoveAll x dir) (ERemoveAll dir)"

section \<open>Configuration\<close>

record fault_Config =
  f_Selector :: "Selector option"
  f_VhostFD :: int
  f_Delay :: int
  f_Window :: int
  f_RecoverAfter :: int
  f_Drops :: nat
  f_BPFObject :: string
  f_SourceDir :: string
  f_StateDir :: string
  f_KernelBuildDir :: string
  f_Compiler :: string
  f_Cleanup :: bool

abbreviation time_Millisecond :: int where
  "time_Millisecond \<equiv> 1000000"

abbreviation time_Minute :: int where
  "time_Minute \<equiv> 60000000000"

text \<open>The remainder of Go truncates towards zero; it is zero exactly when \<open>mod\<close> is.\<close>

definition validate :: "fault_Config \<Rightarrow> error option" where
  "validate c =
    (if f_Cleanup c then None
     else if f_Selector c = None \<or> f_VhostFD c < 0 then Some (ErrorString ''one selected VM and --vhost-fd are required'')
     else if f_Delay c < 0 \<or> f_Delay c > time_Minute \<or> f_Window c < time_Millisecond \<or> f_Window c > time_Minute \<or>
             f_Delay c mod time_Millisecond \<noteq> 0 \<or> f_Window c mod time_Millisecond \<noteq> 0
     then Some (ErrorString ''delay must be 0..60s and window 1ms..60s, in whole milliseconds'')
     else if f_Drops c < 1 \<or> f_Drops c > 1000000 \<or> f_RecoverAfter c < 0
     then Some (ErrorString ''drops must be 1..1000000 and recover-after must be nonnegative'')
     else None)"

section \<open>The module\<close>

text \<open>An error after the directory was made removes the directory.\<close>

definition or_clean :: "'w lab \<Rightarrow> string \<Rightarrow> (event, 'w, 'a) io \<Rightarrow> (event, 'w, 'a) io" where
  "or_clean x dir m =
    bindE (attempt m) (\<lambda>r.
    case r of Inl e \<Rightarrow> bindE (RemoveAll x dir) (\<lambda>_. failE e) | Inr y \<Rightarrow> retE y)"

definition copy_source :: "'w host \<Rightarrow> 'w lab \<Rightarrow> fault_Config \<Rightarrow> string \<Rightarrow> string \<Rightarrow> (event, 'w, unit) io" where
  "copy_source h x c dir name =
    bindE (or_clean x dir (ReadFile h (filepath_Join [f_SourceDir c, name]))) (\<lambda>data.
    or_clean x dir (callO (x_WriteFile x (filepath_Join [dir, name]) data) (EWriteFile (filepath_Join [dir, name]) data)))"

definition kernel_dir :: "'w lab \<Rightarrow> fault_Config \<Rightarrow> string \<Rightarrow> (event, 'w, string) io" where
  "kernel_dir x c dir =
    (if f_KernelBuildDir c = ''''
     then bindE (or_clean x dir (callE (x_Uname x) EUname)) (\<lambda>release.
          retE (filepath_Join [''/lib/modules'', release, ''build'']))
     else retE (f_KernelBuildDir c))"

text \<open>
  The module and the directory that the returned function removes.  The output of \<^verbatim>\<open>make\<close> that the
  error message quotes is left out.
\<close>

definition build :: "'w host \<Rightarrow> 'w lab \<Rightarrow> fault_Config \<Rightarrow> (event, 'w, string \<times> string) io" where
  "build h x c =
    bindE (callE (x_MkdirTemp x) EMkdirTemp) (\<lambda>dir.
    bindE (forE [''Makefile'', ''vhost_fault.c''] (copy_source h x c dir)) (\<lambda>_.
    bindE (kernel_dir x c dir) (\<lambda>kdir.
    let args = [''-C'', dir, ''KDIR='' @ kdir, ''CC='' @ f_Compiler c] in
    bindE (attempt (callO (x_Make x args) (EMake args))) (\<lambda>r.
    case r of
      Inl e \<Rightarrow> bindE (RemoveAll x dir) (\<lambda>_. failE (Wrap ''build against Host kernel headers'' e))
    | Inr _ \<Rightarrow> retE (filepath_Join [dir, ''vhost_fault.ko''], dir)))))"

definition module_param :: "'w host \<Rightarrow> string \<Rightarrow> fields \<Rightarrow> (event, 'w, fields) io" where
  "module_param h name row =
    bindE (ReadFile h (''/sys/module/vhost_fault/parameters/'' @ name)) (\<lambda>data.
    let value = TrimSpace data in
    if name = ''active'' then retE (AList.update name (JBool (value = ''Y'')) row)
    else (case ParseUint value 64 of Inl e \<Rightarrow> failE e | Inr n \<Rightarrow> retE (AList.update name (JUint64 (of_nat n)) row)))"

definition moduleStats :: "'w host \<Rightarrow> (event, 'w, fields) io" where
  "moduleStats h = foldE (module_param h) [''matched'', ''dropped'', ''active''] []"

text \<open>The loop of \<^verbatim>\<open>unload\<close> with the attempts that are left.\<close>

fun unload_tries :: "nat \<Rightarrow> 'w lab \<Rightarrow> (event, 'w, unit) io" where
  "unload_tries 0 x = failE (ErrorString ''fault module remained busy'')"
| "unload_tries (Suc n) x =
    bindE (attempt (DeleteModule x)) (\<lambda>r.
    case r of
      Inr _ \<Rightarrow> retE ()
    | Inl e \<Rightarrow>
        if errors_Is e ENOENT then retE ()
        else if \<not> errors_Is e EAGAIN \<and> \<not> errors_Is e EBUSY then failE e
        else bindE (callU (x_Sleep x (10 * time_Millisecond)) (ESleep (10 * time_Millisecond))) (\<lambda>_. unload_tries n x))"

definition unload :: "'w lab \<Rightarrow> (event, 'w, unit) io" where
  "unload x = unload_tries 100 x"

section \<open>The controller\<close>

definition fault_log :: "'w host \<Rightarrow> 'w lab \<Rightarrow> string \<Rightarrow> fields \<Rightarrow> (event, 'w, unit) io" where
  "fault_log h x ev row =
    bindE (callV (x_Now x) (\<lambda>_. [])) (\<lambda>now.
    let line = AList.update ''time'' (JTime now) (AList.update ''event'' (JString ev) row) in
    bindE (callV (h_Encode h line) (\<lambda>r. [EEncode line r])) (\<lambda>_. retE ()))"

text \<open>The closure \<^verbatim>\<open>recover\<close>.\<close>

definition fault_recover ::
  "'w host \<Rightarrow> fault_Config \<Rightarrow> Selector \<Rightarrow> selection_Target \<Rightarrow> Target \<Rightarrow> Snapshot \<Rightarrow> (event, 'w, unit) io" where
  "fault_recover h c sel identity target snapshot =
    bindE (Check h sel identity) (\<lambda>_.
    bindE (Duplicate h target (f_VhostFD c)) (\<lambda>currentFD.
    deferE
      (bindE (BPF_Snapshot h currentFD) (\<lambda>current.
       if Identity current \<noteq> Identity snapshot then failE (ErrorString ''TX attachment changed; refusing recovery'')
       else bindE (Inventory h target) (\<lambda>(_, events).
       Rekick h (recovery_of h target) (BPF_Snapshot h) currentFD current events)))
      (Close h currentFD)))"

record fvars =
  fv_loaded :: bool
  fv_recovered :: bool
  fv_haveBaseline :: bool
  fv_baselineUsed :: u16

text \<open>What the closures share: the selection, the attached process, the snapshot.\<close>

record subject =
  sj_Selector :: Selector
  sj_identity :: selection_Target
  sj_target :: Target
  sj_snapshot :: Snapshot

definition subject_fields :: "fault_Config \<Rightarrow> subject \<Rightarrow> fields" where
  "subject_fields c sj = [(''pid'', JInt (st_PID (sj_identity sj))), (''vhost_fd'', JInt (f_VhostFD c))]"

text \<open>
  A deferred function that reads and sets the named result (\<open>None\<close> is \<^verbatim>\<open>nil\<close>).  When the body has
  panicked, it runs too and the panic goes on.
\<close>

definition deferR :: "('e, 'w, unit) io \<Rightarrow> (error option \<Rightarrow> ('e, 'w, error option) io) \<Rightarrow> ('e, 'w, unit) io" where
  "deferR m d w = (case m w of (r, es, w') \<Rightarrow>
     (if r = Running then (Running, es, w')
      else (case d (case r of Err e \<Rightarrow> Some e | _ \<Rightarrow> None) w' of (r2, es2, w2) \<Rightarrow>
        ((case r2 of
            Ok result \<Rightarrow> (case r of Panic e \<Rightarrow> Panic e | _ \<Rightarrow> (case result of None \<Rightarrow> Ok () | Some e \<Rightarrow> Err e))
          | Err e \<Rightarrow> Err e | Panic e \<Rightarrow> Panic e | Running \<Rightarrow> Running), es @ es2, w2))))"

text \<open>\<^verbatim>\<open>errors.Join(result, err)\<close>: the errors that are not \<^verbatim>\<open>nil\<close>.\<close>

definition join_result :: "error option \<Rightarrow> error \<Rightarrow> error" where
  "join_result result e = Join ((case result of None \<Rightarrow> [] | Some r \<Rightarrow> [r]) @ [e])"

text \<open>The deferred function: unload what is loaded, then kick unless the queue has recovered.\<close>

definition finish ::
  "'w host \<Rightarrow> 'w lab \<Rightarrow> fault_Config \<Rightarrow> subject \<Rightarrow> error option \<Rightarrow> (event, fvars \<times> 'w, error option) io" where
  "finish h x c sj result =
    bindE getE (\<lambda>v.
    bindE (if fv_loaded v then attempt (liftE (unload x)) else retE (Inr ())) (\<lambda>r.
    case r of
      Inl e \<Rightarrow> retE (Some (join_result result (Wrap ''unload'' e)))
    | Inr _ \<Rightarrow>
        bindE (if fv_recovered v then retE False else liftE (Alive h (sj_target sj))) (\<lambda>kick.
        if \<not> kick then retE result
        else bindE (attempt (liftE (fault_recover h c (sj_Selector sj) (sj_identity sj) (sj_target sj) (sj_snapshot sj)))) (\<lambda>r.
        case r of
          Inl e \<Rightarrow>
            bindE (liftE (fault_log h x ''recovery_failed'' [(''error'', JError e)])) (\<lambda>_.
            retE (Some (join_result result (Wrap ''cleanup recovery'' e))))
        | Inr _ \<Rightarrow>
            bindE (liftE (fault_log h x ''recovery_written'' (subject_fields c sj))) (\<lambda>_. retE result)))))"

text \<open>After the window: read the counters, unload, and take the baseline.\<close>

definition disarm :: "'w host \<Rightarrow> 'w lab \<Rightarrow> subject \<Rightarrow> (event, fvars \<times> 'w, unit) io" where
  "disarm h x sj =
    bindE (liftE (moduleStats h)) (\<lambda>stats.
    bindE (liftE (unload x)) (\<lambda>_.
    bindE (modE (\<lambda>v. v\<lparr>fv_loaded := False\<rparr>)) (\<lambda>_.
    bindE (liftE (fault_log h x ''disarmed'' (AList.update ''active'' (JBool False) stats))) (\<lambda>_.
    bindE
      (case map_of stats ''dropped'' of
         Some (JUint64 n) \<Rightarrow>
           if n = 0 then failE (ErrorString ''no matching wakeup was dropped; injection did not occur'') else retE ()
       | _ \<Rightarrow> panicE (ErrorString ''interface conversion''))
      (\<lambda>_.
       bindE (liftE (Ring h (sj_target sj) (sj_snapshot sj))) (\<lambda>(_, used).
       modE (\<lambda>v. v\<lparr>fv_baselineUsed := used, fv_haveBaseline := True\<rparr>)))))))"

text \<open>Whether the queue has moved since the baseline.\<close>

definition observe_progress :: "'w host \<Rightarrow> 'w lab \<Rightarrow> fault_Config \<Rightarrow> subject \<Rightarrow> (event, fvars \<times> 'w, bool) io" where
  "observe_progress h x c sj =
    bindE getE (\<lambda>v.
    if \<not> fv_haveBaseline v then retE False
    else bindE (liftE (Ring h (sj_target sj) (sj_snapshot sj))) (\<lambda>(_, used).
    if used = fv_baselineUsed v then retE False
    else bindE (modE (\<lambda>v. v\<lparr>fv_recovered := True\<rparr>)) (\<lambda>_.
         bindE (liftE (fault_log h x ''progress_observed'' (subject_fields c sj))) (\<lambda>_. retE True))))"

text \<open>One pass of the loop; \<open>True\<close>: go on.\<close>

definition fault_tick :: "'w host \<Rightarrow> 'w lab \<Rightarrow> fault_Config \<Rightarrow> subject \<Rightarrow> int \<Rightarrow> (event, fvars \<times> 'w, bool) io" where
  "fault_tick h x c sj windowEnd =
    bindE (liftE (Tick x)) (\<lambda>tick.
    case tick of
      None \<Rightarrow> retE False
    | Some now \<Rightarrow>
        bindE (liftE (Alive h (sj_target sj))) (\<lambda>alive.
        if \<not> alive then failE (ErrorString ''target QEMU exited'')
        else
          bindE getE (\<lambda>v.
          bindE (if fv_loaded v \<and> windowEnd \<le> now then disarm h x sj else retE ()) (\<lambda>_.
          bindE (observe_progress h x c sj) (\<lambda>progress.
          if progress then retE False
          else bindE getE (\<lambda>v.
          if \<not> fv_loaded v \<and> f_RecoverAfter c > 0 \<and> windowEnd + f_RecoverAfter c \<le> now
          then bindE (liftE (fault_log h x ''recovery_deadline'' [])) (\<lambda>_. retE False)
          else retE True)))))) "

fun fault_loop :: "nat \<Rightarrow> 'w host \<Rightarrow> 'w lab \<Rightarrow> fault_Config \<Rightarrow> subject \<Rightarrow> int \<Rightarrow> (event, fvars \<times> 'w, unit) io" where
  "fault_loop 0 h x c sj windowEnd = runningE"
| "fault_loop (Suc n) h x c sj windowEnd =
    bindE (fault_tick h x c sj windowEnd) (\<lambda>continue. if continue then fault_loop n h x c sj windowEnd else retE ())"

definition armed_fields :: "fault_Config \<Rightarrow> subject \<Rightarrow> fields" where
  "armed_fields c sj = [(''pid'', JInt (st_PID (sj_identity sj))), (''domain'', JString (st_Domain (sj_identity sj))),
     (''vhost_fd'', JInt (f_VhostFD c)), (''delay'', JDuration (f_Delay c)), (''window'', JDuration (f_Window c)),
     (''max_drops'', JInt (int (f_Drops c))), (''recover_after'', JDuration (f_RecoverAfter c))]"

text \<open>From the loaded module to the end.\<close>

definition run_experiment :: "nat \<Rightarrow> 'w host \<Rightarrow> 'w lab \<Rightarrow> fault_Config \<Rightarrow> subject \<Rightarrow> (event, 'w, unit) io" where
  "run_experiment n h x c sj =
    localE \<lparr>fv_loaded = True, fv_recovered = False, fv_haveBaseline = False, fv_baselineUsed = 0\<rparr>
      (deferR
        (bindE (liftE (fault_log h x ''armed'' (armed_fields c sj))) (\<lambda>_.
         bindE (liftE (callV (x_Now x) (\<lambda>t. [ENow t]))) (\<lambda>now.
         fault_loop n h x c sj (now + (f_Delay c + f_Window c)))))
        (finish h x c sj))"

definition module_params :: "fault_Config \<Rightarrow> int \<Rightarrow> Snapshot \<Rightarrow> string" where
  "module_params c fd s = ''target_fd='' @ Itoa fd @ '' target_wait='' @ Itoa (uint (sn_Wait s)) @
     '' delay_ms='' @ Itoa (f_Delay c div time_Millisecond) @ '' window_ms='' @ Itoa (f_Window c div time_Millisecond) @
     '' max_drops='' @ Itoa (int (f_Drops c))"

definition load_module :: "'w host \<Rightarrow> 'w lab \<Rightarrow> string \<Rightarrow> string \<Rightarrow> (event, 'w, unit) io" where
  "load_module h x ko params =
    bindE (OpenFile h ko) (\<lambda>f.
    bindE (attempt (callO (x_FinitModule x f params) (EFinitModule f params))) (\<lambda>r.
    bindE (Close h f) (\<lambda>_.
    case r of Inl e \<Rightarrow> failE (Wrap ''load Host fault module'' e) | Inr _ \<Rightarrow> retE ())))"

text \<open>With the queue pinned and the probes in place.\<close>

definition inject ::
  "nat \<Rightarrow> 'w host \<Rightarrow> 'w lab \<Rightarrow> fault_Config \<Rightarrow> Selector \<Rightarrow> selection_Target \<Rightarrow> string \<Rightarrow> Target \<Rightarrow> int \<Rightarrow> (event, 'w, unit) io" where
  "inject n h x c sel identity ko target fd =
    bindE (BPF_Snapshot h fd) (\<lambda>snapshot.
    if sn_Wait snapshot = 0 then failE (ErrorString ''TX queue has no identifiable waiter'')
    else bindE (load_module h x ko (module_params c fd snapshot)) (\<lambda>_.
    run_experiment n h x c \<lparr>sj_Selector = sel, sj_identity = identity, sj_target = target, sj_snapshot = snapshot\<rparr>))"

definition attach_and_inject ::
  "nat \<Rightarrow> 'w host \<Rightarrow> 'w ebpf \<Rightarrow> 'w lab \<Rightarrow> fault_Config \<Rightarrow> Selector \<Rightarrow> selection_Target \<Rightarrow> string \<Rightarrow> (event, 'w, unit) io" where
  "attach_and_inject n h eb x c sel identity ko =
    bindE (OpenTarget h (st_PID identity)) (\<lambda>target.
    deferE
      (bindE (Check h sel identity) (\<lambda>_.
       bindE (Duplicate h target (f_VhostFD c)) (\<lambda>fd.
       deferE
         (bindE (OpenBPF eb (f_BPFObject c) False) (\<lambda>b.
          deferE (inject n h x c sel identity ko target fd) (BPF_Close eb b)))
         (Close h fd))))
      (Target_Close h target))"

definition cleanup :: "'w host \<Rightarrow> 'w lab \<Rightarrow> (event, 'w, unit) io" where
  "cleanup h x = bindE (unload x) (\<lambda>_. fault_log h x ''cleaned'' [(''recovery_written'', JBool False)])"

text \<open>With the lock of the controller held.\<close>

definition control :: "nat \<Rightarrow> 'w host \<Rightarrow> 'w ebpf \<Rightarrow> 'w lab \<Rightarrow> fault_Config \<Rightarrow> (event, 'w, unit) io" where
  "control n h eb x c =
    (if f_Cleanup c then cleanup h x
     else
       bindE (callV (x_Stat x ''/sys/module/vhost_fault'') (\<lambda>r. [EStat ''/sys/module/vhost_fault'' r])) (\<lambda>st.
       case st of
         None \<Rightarrow> failE (ErrorString ''vhost_fault is already loaded; stop its controller or use --cleanup first'')
       | Some e \<Rightarrow>
       if \<not> errors_Is e ENOENT then failE e
       else
       (case f_Selector c of
          None \<Rightarrow> panicE (ErrorString ''nil pointer dereference'')
        | Some s \<Rightarrow>
       bindE (Resolve h s) (\<lambda>(sel, problems, res).
       case res of
         Inl e \<Rightarrow> failE e
       | Inr targets \<Rightarrow>
       if length problems \<noteq> 0 then failE (Join problems)
       else if length targets \<noteq> 1
       then failE (ErrorString (''fault injection requires exactly one VM; selected '' @ Itoa (int (length targets))))
       else
       (case targets of
          [] \<Rightarrow> panicE (ErrorString ''index out of range'')
        | identity # _ \<Rightarrow>
         bindE (build h x c) (\<lambda>(ko, dir).
         deferE (attach_and_inject n h eb x c sel identity ko) (RemoveAll x dir)))))))"

definition fault_Run :: "nat \<Rightarrow> 'w host \<Rightarrow> 'w ebpf \<Rightarrow> 'w lab \<Rightarrow> fault_Config \<Rightarrow> (event, 'w, unit) io" where
  "fault_Run n h eb x c =
    bindE (checkE (validate c)) (\<lambda>_.
    bindE (MkdirAll h (f_StateDir c)) (\<lambda>_.
    bindE (OpenFile h (filepath_Join [f_StateDir c, ''fault.lock''])) (\<lambda>lock.
    deferE
      (bindE (attempt (Flock h lock)) (\<lambda>r.
       case r of
         Inl e \<Rightarrow> failE (ErrorString ''another fault controller owns this Host lock'')
       | Inr _ \<Rightarrow> control n h eb x c))
      (Close h lock))))"

end
