(* ===== verification/Probes.thy ===== *)
theory Probes
  imports Supervision
begin

text \<open>
  The probes in the kernel: whoever loads them removes them, on every path.
\<close>

abbreviation detached :: "event list \<Rightarrow> bool" where
  "detached es \<equiv> \<forall>M. attached es M = Some M"

text \<open>What a \<^verbatim>\<open>*BPF\<close> holds.\<close>

definition holds :: "BPF \<Rightarrow> (nat + nat) multiset" where
  "holds b = add_mset (Inr (b_collection b)) (image_mset Inl (mset (b_links b)))"

lemma detach_all:
  "ensures_at (forE ls (\<lambda>l. callU (e_CloseLink eb l) (EBpfDetach l))) w (\<lambda>r es w'. r = Ok () \<and>
     (\<forall>M. attached es (M + image_mset Inl (mset ls)) = Some M))"
proof (induction ls arbitrary: w)
  case (Cons l ls)
  show ?case by (auto simp: ensures_at_bind ensures_at_calls intro!: ensures_at_mono [OF Cons])
qed simp

lemma BPF_Close_detaches:
  "ensures_at (BPF_Close eb b) w (\<lambda>r es w'. r = Ok () \<and> (\<forall>M. attached es (M + holds b) = Some M))"
proof -
  have "ensures_at (BPF_Close eb b) w (\<lambda>r es w'. r = Ok () \<and>
      (\<forall>M. attached es (add_mset (Inr (b_collection b)) M + image_mset Inl (mset (rev (b_links b)))) = Some M))"
    unfolding BPF_Close_def
    by (rule ensures_at_bindI [OF detach_all [of "rev (b_links b)"]])
       (auto simp: ensures_at_calls attached_append simp del: union_mset_add_mset_left union_mset_add_mset_right)
  then show ?thesis by (rule ensures_at_mono) (simp add: holds_def)
qed

lemma attach_probes_holds:
  "ensures_at (attach_probes eb ps b) w (\<lambda>r es w'. \<exists>e b'. r = Ok (e, b') \<and> b_collection b' = b_collection b \<and>
     (\<forall>M. attached es (M + holds b) = Some (M + holds b')))"
proof (induction eb ps b arbitrary: w rule: attach_probes.induct)
  case (2 eb name symbol ret rest b)
  show ?case
  proof (cases "name \<noteq> ''snapshot_tx'' \<and> \<not> b_traceStages b \<or> \<not> e_HasProgram eb (b_collection b) name")
    case True
    then show ?thesis using 2(1) by auto
  next
    case False
    obtain a w1 where a: "e_Attach eb ret symbol name w = (a, w1)" by fastforce
    show ?thesis
    proof (cases a)
      case (Inl e)
      then show ?thesis using False a by (auto simp: ensures_at_rules ensures_at_calls)
    next
      case (Inr l)
      have "ensures_at (attach_probes eb rest (b\<lparr>b_links := b_links b @ [l]\<rparr>)) w1 (\<lambda>r es w'.
        \<exists>e b'. r = Ok (e, b') \<and> b_collection b' = b_collection b \<and>
        (\<forall>M. attached (EBpfAttach ret symbol name (Inr l) # es) (M + holds b) = Some (M + holds b')))"
        by (rule ensures_at_mono [OF 2(2)]) (use False in \<open>auto simp: holds_def add_mset_commute\<close>)
      then show ?thesis using False a Inr by (auto simp: ensures_at_rules ensures_at_calls)
    qed
  qed
qed simp

fun bpf_opened :: "BPF outcome \<Rightarrow> event list \<Rightarrow> bool" where
  "bpf_opened (Ok b) es \<longleftrightarrow> (\<forall>M. attached es M = Some (M + holds b))"
| "bpf_opened Running es \<longleftrightarrow> True"
| "bpf_opened r es \<longleftrightarrow> detached es"

lemma OpenBPF_holds: "ensures_at (OpenBPF eb path ts) w (\<lambda>r es w'. bpf_opened r es)"
proof -
  let ?b = "\<lambda>c. \<lparr>b_collection = c, b_links = [], b_traceStages = ts\<rparr>"
  let ?probe = "\<lambda>c. case check_layout eb c wire_layout of
         Some e \<Rightarrow> retE (Some e, ?b c)
       | None \<Rightarrow>
           bindE (attempt (callO (e_OwnerUpdate eb c (e_Getpid eb)) (EOwnerUpdate (e_Getpid eb)))) (\<lambda>r.
           case r of Inl e \<Rightarrow> retE (Some e, ?b c) | Inr _ \<Rightarrow> attach_probes eb probes (?b c))"
  have p: "ensures_at (?probe c) w (\<lambda>r es w'. \<exists>e b'. r = Ok (e, b') \<and>
     (\<forall>M. attached es (add_mset (Inr c) M) = Some (M + holds b')))" for c w
  proof -
    have "ensures_at (attach_probes eb probes (?b c)) w (\<lambda>r es w'. \<exists>e b'. r = Ok (e, b') \<and>
       (\<forall>M. attached (EOwnerUpdate p x # es) (add_mset (Inr c) M) = Some (M + holds b')))" for w p x
      by (rule ensures_at_mono [OF attach_probes_holds]) (auto simp: holds_def)
    then show ?thesis
      by (auto simp: ensures_at_rules ensures_at_calls holds_def split: option.split prod.split)
  qed
  have q: "ensures_at (bindE (?probe c) (\<lambda>r. case r of
         (Some e, b') \<Rightarrow> bindE (BPF_Close eb b') (\<lambda>_. failE e) | (None, b') \<Rightarrow> retE b')) w
     (\<lambda>r es w'. bpf_opened r (pre @ EBpfLoad (Inr c) # es))" if "list_all probeless pre" for c w pre
  proof (rule ensures_at_bindI [OF p], goal_cases)
    case (1 x es w')
    then obtain e b' where x: "x = (e, b')" "\<And>M. attached es (add_mset (Inr c) M) = Some (M + holds b')" by auto
    show ?case
    proof (cases e)
      case None
      then show ?thesis using x that by (simp add: attached_append attached_probeless)
    next
      case (Some err)
      show ?thesis unfolding x(1) Some option.case prod.case
        by (rule ensures_at_bindI [OF BPF_Close_detaches]) (use that in \<open>auto simp: attached_append attached_probeless x(2)\<close>)
    qed
  qed auto
  show ?thesis
    using q [of "[EBpfPrepare ''memlock'' x, EBpfPrepare path y]" for x y]
    by (auto simp: OpenBPF_def ensures_at_bind [of "callE _ _"] ensures_at_calls Let_def attached_probeless split: prod.split sum.split)
qed


interpretation probes_kept: calm_property detached
  by unfold_locales (auto simp: attached_append intro!: attached_probeless elim: list.pred_mono_strong)

lemma Rekick_detached: "traces detached (Rekick h (recovery_of h t) (BPF_Snapshot h) fd s events)"
  unfolding Rekick_def recovery_of_def recoveryTarget.simps
  by (intro probe_account.balance.intros probes_kept.calm_parts traces_calls) auto

lemma rekick_current_detached: "traces detached (rekick_current h t fd s events)"
  unfolding rekick_current_def by (intro probe_account.balance.intros probes_kept.calm_parts Rekick_detached traces_calls) auto

lemma watch_detached: "traces detached (watch n h c ctx t b)"
  unfolding watch_def
  by (intro probe_account.balance.intros probes_kept.rescue Rekick_detached probes_kept.runBatched probes_kept.recover_queue
      probes_kept.run_queues probes_kept.kick_queue rekick_current_detached probes_kept.calm_parts
      traces_calls traces_clock) auto

lemma selection_calm:
  "traces (list_all calm) (process h s pid)" "traces (list_all calm) (readDomain h path)"
  unfolding process_def readDomain_def by (intro every_call.intros traces_calls; auto)+

lemma Check_calm: "traces (list_all calm) (Check h s t)"
  unfolding Check_def by (intro every_call.intros selection_calm)

lemma Resolve_calm: "traces (list_all calm) (Resolve h s)"
  unfolding Resolve_def resolve_pid_def resolve_entry_def resolve_domain_def
  by (intro every_call.intros traces_calls selection_calm) auto

lemma emit_all_calm: "traces (list_all calm) (emit_all h ev fss l)"
  unfolding emit_all_def by (intro every_call.intros emit_calm)

lemma RunWithBPF_detached: "traces detached (RunWithBPF n h eb (policy h agent sel t) ctx (Some b))"
proof -
  have "identity_check detached (policy h agent sel t)" by (simp add: policy_def probes_kept.of_calm [OF Check_calm])
  from probes_kept.run_shared [OF this watch_detached, of "Some b"] show ?thesis unfolding RunWithBPF_def by simp
qed

lemma one_shot_detached: "traces detached (one_shot n h eb cfg ctx sel b targets problems lg)"
  unfolding one_shot_def one_shot_target_def list_target_def rescue_target_def ListQueues_def Target_Close_def
  by (intro probe_account.balance.intros probes_kept.calm_parts RunWithBPF_detached probes_kept.of_calm [OF Check_calm] traces_calls) auto

lemma supervise_detached: "traces detached (supervise n h g agent refresh ctx sel targets lg)"
proof -
  have r: "traces detached (manager_round h g agent ctx)" for ctx
    unfolding manager_round_def reconcile_def reap_worker_def start_worker_def rediscover_targets_def log_problems_def
    by (intro probe_account.balance.intros probes_kept.calm_parts probes_kept.of_calm [OF Resolve_calm] traces_calls) auto
  have "traces detached (manager_loop n h g agent ctx)" for ctx
    by (induction n) (use r in \<open>auto intro!: probe_account.balance.intros\<close>)
  then show ?thesis unfolding supervise_def stop_workers_def
    by (intro probe_account.balance.intros traces_calls) auto
qed

lemma traces_completes: "traces P m \<Longrightarrow> completes P m"
  by (erule traces_imp)

lemma RunSelected_detaches: "completes detached (RunSelected n h eb g ctx cfg)"
proof -
  have o: "\<forall>w. ensures_at (OpenBPF eb path ts) w (\<lambda>r es w'. case r of
      Ok b \<Rightarrow> \<forall>M. attached es M = Some (M + holds b) | Running \<Rightarrow> True | _ \<Rightarrow> detached es)" for path ts
    by (intro allI ensures_at_mono [OF OpenBPF_holds]) (auto split: outcome.split)
  note scoped = probe_account.scoped [OF o _ BPF_Close_detaches]
  note calm = probes_kept.of_calm [THEN traces_completes]
  show ?thesis unfolding RunSelected_def list_targets_def
    by (intro scoped probe_account.balance.intros calm [OF Resolve_calm] calm [OF emit_all_calm]
      one_shot_detached [THEN traces_completes] supervise_detached [THEN traces_completes])
qed

text \<open>
  C10. Every probe that was attached has been detached and the collection unloaded when the command has
  ended, whether it succeeded, failed half-way through attaching, or panicked; nothing is detached twice.
\<close>

theorem every_probe_is_removed:
  assumes "RunSelected n h eb g ctx cfg w = (r, es, w')" and "r \<noteq> Running"
  shows "attached es {#} = Some {#}"
  using traces_ifD [OF RunSelected_detaches assms(1)] assms(2) by simp

theorem every_probe_is_removed_witness:
  "\<exists>es. RunSelected 1 proc_host qemu_ebpf lone_scheduler 0 proc_manager () = (Ok (), es, ()) \<and> EBpfUnload 0 \<in> set es \<and>
     attached es {#} = Some {#}"
proof -
  obtain es where r: "RunSelected 1 proc_host qemu_ebpf lone_scheduler 0 proc_manager () = (Ok (), es, ())"
    and u: "EBpfUnload 0 \<in> set es"
    using proc_managed by fastforce
  show ?thesis using r u every_probe_is_removed [OF r] by simp
qed

end
