(* ===== verification/Experiment.thy ===== *)
theory Experiment
  imports Fault Probes Machine
begin

text \<open>
  What the fault experiment guarantees, for every behaviour of kernel, QEMU and file system: it stays within its
  bounds, it never kicks while the module is loaded, it leaves nothing behind without saying so, and it
  recovers the queue.
\<close>

section \<open>Deferred functions that set the result\<close>

lemma ensures_at_deferR:
  assumes "ensures_at m w R"
    and "\<And>es w'. R Running es w' \<Longrightarrow> Q Running es w'"
    and "\<And>r es w'. R r es w' \<Longrightarrow> r \<noteq> Running \<Longrightarrow> ensures_at (d (case r of Err e \<Rightarrow> Some e | _ \<Rightarrow> None)) w' (\<lambda>r2 es2. Q
       (case r2 of
            Ok result \<Rightarrow> (case r of Panic e \<Rightarrow> Panic e | _ \<Rightarrow> (case result of None \<Rightarrow> Ok () | Some e \<Rightarrow> Err e))
          | Err e \<Rightarrow> Err e | Panic e \<Rightarrow> Panic e | Running \<Rightarrow> Running) (es @ es2))"
  shows "ensures_at (deferR m d) w Q"
proof -
  obtain r es w' where m: "m w = (r, es, w')" by (cases "m w")
  then have R: "R r es w'" using assms(1) by (simp add: ensures_at_def)
  show ?thesis
  proof (cases "r = Running")
    case True
    then show ?thesis using assms(2) R m by (simp add: ensures_at_def deferR_def)
  next
    case False
    then show ?thesis using assms(3) [OF R False] m by (simp add: ensures_at_def deferR_def split: prod.splits)
  qed
qed

context trace_property
begin

lemma deferredR: "traces_if b P m \<Longrightarrow> (\<And>r. traces_if b P (d r)) \<Longrightarrow> traces_if b P (deferR m d)"
  unfolding traces_if_def
proof (intro allI, rule ensures_at_deferR, blast, blast, goal_cases)
  case (1 w r es w')
  then have "ensures_at (d (case r of Err e \<Rightarrow> Some e | _ \<Rightarrow> None)) w' (\<lambda>r es w'. b \<and> r = Running \<or> P es)" by blast
  then show ?case by (rule ensures_at_mono) (use 1 in \<open>auto intro: append\<close>)
qed

end

lemma no_panic_deferR: "safe I m \<Longrightarrow> (\<And>r. safe I (d r)) \<Longrightarrow> safe I (deferR m d)"
  unfolding safe_def
proof (intro allI impI, rule ensures_at_deferR, blast, simp, goal_cases)
  case (1 s w r es sw)
  then have "ensures_at (d (case r of Err e \<Rightarrow> Some e | _ \<Rightarrow> None)) (fst sw, snd sw) (\<lambda>r es sw. (\<forall>e. r \<noteq> Panic e) \<and> (r = Running \<or> I (fst sw)))"
    by blast
  then show ?case unfolding prod.collapse by (rule ensures_at_mono) (use 1 in \<open>auto split: outcome.split option.split\<close>)
qed

section \<open>Unloading\<close>

definition busy :: "error \<Rightarrow> bool" where
  "busy e \<longleftrightarrow> \<not> errors_Is e ENOENT \<and> (errors_Is e EAGAIN \<or> errors_Is e EBUSY)"

text \<open>One attempt that found the module busy.\<close>

definition busy_try :: "event list \<Rightarrow> bool" where
  "busy_try es \<longleftrightarrow> (\<exists>e. busy e \<and> es = [EDeleteModule ''vhost_fault'' (Some e), ESleep (10 * time_Millisecond)])"

text \<open>The answer that ends the loop.\<close>

definition unload_answer :: "error option \<Rightarrow> unit outcome" where
  "unload_answer a = (case a of None \<Rightarrow> Ok () | Some e \<Rightarrow> if errors_Is e ENOENT then Ok () else Err e)"

lemma unload_tries_spec:
  "ensures_at (unload_tries n x) w (\<lambda>r es w'. \<exists>tries. list_all busy_try tries \<and>
     (length tries = n \<and> es = concat tries \<and> r = Err (ErrorString ''fault module remained busy'') \<or>
      length tries < n \<and> (\<exists>a. es = concat tries @ [EDeleteModule ''vhost_fault'' a] \<and> (\<forall>e. a = Some e \<longrightarrow> \<not> busy e) \<and>
        r = unload_answer a)))"
proof (induction n arbitrary: w)
  case 0
  show ?case by (auto intro: exI [of _ "[]"])
next
  case (Suc n)
  obtain a w1 where d: "x_DeleteModule x ''vhost_fault'' w = (a, w1)" by fastforce
  show ?case
  proof (cases "\<exists>e. a = Some e \<and> busy e")
    case True
    then obtain e where a: "a = Some e" "busy e" by blast
    let ?busy = "[EDeleteModule ''vhost_fault'' (Some e), ESleep (10 * time_Millisecond)]"
    have t: "busy_try ?busy" using a(2) by (auto simp: busy_try_def)
    have "ensures_at (unload_tries n x) (x_Sleep x (10 * time_Millisecond) w1) (\<lambda>r es w'. \<exists>tries. list_all busy_try tries \<and>
     (length tries = Suc n \<and> ?busy @ es = concat tries \<and> r = Err (ErrorString ''fault module remained busy'') \<or>
      length tries < Suc n \<and> (\<exists>a. ?busy @ es = concat tries @ [EDeleteModule ''vhost_fault'' a] \<and>
        (\<forall>e. a = Some e \<longrightarrow> \<not> busy e) \<and> r = unload_answer a)))"
    proof (rule ensures_at_mono [OF Suc.IH], elim exE conjE, goal_cases)
      case (1 r es w' tries)
      then show ?case using t by (intro exI [of _ "?busy # tries"]) auto
    qed
    moreover have "\<not> errors_Is e ENOENT" "\<not> (\<not> errors_Is e EAGAIN \<and> \<not> errors_Is e EBUSY)" using a(2) by (auto simp: busy_def)
    ultimately show ?thesis using d a(1)
      by (cases "errors_Is e EAGAIN") (simp_all add: ensures_at_rules ensures_at_calls)
  next
    case False
    then have "ensures_at (unload_tries (Suc n) x) w (\<lambda>r es w'. es = [EDeleteModule ''vhost_fault'' a] \<and> r = unload_answer a)"
      using d by (auto simp: ensures_at_rules ensures_at_calls busy_def unload_answer_def split: option.splits)
    then show ?thesis by (rule ensures_at_mono) (use False in \<open>auto intro!: exI [of _ "[]"]\<close>)
  qed
qed

text \<open>
  C19. Unloading always comes to an end: after at most a hundred attempts, each but the last found the module busy and
  was followed by a pause of ten milliseconds; it succeeds exactly when an attempt removed the
  module or found that it is not there.
\<close>

theorem unload_ends_within_a_hundred_tries:
  assumes "unload x w = (r, es, w')"
  shows "\<exists>tries. list_all busy_try tries \<and>
    (length tries = 100 \<and> es = concat tries \<and> r = Err (ErrorString ''fault module remained busy'') \<or>
     length tries < 100 \<and> (\<exists>a. es = concat tries @ [EDeleteModule ''vhost_fault'' a] \<and> (\<forall>e. a = Some e \<longrightarrow> \<not> busy e) \<and>
        r = unload_answer a))"
  using unload_tries_spec [of 100 x w] assms by (simp add: unload_def ensures_at_def)

section \<open>Bounds\<close>

text \<open>The bounds of the validation, in the milliseconds that the module is given.\<close>

lemma validate_accepts:
  "validate c = None \<longleftrightarrow> f_Cleanup c \<or> (f_Selector c \<noteq> None \<and> 0 \<le> f_VhostFD c \<and> 1 \<le> f_Drops c \<and> f_Drops c \<le> 1000000 \<and>
     0 \<le> f_RecoverAfter c \<and>
     (\<exists>delay_ms window_ms. f_Delay c = delay_ms * time_Millisecond \<and> f_Window c = window_ms * time_Millisecond \<and>
        f_Delay c div time_Millisecond = delay_ms \<and> f_Window c div time_Millisecond = window_ms \<and>
        0 \<le> delay_ms \<and> delay_ms \<le> 60000 \<and> 1 \<le> window_ms \<and> window_ms \<le> 60000 \<and> f_Delay c + f_Window c \<le> 2 * time_Minute))"
  (is "_ \<longleftrightarrow> _ \<or> ?A \<and> ?B \<and> ?C \<and> ?D \<and> ?E \<and> ?ms")
proof -
  have "?ms \<longleftrightarrow> 0 \<le> f_Delay c \<and> f_Delay c \<le> time_Minute \<and> time_Millisecond \<le> f_Window c \<and> f_Window c \<le> time_Minute \<and>
      f_Delay c mod time_Millisecond = 0 \<and> f_Window c mod time_Millisecond = 0"
    (is "_ \<longleftrightarrow> ?bounds")
  proof
    assume ?bounds
    then have "f_Delay c = f_Delay c div time_Millisecond * time_Millisecond"
      "f_Window c = f_Window c div time_Millisecond * time_Millisecond" by (metis add.right_neutral div_mult_mod_eq)+
    moreover have "0 \<le> f_Delay c div time_Millisecond" "f_Delay c div time_Millisecond \<le> 60000"
      "1 \<le> f_Window c div time_Millisecond" "f_Window c div time_Millisecond \<le> 60000" "f_Delay c + f_Window c \<le> 2 * time_Minute"
      using \<open>?bounds\<close> by linarith+
    ultimately show ?ms by blast
  next
    assume ?ms
    then obtain d k where "f_Delay c = d * time_Millisecond" "f_Window c = k * time_Millisecond" "0 \<le> d" "d \<le> 60000" "1 \<le> k" "k \<le> 60000"
      by blast
    then show ?bounds by simp
  qed
  then show ?thesis unfolding validate_def by auto
qed

section \<open>While the module is loaded\<close>

text \<open>
  Whether the module is loaded after the calls; \<open>None\<close> when it is loaded twice or something is written while it
  is loaded.
\<close>

fun armed :: "event list \<Rightarrow> bool \<Rightarrow> bool option" where
  "armed [] l = Some l"
| "armed (EFinitModule _ _ None # es) l = (if l then None else armed es True)"
| "armed (EDeleteModule _ None # es) l = armed es False"
| "armed (EDeleteModule _ (Some e) # es) l = armed es (l \<and> \<not> errors_Is e ENOENT)"
| "armed (EWrite _ _ _ # es) l = (if l then None else armed es l)"
| "armed (_ # es) l = armed es l"

fun armless :: "event \<Rightarrow> bool" where
  "armless (EFinitModule _ _ _) = False"
| "armless (EDeleteModule _ _) = False"
| "armless (EWrite _ _ _) = False"
| "armless _ = True"

lemma armed_append: "armed (es @ es') l = Option.bind (armed es l) (armed es')"
  by (induction es l rule: armed.induct) auto

lemma armed_armless: "list_all armless es \<Longrightarrow> armed es l = Some l"
proof (induction es)
  case (Cons e es)
  then show ?case by (cases e) auto
qed simp

lemma armed_local: "list_all local_call es \<Longrightarrow> armed es False = Some False"
proof (induction es)
  case (Cons e es)
  then show ?case by (cases e) auto
qed simp

lemma calm_armless: "calm e \<Longrightarrow> armless e"
  by (cases e) auto

lemma armless_of_calm: "traces (list_all calm) m \<Longrightarrow> traces (list_all armless) m"
  by (erule traces_imp) (auto simp: list_all_iff calm_armless)

lemma armless_of_idle: "traces (list_all idle) m \<Longrightarrow> traces (list_all armless) m"
proof (erule traces_imp)
  have "armless e" if "idle e" for e using that by (cases e) auto
  then show "list_all idle es \<Longrightarrow> list_all armless es" for es by (auto simp: list_all_iff)
qed

lemma fault_log_armless: "traces (list_all armless) (fault_log h x ev row)"
  unfolding fault_log_def by (intro every_call.intros traces_calls) auto

lemma moduleStats_armless: "traces (list_all armless) (moduleStats h)"
  unfolding moduleStats_def module_param_def by (intro every_call.intros traces_calls) auto

lemma busy_tries_armed: "list_all busy_try tries \<Longrightarrow> armed (concat tries) l = Some l"
  by (induction tries) (auto simp: busy_try_def busy_def armed_append)

lemma unload_armed:
  "ensures_at (unload x) w (\<lambda>r es w'. (r = Ok () \<and> (\<forall>l. armed es l = Some False)) \<or>
     (\<exists>e. r = Err e) \<and> (\<forall>l. armed es l = Some l))"
  unfolding unload_def
proof (rule ensures_at_mono [OF unload_tries_spec], elim exE conjE disjE, goal_cases)
  case (1 r es w' tries)
  then show ?case by (simp add: busy_tries_armed)
next
  case (2 r es w' tries a)
  then show ?case by (cases a) (simp_all add: armed_append busy_tries_armed unload_answer_def)
qed

definition tracks_module :: "fvars \<Rightarrow> event list \<Rightarrow> bool" where
  "tracks_module v es \<longleftrightarrow> armed es False = Some (fv_loaded v)"

lemma tracks_lift: "traces (list_all armless) m \<Longrightarrow> maintains tracks_module (liftE m)"
  by (erule maintains_lift) (auto simp: tracks_module_def armed_append armed_armless [of "[_]"])

lemma disarm_tracks: "maintains tracks_module (disarm h x sj)"
proof -
  let ?rest = "\<lambda>stats. bindE (liftE (fault_log h x ''disarmed'' (AList.update ''active'' (JBool False) stats))) (\<lambda>_.
    bindE
      (case map_of stats ''dropped'' of
         Some (JUint64 n) \<Rightarrow>
           if n = 0 then failE (ErrorString ''no matching wakeup was dropped; injection did not occur'') else retE ()
       | _ \<Rightarrow> panicE (ErrorString ''interface conversion''))
      (\<lambda>_.
       bindE (liftE (Ring h (sj_target sj) (sj_snapshot sj))) (\<lambda>(_, used).
       modE (\<lambda>v. v\<lparr>fv_baselineUsed := used, fv_haveBaseline := True\<rparr>))))"
  have rest: "maintains tracks_module (?rest stats)" for stats
    by (intro maintains_intros maintains_mod tracks_lift fault_log_armless armless_of_calm [OF Ring_calm])
       (auto simp: tracks_module_def maintains_pure maintains_cond split: option.split jval.split)
  have u: "maintains tracks_module (bindE (liftE (unload x)) (\<lambda>_. bindE (modE (\<lambda>v. v\<lparr>fv_loaded := False\<rparr>)) (\<lambda>_. ?rest stats)))" for stats
    unfolding maintains_def
  proof (intro allI impI, goal_cases)
    case (1 v w es)
    have "ensures_at (liftE (unload x)) (v, w) (\<lambda>r es2 sw. fst sw = v \<and> (r = Ok () \<and> (\<forall>l. armed es2 l = Some False) \<or>
     (\<exists>e. r = Err e) \<and> (\<forall>l. armed es2 l = Some l)))"
      unfolding ensures_at_lift by (rule ensures_at_mono [OF unload_armed]) auto
    then show ?case
    proof (rule ensures_at_bindI, goal_cases)
      case (1 y es2 sw)
      then have "tracks_module (v\<lparr>fv_loaded := False\<rparr>) (es @ es2)"
        using \<open>tracks_module v es\<close> by (auto simp: tracks_module_def armed_append)
      from maintainsD [OF rest this, of stats "snd sw"] 1 show ?case
        by (cases sw) (simp add: ensures_at_bind [of "modE _"])
    qed (use 1 in \<open>auto simp: tracks_module_def armed_append\<close>)
  qed
  show ?thesis unfolding disarm_def by (intro maintains_bind tracks_lift moduleStats_armless u)
qed

lemma fault_loop_tracks: "maintains tracks_module (fault_loop n h x c sj windowEnd)"
proof (induction n)
  case (Suc n)
  have "traces (list_all armless) (Tick x)" by (intro traces_calls) simp
  then have "maintains tracks_module (fault_tick h x c sj windowEnd)"
    unfolding fault_tick_def observe_progress_def
    by (intro maintains_intros maintains_mod disarm_tracks tracks_lift fault_log_armless armless_of_calm [OF Ring_calm]
        armless_of_calm [OF Alive_calm]) (auto simp: tracks_module_def)
  with Suc show ?case by (auto intro!: maintains_intros)
qed (simp add: maintains_pure)


section \<open>The end of the experiment\<close>

text \<open>
  A poll of the process that was not interrupted and did not find it alive: it reported the exit, or it failed, which the
  code does not tell from an exit here.
\<close>

definition polled_gone :: "int \<Rightarrow> event list \<Rightarrow> bool" where
  "polled_gone pidfd es \<longleftrightarrow> (\<exists>a. EPoll pidfd a \<in> set es \<and> \<not> interrupted_poll pidfd (EPoll pidfd a) \<and> poll_answer a \<noteq> Ok True)"

text \<open>
  A complete verified kick of the queue in the slot: the slot was pinned again and the kick is verified against a snapshot of
  the same attachment as the subject's.
\<close>

definition kick_written :: "int \<Rightarrow> subject \<Rightarrow> event list \<Rightarrow> bool" where
  "kick_written vhostFD sj es \<longleftrightarrow> (\<exists>pre fd s m kick post. es = pre @ kick @ post \<and>
     EPidfdGetfd (t_pidfd (sj_target sj)) vhostFD (Inr fd) \<in> set pre \<and> Validate s = None \<and>
     Identity s = Identity (sj_snapshot sj) \<and> verified_kick (t_pidfd (sj_target sj)) fd s m (Inr 8) kick)"

lemma Alive_answer:
  "ensures_at (Alive h t) w (\<lambda>r es w'. list_all local_call es \<and> list_all armless es \<and>
     (r = Running \<or> r = Ok True \<or> r = Ok False \<and> polled_gone (t_pidfd t) es))"
proof -
  obtain r es w' where c: "CheckAlive h t w = (r, es, w')" by (cases "CheckAlive h t w")
  have q: "r = Running \<or> (\<exists>a. EPoll (t_pidfd t) a \<in> set es \<and> \<not> interrupted_poll (t_pidfd t) (EPoll (t_pidfd t) a) \<and> r = poll_answer a)"
    using pollAlive_spec [of "h_polls h" h "t_pidfd t" w] c by (auto simp: CheckAlive_def ensures_at_def split: if_splits)
  have "list_all calm es" using traces_ifD [OF CheckAlive_calm c] by simp
  then have "list_all local_call es" "list_all armless es" by (auto simp: list_all_iff idle_local calm_armless)
  with q show ?thesis
    by (cases r) (auto simp: Alive_def ensures_at_rules ensures_at_def [of "CheckAlive h t"] c polled_gone_def dest: sym)
qed

lemma kick_written_append: "kick_written vfd sj es \<or> kick_written vfd sj es' \<Longrightarrow> kick_written vfd sj (es @ es')"
  unfolding kick_written_def by (metis append.assoc in_set_conv_decomp)

lemma fault_recover_local: "traces (list_all local_call) (fault_recover h c sel identity t s)"
  unfolding fault_recover_def
  by (intro every_call.intros local_calls.calm_parts local_calls.of_calm [OF Check_calm] Rekick_local traces_calls) auto

lemma fault_recover_kicks:
  assumes "fault_recover h c (sj_Selector sj) (sj_identity sj) (sj_target sj) (sj_snapshot sj) w = (Ok (), es, w')"
  shows "kick_written (f_VhostFD c) sj es"
proof -
  let ?t = "sj_target sj"
  from assms obtain e1 fd e2 w2 rest w3 where d: "Duplicate h ?t (f_VhostFD c) w2 = (Ok fd, e2, w3)" and es: "es = e1 @ e2 @ rest"
    and r: "deferE
      (bindE (BPF_Snapshot h fd) (\<lambda>current.
       if Identity current \<noteq> Identity (sj_snapshot sj) then failE (ErrorString ''TX attachment changed; refusing recovery'')
       else bindE (Inventory h ?t) (\<lambda>(_, events).
       Rekick h (recovery_of h ?t) (BPF_Snapshot h) fd current events))) (Close h fd) w3 = (Ok (), rest, w')"
    unfolding fault_recover_def by (elim bindE_OkE) simp
  from r obtain s e3 e4 kick z events w4 w5 where "rest = (e3 @ e4 @ kick) @ z" "Identity s = Identity (sj_snapshot sj)"
    and k: "Rekick h (recovery_of h ?t) (BPF_Snapshot h) fd s events w4 = (Ok (), kick, w5)"
    by (elim deferE_OkE bindE_OkE) (auto simp: failE_def elim!: bindE_OkE split: if_splits prod.splits)
  moreover have "Validate s = None \<and> verified_kick (t_pidfd ?t) fd s (Min (set (events (sn_EventID s)))) (Inr 8) kick"
    using Rekick_spec [of h ?t fd s events w4] k by (simp add: ensures_at_def kick_outcome_def)
  moreover have "e2 = [EPidfdGetfd (t_pidfd ?t) (f_VhostFD c) (Inr fd)]" using callE_OkE [OF d [unfolded Duplicate_def]] .
  ultimately show ?thesis unfolding kick_written_def es
    by (intro exI [of _ "e1 @ e2 @ e3 @ e4"] exI [of _ fd] exI [of _ s] exI [of _ "Min (set (events (sn_EventID s)))"]
        exI [of _ kick] exI [of _ z]) auto
qed

lemma fault_recover_spec:
  "ensures_at (fault_recover h c (sj_Selector sj) (sj_identity sj) (sj_target sj) (sj_snapshot sj)) w (\<lambda>r es w'.
     list_all local_call es \<and> (\<forall>e. r \<noteq> Panic e) \<and> (r = Ok () \<longrightarrow> kick_written (f_VhostFD c) sj es))"
proof -
  let ?m = "fault_recover h c (sj_Selector sj) (sj_identity sj) (sj_target sj) (sj_snapshot sj)"
  have np: "no_panic ?m" unfolding fault_recover_def Check_def process_def
    by (intro no_panic_intros part_no_panic Rekick_no_panic)
  have "ensures_at ?m w (\<lambda>r es w'. r = Ok () \<longrightarrow> kick_written (f_VhostFD c) sj es)"
    using fault_recover_kicks [of h c sj w] by (auto simp: ensures_at_def split: prod.split)
  then show ?thesis
    using fault_recover_local [of h c "sj_Selector sj" "sj_identity sj" "sj_target sj" "sj_snapshot sj"] np
    unfolding traces_if_def no_panic_def by (auto intro!: ensures_at_conj)
qed

lemma fault_log_returns:
  "ensures_at (fault_log h x ev row) w (\<lambda>r es w'. r = Ok () \<and> list_all local_call es \<and> list_all armless es)"
  by (simp add: fault_log_def ensures_at_rules ensures_at_calls Let_def split: prod.split)


text \<open>
  What the deferred function leaves: either the module could not be unloaded and the result says so, or it is
  unloaded, and a result that stays as it was means that the queue is moving, was kicked, or that QEMU is gone.
\<close>

definition finished :: "int \<Rightarrow> subject \<Rightarrow> error option \<Rightarrow> fvars \<Rightarrow> error option outcome \<Rightarrow> event list \<Rightarrow> bool" where
  "finished vfd sj result v r es \<longleftrightarrow> (\<forall>e. r \<noteq> Panic e \<and> r \<noteq> Err e) \<and>
     (armed es (fv_loaded v) = Some False \<and>
        (r = Running \<or> (\<exists>e. r = Ok (Some e)) \<or>
         r = Ok result \<and> (fv_recovered v \<or> polled_gone (t_pidfd (sj_target sj)) es \<or> kick_written vfd sj es)) \<or>
      armed es (fv_loaded v) = Some (fv_loaded v) \<and> (\<exists>e. r = Ok (Some e)))"

lemma kick_or_gone:
  assumes "\<not> fv_recovered v"
  shows "ensures_at
     (bindE (liftE (Alive h (sj_target sj))) (\<lambda>kick.
        if \<not> kick then retE result
        else bindE (attempt (liftE (fault_recover h c (sj_Selector sj) (sj_identity sj) (sj_target sj) (sj_snapshot sj)))) (\<lambda>r.
        case r of
          Inl e \<Rightarrow>
            bindE (liftE (fault_log h x ''recovery_failed'' [(''error'', JError e)])) (\<lambda>_.
            retE (Some (join_result result (Wrap ''cleanup recovery'' e))))
        | Inr _ \<Rightarrow>
            bindE (liftE (fault_log h x ''recovery_written'' (subject_fields c sj))) (\<lambda>_. retE result)))) (v, w)
     (\<lambda>r es sw. finished (f_VhostFD c) sj result (v\<lparr>fv_loaded := False\<rparr>) r es)"
proof -
  let ?rec = "fault_recover h c (sj_Selector sj) (sj_identity sj) (sj_target sj) (sj_snapshot sj)"
  have lg: "ensures_at (bindE (liftE (fault_log h x ev row)) (\<lambda>_. retE y)) (v, w) (\<lambda>r es sw. r = Ok y \<and> list_all local_call es)"
    for ev row y w
    by (rule ensures_at_bindI [where R = "\<lambda>r es sw. r = Ok () \<and> list_all local_call es"])
       (auto simp: ensures_at_lift intro: ensures_at_mono [OF fault_log_returns])
  have rc: "ensures_at (attempt (liftE ?rec)) (v, w) (\<lambda>r es sw. fst sw = v \<and> list_all local_call es \<and>
      (r = Running \<or> (\<exists>e. r = Ok (Inl e)) \<or> r = Ok (Inr ()) \<and> kick_written (f_VhostFD c) sj es))" for w
    unfolding ensures_at_attempt ensures_at_lift
    by (rule ensures_at_mono [OF fault_recover_spec]) (auto split: outcome.split)
  have al: "ensures_at (liftE (Alive h (sj_target sj))) (v, w) (\<lambda>r es sw. fst sw = v \<and> list_all local_call es \<and>
      (r = Running \<or> r = Ok True \<or> r = Ok False \<and> polled_gone (t_pidfd (sj_target sj)) es))"
    unfolding ensures_at_lift by (rule ensures_at_mono [OF Alive_answer]) auto
  show ?thesis
  proof (rule ensures_at_bindI [OF al], goal_cases)
    case (1 alive es sw)
    then obtain w1 where sw: "sw = (v, w1)" and es: "list_all local_call es" by (cases sw) auto
    show ?case
    proof (cases alive)
      case True
      then have a: "alive = True" by simp
      show ?thesis unfolding a sw not_True_eq_False if_False
      proof (rule ensures_at_bindI [OF rc], goal_cases)
        case (1 y es2 sw2)
        then obtain w2 where sw2: "sw2 = (v, w2)" and es2: "list_all local_call es2" by (cases sw2) auto
        show ?case using 1 unfolding sw2
          by (cases y; simp only: sum.case; intro ensures_at_mono [OF lg])
             (use es es2 in \<open>auto simp: finished_def armed_local kick_written_append [OF disjI1] kick_written_append [OF disjI2]\<close>)
      qed (use es in \<open>auto simp: finished_def armed_local\<close>)
    next
      case False
      with 1 es show ?thesis by (simp add: finished_def armed_local)
    qed
  qed (auto simp: finished_def armed_local)
qed

lemma finish_spec: "ensures_at (finish h x c sj result) (v, w) (\<lambda>r es sw. finished (f_VhostFD c) sj result v r es)"
proof -
  let ?kick = "bindE (if fv_recovered v then retE False else liftE (Alive h (sj_target sj))) (\<lambda>kick.
        if \<not> kick then retE result
        else bindE (attempt (liftE (fault_recover h c (sj_Selector sj) (sj_identity sj) (sj_target sj) (sj_snapshot sj)))) (\<lambda>r.
        case r of
          Inl e \<Rightarrow>
            bindE (liftE (fault_log h x ''recovery_failed'' [(''error'', JError e)])) (\<lambda>_.
            retE (Some (join_result result (Wrap ''cleanup recovery'' e))))
        | Inr _ \<Rightarrow>
            bindE (liftE (fault_log h x ''recovery_written'' (subject_fields c sj))) (\<lambda>_. retE result)))"
  have k: "ensures_at ?kick (v, w) (\<lambda>r es sw. finished (f_VhostFD c) sj result (v\<lparr>fv_loaded := False\<rparr>) r es)" for w
    using kick_or_gone [of v h sj result c x w] by (cases "fv_recovered v") (simp_all add: finished_def)
  have lift: "finished (f_VhostFD c) sj result v r (es @ es2)"
    if "finished (f_VhostFD c) sj result (v\<lparr>fv_loaded := False\<rparr>) r es2" "armed es (fv_loaded v) = Some False" for r es es2
    using that by (auto simp: finished_def armed_append polled_gone_def kick_written_append)
  show ?thesis
  proof (cases "fv_loaded v")
    case False
    then show ?thesis using k [of w] lift [of _ _ "[]"]
      unfolding finish_def ensures_at_bind [of getE] by (auto intro: ensures_at_mono)
  next
    case True
    have u: "ensures_at (attempt (liftE (unload x))) (v, w) (\<lambda>r es sw. fst sw = v \<and>
        (r = Ok (Inr ()) \<and> (\<forall>l. armed es l = Some False) \<or> (\<exists>e. r = Ok (Inl e)) \<and> (\<forall>l. armed es l = Some l)))"
      unfolding ensures_at_attempt ensures_at_lift by (rule ensures_at_mono [OF unload_armed]) auto
    have "ensures_at (bindE (attempt (liftE (unload x))) (\<lambda>r. case r of
        Inl e \<Rightarrow> retE (Some (join_result result (Wrap ''unload'' e))) | Inr _ \<Rightarrow> ?kick)) (v, w) (\<lambda>r es sw. finished (f_VhostFD c) sj result v r es)"
    proof (rule ensures_at_bindI [OF u], goal_cases)
      case (1 y es sw)
      then obtain w1 where sw: "sw = (v, w1)" by (cases sw) auto
      show ?case
      proof (cases y)
        case (Inl e)
        then show ?thesis using 1 True by (auto simp: finished_def)
      next
        case (Inr a)
        then have "armed es (fv_loaded v) = Some False" using 1 by auto
        then show ?thesis unfolding Inr sum.case sw by (intro ensures_at_mono [OF k]) (rule lift)
      qed
    qed auto
    then show ?thesis using True unfolding finish_def ensures_at_bind [of getE] by simp
  qed
qed


section \<open>Progress\<close>

text \<open>A reading of the ring that shows the used index \<open>u\<close>, and two readings that show the queue moving.\<close>

definition used_read :: "subject \<Rightarrow> u16 \<Rightarrow> event list \<Rightarrow> bool" where
  "used_read sj u es \<longleftrightarrow> (\<exists>d. EProcessVMReadv (t_PID (sj_target sj)) (ring_iovecs (sj_snapshot sj)) (Inr d) \<in> set es \<and>
     length d = 4 \<and> le16 (d ! 2) (d ! 3) = u)"

definition seen_moving :: "subject \<Rightarrow> event list \<Rightarrow> bool" where
  "seen_moving sj es \<longleftrightarrow> (\<exists>u u'. used_read sj u es \<and> used_read sj u' es \<and> u \<noteq> u')"

definition knows_progress :: "subject \<Rightarrow> fvars \<Rightarrow> event list \<Rightarrow> bool" where
  "knows_progress sj v es \<longleftrightarrow> (fv_haveBaseline v \<longrightarrow> used_read sj (fv_baselineUsed v) es) \<and>
     (fv_recovered v \<longrightarrow> seen_moving sj es)"

lemma used_read_append: "used_read sj u es \<or> used_read sj u es' \<Longrightarrow> used_read sj u (es @ es')"
  by (auto simp: used_read_def)

lemma knows_later: "knows_progress sj v es \<Longrightarrow> knows_progress sj v (es @ es')"
  unfolding knows_progress_def seen_moving_def using used_read_append by blast

lemma knows_lift: "maintains (knows_progress sj) (liftE m)"
  by (rule maintains_lift [where q = "\<lambda>_. True"]) (auto simp: traces_if_def ensures_at_def knows_later list_all_iff split: prod.split)

lemma Ring_reads: "ensures_at (Ring h (sj_target sj) (sj_snapshot sj)) w (\<lambda>r es w'. \<forall>a u. r = Ok (a, u) \<longrightarrow> used_read sj u es)"
  by (auto simp: Ring_def ensures_at_rules ensures_at_calls used_read_def split: prod.split sum.split)

text \<open>What follows a reading may rely on it.\<close>

lemma knows_ring:
  assumes "\<And>a u v w es. knows_progress sj v es \<Longrightarrow> used_read sj u es \<Longrightarrow>
      ensures_at (f (a, u)) (v, w) (\<lambda>r es2 sw. knows_progress sj (fst sw) (es @ es2))"
  shows "maintains (knows_progress sj) (bindE (liftE (Ring h (sj_target sj) (sj_snapshot sj))) f)"
  unfolding maintains_def
proof (intro allI impI, goal_cases)
  case (1 v w es)
  have "ensures_at (liftE (Ring h (sj_target sj) (sj_snapshot sj))) (v, w) (\<lambda>r es2 sw. fst sw = v \<and>
      (\<forall>a u. r = Ok (a, u) \<longrightarrow> used_read sj u es2))"
    unfolding ensures_at_lift by (rule ensures_at_mono [OF Ring_reads]) auto
  then show ?case
  proof (rule ensures_at_bindI, goal_cases)
    case r: (1 y es2 sw)
    then show ?case using assms [of v "es @ es2" "snd y" "fst y" "snd sw"] knows_later [OF 1] used_read_append
      by (cases sw; cases y) auto
  qed (use 1 in \<open>auto intro: knows_later\<close>)
qed

lemma disarm_knows: "maintains (knows_progress sj) (disarm h x sj)"
proof -
  have r: "maintains (knows_progress sj) (bindE (liftE (Ring h (sj_target sj) (sj_snapshot sj))) (\<lambda>(_, used).
       modE (\<lambda>v. v\<lparr>fv_baselineUsed := used, fv_haveBaseline := True\<rparr>)))"
    by (rule knows_ring) (auto simp: knows_progress_def)
  have c: "maintains (knows_progress sj) (case map_of stats ''dropped'' of
         Some (JUint64 n) \<Rightarrow>
           if n = 0 then failE (ErrorString ''no matching wakeup was dropped; injection did not occur'') else retE ()
       | _ \<Rightarrow> panicE (ErrorString ''interface conversion''))" for stats
    by (simp add: maintains_pure split: option.split jval.split)
  show ?thesis unfolding disarm_def
    by (intro maintains_bind knows_lift maintains_mod r c) (auto simp: knows_progress_def)
qed

lemma observe_knows: "maintains (knows_progress sj) (observe_progress h x c sj)"
  unfolding observe_progress_def
proof (rule maintains_bind_get, goal_cases)
  case (1 v w es)
  let ?f = "\<lambda>(_, used). if used = fv_baselineUsed v then retE False
    else bindE (modE (\<lambda>v. v\<lparr>fv_recovered := True\<rparr>)) (\<lambda>_.
         bindE (liftE (fault_log h x ''progress_observed'' (subject_fields c sj))) (\<lambda>_. retE True))"
  show ?case
  proof (cases "fv_haveBaseline v")
    case True
    have "ensures_at (liftE (Ring h (sj_target sj) (sj_snapshot sj))) (v, w) (\<lambda>r es2 sw. fst sw = v \<and>
      (\<forall>a u. r = Ok (a, u) \<longrightarrow> used_read sj u es2))"
      unfolding ensures_at_lift by (rule ensures_at_mono [OF Ring_reads]) auto
    then have "ensures_at (bindE (liftE (Ring h (sj_target sj) (sj_snapshot sj))) ?f) (v, w)
        (\<lambda>r es2 sw. knows_progress sj (fst sw) (es @ es2))"
    proof (rule ensures_at_bindI, goal_cases)
      case r: (1 y es2 sw)
      obtain a u w1 where y: "y = (a, u)" "sw = (v, w1)" using r by (cases y; cases sw) auto
      have u: "used_read sj u (es @ es2)" "used_read sj (fv_baselineUsed v) (es @ es2)"
        using r y(1) 1 True by (auto simp: knows_progress_def intro: used_read_append)
      show ?case
      proof (cases "u = fv_baselineUsed v")
        case False
        with u have "knows_progress sj (v\<lparr>fv_recovered := True\<rparr>) (es @ es2)"
          by (auto simp: knows_progress_def seen_moving_def)
        from maintainsD [OF knows_lift this, of "fault_log h x ''progress_observed'' (subject_fields c sj)" w1]
        show ?thesis using False y
          by (auto simp: ensures_at_bind [of "modE _"] intro!: ensures_at_bindI [where m = "liftE (fault_log _ _ _ _)"])
      qed (use y knows_later [OF 1] in simp)
    qed (use 1 in \<open>auto intro: knows_later\<close>)
    with True show ?thesis by simp
  qed (use 1 in simp)
qed

lemma fault_loop_knows: "maintains (knows_progress sj) (fault_loop n h x c sj windowEnd)"
proof (induction n)
  case (Suc n)
  have "maintains (knows_progress sj) (fault_tick h x c sj windowEnd)"
    unfolding fault_tick_def by (intro maintains_intros observe_knows disarm_knows knows_lift)
  with Suc show ?case by (auto intro!: maintains_intros)
qed (simp add: maintains_pure)


section \<open>The whole experiment\<close>

text \<open>The queue is moving, was kicked, or QEMU is gone.\<close>

definition settled :: "int \<Rightarrow> subject \<Rightarrow> event list \<Rightarrow> bool" where
  "settled vhostFD sj es \<longleftrightarrow> seen_moving sj es \<or> kick_written vhostFD sj es \<or> polled_gone (t_pidfd (sj_target sj)) es"

lemma settled_append: "settled vfd sj es \<or> settled vfd sj es' \<Longrightarrow> settled vfd sj (es @ es')"
  by (auto simp: settled_def seen_moving_def used_read_def polled_gone_def kick_written_append)

lemma run_experiment_spec:
  "ensures_at (run_experiment n h x c sj) w (\<lambda>r es w'. \<exists>l. armed es True = Some l \<and> (l \<longrightarrow> r \<noteq> Ok ()) \<and> (r = Ok () \<longrightarrow> settled (f_VhostFD c) sj es))"
proof -
  let ?v = "\<lparr>fv_loaded = True, fv_recovered = False, fv_haveBaseline = False, fv_baselineUsed = 0\<rparr>"
  let ?load = "EFinitModule 0 '''' None"
  let ?body = "bindE (liftE (fault_log h x ''armed'' (armed_fields c sj))) (\<lambda>_.
         bindE (liftE (callV (x_Now x) (\<lambda>t. [ENow t]))) (\<lambda>now.
         fault_loop n h x c sj (now + (f_Delay c + f_Window c))))"
  have nw: "traces (list_all armless) (callV (x_Now x) (\<lambda>t. [ENow t]))" by (intro traces_calls) simp
  have "maintains tracks_module ?body"
    by (intro maintains_bind tracks_lift fault_log_armless nw fault_loop_tracks)
  moreover have "maintains (knows_progress sj) ?body"
    by (intro maintains_bind knows_lift fault_loop_knows)
  moreover have "tracks_module ?v [?load]" "knows_progress sj ?v [?load]" by (simp_all add: tracks_module_def knows_progress_def)
  ultimately have b: "ensures_at ?body (?v, w) (\<lambda>r es sw. tracks_module (fst sw) ([?load] @ es) \<and> knows_progress sj (fst sw) ([?load] @ es))"
    by (intro ensures_at_conj maintainsD)
  show ?thesis unfolding run_experiment_def ensures_at_local
  proof (rule ensures_at_deferR [OF b], goal_cases)
    case (1 es sw)
    then show ?case by (simp add: tracks_module_def)
  next
    case (2 r es sw)
    then have t: "armed es True = Some (fv_loaded (fst sw))" by (simp add: tracks_module_def)
    have k: "seen_moving sj es" if "fv_recovered (fst sw)"
      using 2 that by (auto simp: knows_progress_def seen_moving_def used_read_def)
    have "ensures_at (finish h x c sj (case r of Err e \<Rightarrow> Some e | _ \<Rightarrow> None)) sw
        (\<lambda>r2 es2 sw'. finished (f_VhostFD c) sj (case r of Err e \<Rightarrow> Some e | _ \<Rightarrow> None) (fst sw) r2 es2)"
      using finish_spec [of h x c sj _ "fst sw" "snd sw"] by simp
    then show ?case
    proof (rule ensures_at_mono, goal_cases)
      case (1 r2 es2 sw')
      let ?R = "case r2 of
            Ok result \<Rightarrow> (case r of Panic e \<Rightarrow> Panic e | _ \<Rightarrow> (case result of None \<Rightarrow> Ok () | Some e \<Rightarrow> Err e))
          | Err e \<Rightarrow> Err e | Panic e \<Rightarrow> Panic e | Running \<Rightarrow> Running"
      have R: "r2 = Ok None" if "?R = Ok ()" using that by (auto split: outcome.splits option.splits)
      have "settled (f_VhostFD c) sj (es @ es2)" if "?R = Ok ()"
      proof (rule settled_append)
        show "settled (f_VhostFD c) sj es \<or> settled (f_VhostFD c) sj es2" using R [OF that] 1 k by (auto simp: finished_def settled_def)
      qed
      moreover have "\<exists>l. armed (es @ es2) True = Some l \<and> (l \<longrightarrow> ?R \<noteq> Ok ())"
        using 1 R t by (auto simp: finished_def armed_append)
      ultimately show ?case by blast
    qed
  qed
qed


lemma Snapshot_armless: "traces (list_all armless) (BPF_Snapshot h fd)"
  by (rule armless_of_calm [OF Snapshot_calm])

lemma load_module_spec:
  "ensures_at (load_module h x ko params) w (\<lambda>r es w'. (r = Ok () \<and> armed es False = Some True) \<or>
     (\<exists>e. r = Err e) \<and> armed es False = Some False)"
  by (auto simp: load_module_def ensures_at_rules ensures_at_calls split: prod.split sum.split option.split)

lemma inject_spec:
  "ensures_at (inject n h x c sel identity ko target fd) w (\<lambda>r es w'.
     (\<exists>l. armed es False = Some l \<and> (l \<longrightarrow> r \<noteq> Ok ())) \<and>
     (r = Ok () \<longrightarrow> (\<exists>s es'. es = snapshot_events fd s @ es' \<and> Validate s = None \<and> sn_Wait s \<noteq> 0 \<and>
        settled (f_VhostFD c) \<lparr>sj_Selector = sel, sj_identity = identity, sj_target = target, sj_snapshot = s\<rparr> es')))"
  unfolding inject_def
proof (rule ensures_at_bindI [OF ensures_at_conj [OF Snapshot_spec Snapshot_armless [unfolded traces_if_def, THEN spec]]], goal_cases)
  case (1 s es w1)
  then have s: "es = snapshot_events fd s" "Validate s = None" "armed es False = Some False" by (auto simp: armed_armless)
  let ?sj = "\<lparr>sj_Selector = sel, sj_identity = identity, sj_target = target, sj_snapshot = s\<rparr>"
  have "ensures_at (bindE (load_module h x ko (module_params c fd s)) (\<lambda>_. run_experiment n h x c ?sj)) w1
     (\<lambda>r es w'. (\<exists>l. armed es False = Some l \<and> (l \<longrightarrow> r \<noteq> Ok ())) \<and> (r = Ok () \<longrightarrow> settled (f_VhostFD c) ?sj es))"
  proof (rule ensures_at_bindI [OF load_module_spec], goal_cases)
    case (1 y es1 w2)
    then have "armed es1 False = Some True" by auto
    then show ?case
      by (intro ensures_at_mono [OF run_experiment_spec]) (auto simp: armed_append intro: settled_append)
  qed auto
  then show ?case using s by (cases "sn_Wait s = 0") (auto simp: armed_append elim!: ensures_at_mono)
qed (auto simp: armed_armless)

text \<open>A part of the controller that keeps the module in check.\<close>

definition disarms :: "(event, 'w, unit) io \<Rightarrow> bool" where
  "disarms m \<longleftrightarrow> (\<forall>w. ensures_at m w (\<lambda>r es w'. \<exists>l. armed es False = Some l \<and> (l \<longrightarrow> r \<noteq> Ok ())))"

lemma disarms_armless: "traces (list_all armless) m \<Longrightarrow> disarms m"
  unfolding traces_if_def disarms_def by (intro allI) (erule allE, erule ensures_at_mono, auto simp: armed_armless)

lemma disarms_after:
  assumes "traces (list_all armless) m" and "\<And>x. disarms (f x)"
  shows "disarms (bindE m f)"
  unfolding disarms_def
proof
  fix w
  have "ensures_at m w (\<lambda>r es w'. list_all armless es)" using assms(1) by (simp add: traces_if_def)
  then show "ensures_at (bindE m f) w (\<lambda>r es w'. \<exists>l. armed es False = Some l \<and> (l \<longrightarrow> r \<noteq> Ok ()))"
  proof (rule ensures_at_bindI, goal_cases)
    case (1 x es w')
    then show ?case using assms(2) [of x] unfolding disarms_def
      by (auto simp: armed_append armed_armless intro: ensures_at_mono)
  qed (auto simp: armed_armless)
qed

lemma disarms_defer:
  assumes "disarms m" and "traces (list_all armless) d"
  shows "disarms (deferE m d)"
  unfolding disarms_def
proof
  fix w
  have m: "ensures_at m w (\<lambda>r es w'. \<exists>l. armed es False = Some l \<and> (l \<longrightarrow> r \<noteq> Ok ()))" using assms(1) by (simp add: disarms_def)
  show "ensures_at (deferE m d) w (\<lambda>r es w'. \<exists>l. armed es False = Some l \<and> (l \<longrightarrow> r \<noteq> Ok ()))"
  proof (rule ensures_at_deferI [OF m], goal_cases)
    case (2 r es w')
    then obtain l where l: "armed es False = Some l" "l \<longrightarrow> r \<noteq> Ok ()" by blast
    have "ensures_at d w' (\<lambda>r es w'. list_all armless es)" using assms(2) by (simp add: traces_if_def)
    then show ?case by (rule ensures_at_mono) (use l in \<open>auto simp: armed_append armed_armless split: outcome.split\<close>)
  qed blast
qed

lemma disarms_cases:
  "(b \<Longrightarrow> disarms m) \<Longrightarrow> (\<not> b \<Longrightarrow> disarms m') \<Longrightarrow> disarms (if b then m else m')"
  "(\<And>e. y = Inl e \<Longrightarrow> disarms (f e)) \<Longrightarrow> (\<And>z. y = Inr z \<Longrightarrow> disarms (k z)) \<Longrightarrow>
    disarms (case y of Inl e \<Rightarrow> f e | Inr z \<Rightarrow> k z)"
  "(z = None \<Longrightarrow> disarms m) \<Longrightarrow> (\<And>y. z = Some y \<Longrightarrow> disarms (j y)) \<Longrightarrow> disarms (case z of None \<Rightarrow> m | Some y \<Rightarrow> j y)"
  "(\<And>a b. p = (a, b) \<Longrightarrow> disarms (l a b)) \<Longrightarrow> disarms (case p of (a, b) \<Rightarrow> l a b)"
  "(xs = [] \<Longrightarrow> disarms m) \<Longrightarrow> (\<And>a as. xs = a # as \<Longrightarrow> disarms (q a as)) \<Longrightarrow> disarms (case xs of [] \<Rightarrow> m | a # as \<Rightarrow> q a as)"
  "disarms (failE e)" "disarms (panicE e)"
  by (auto split: sum.split option.split prod.split list.split simp: disarms_def)

lemma build_armless: "traces (list_all armless) (build h x c)"
  unfolding build_def copy_source_def kernel_dir_def or_clean_def by (intro every_call.intros traces_calls) auto

lemma cleanup_disarms: "disarms (cleanup h x)"
proof -
  have c: "ensures_at (cleanup h x) w (\<lambda>r es w'. armed es False = Some False)" for w
    unfolding cleanup_def
    by (rule ensures_at_bindI [OF unload_armed])
       (auto simp: armed_append armed_armless intro!: ensures_at_mono [OF fault_log_returns])
  show ?thesis unfolding disarms_def by (intro allI ensures_at_mono [OF c]) auto
qed

lemma attach_and_inject_disarms: "disarms (attach_and_inject n h eb x c sel identity ko)"
proof -
  have i: "disarms (inject n h x c sel identity ko target fd)" for target fd
    unfolding disarms_def by (auto intro: ensures_at_mono [OF inject_spec])
  have c: "traces (list_all armless) (Close h fd)" for fd by (intro traces_calls) simp
  show ?thesis unfolding attach_and_inject_def Target_Close_def
    by (intro disarms_after disarms_defer i c armless_of_calm [OF OpenTarget_calm] armless_of_calm [OF Check_calm]
        armless_of_calm [OF Duplicate_calm] armless_of_idle [OF OpenBPF_idle] armless_of_idle [OF BPF_Close_idle])
qed

lemma fault_Run_disarms: "disarms (fault_Run n h eb x c)"
proof -
  have a: "traces (list_all armless) (callV c1 (\<lambda>r. [EStat p r]))" "traces (list_all armless) (callO c2 (EMkdirAll p))"
    "traces (list_all armless) (callE c3 (EOpen p))" "traces (list_all armless) (attempt (callO c4 (EFlock fd)))"
    "traces (list_all armless) (callU c5 (EClose fd))" "traces (list_all armless) (callU c6 (ERemoveAll p))"
    for c1 c2 c3 c4 c5 c6 p fd
    by (intro every_call.intros traces_calls; simp)+
  have c: "disarms (control n h eb x c)" unfolding control_def
    by (intro disarms_cases disarms_after disarms_defer cleanup_disarms attach_and_inject_disarms a build_armless
        armless_of_calm [OF Resolve_calm])
  show ?thesis unfolding fault_Run_def
    by (intro disarms_after disarms_defer disarms_cases every_call.check a c)
qed

text \<open>
  C12. The module is never loaded twice, nothing is ever written while it is loaded, and a controller that
  ends without an error has unloaded it, whatever happened in between.
\<close>

theorem fault_module_never_left_behind:
  assumes "fault_Run n h eb x c w = (r, es, w')"
  shows "\<exists>loaded. armed es False = Some loaded \<and> (loaded \<longrightarrow> r \<noteq> Ok ())"
  using fault_Run_disarms [of n h eb x c] assms by (auto simp: disarms_def ensures_at_def dest!: spec [of _ w])

section \<open>An experiment\<close>

text \<open>
  The tools: the module is built, loaded and unloaded at once; the context ends before the first tick, so that the
  queue is kicked.
\<close>

definition lab_tools :: "unit lab" where
  "lab_tools = \<lparr>x_MkdirTemp = (\<lambda>w. (Inr ''/t'', w)), x_RemoveAll = (\<lambda>d w. w), x_WriteFile = (\<lambda>p d w. (None, w)),
     x_Make = (\<lambda>a w. (None, w)), x_Uname = (\<lambda>w. (Inr ''6.8'', w)), x_Stat = (\<lambda>p w. (Some (Errno ENOENT), w)),
     x_FinitModule = (\<lambda>f p w. (None, w)), x_DeleteModule = (\<lambda>n w. (None, w)), x_Sleep = (\<lambda>d w. w),
     x_Now = (\<lambda>w. (0, w)), x_Tick = (\<lambda>w. (None, w))\<rparr>"

definition lab_config :: fault_Config where
  "lab_config = \<lparr>f_Selector = Some lab_selector, f_VhostFD = 42, f_Delay = 1000 * time_Millisecond, f_Window = 500 * time_Millisecond,
     f_RecoverAfter = 30000 * time_Millisecond, f_Drops = 1, f_BPFObject = ''/watch.bpf.o'', f_SourceDir = ''/fault-source'',
     f_StateDir = ''/state'', f_KernelBuildDir = '''', f_Compiler = ''gcc-12'', f_Cleanup = False\<rparr>"

lemma lab_tools_calls [simp]:
  "x_MkdirTemp lab_tools w = (Inr ''/t'', w)" "x_RemoveAll lab_tools d w = w" "x_WriteFile lab_tools p d w = (None, w)"
  "x_Make lab_tools a w = (None, w)" "x_Uname lab_tools w = (Inr ''6.8'', w)" "x_Stat lab_tools p w = (Some (Errno ENOENT), w)" "x_FinitModule lab_tools fd p w = (None, w)"
  "x_DeleteModule lab_tools n w = (None, w)" "x_Now lab_tools w = (0, w)" "x_Tick lab_tools w = (None, w)"
  by (simp_all add: lab_tools_def)

lemma lab_recover: "\<exists>es. fault_recover lab_host lab_config s proc_target lab_target lab_snapshot w = (Ok (), es, w)"
  if "s_ProcRoot s = ''/proc''"
  using lab_check [OF that, of w] lab_Snapshot [of 9 w] lab_Inventory [of w] lab_Rekick [of w]
  by (auto simp: fault_recover_def Duplicate_def io_execs)

lemma lab_log: "\<exists>fs. fault_log lab_host lab_tools ev row w = (Ok (), [EEncode fs None], w)"
  by (simp add: fault_log_def io_execs Let_def)


abbreviation lab_loaded :: "event list \<Rightarrow> bool" where
  "lab_loaded es \<equiv> \<exists>f. EFinitModule f (module_params lab_config 9 lab_snapshot) None \<in> set es"

lemma lab_inject:
  assumes "s_ProcRoot s = ''/proc''"
  shows "\<exists>es. inject 1 lab_host lab_tools lab_config s proc_target ko lab_target 9 w = (Ok (), es, w) \<and> lab_loaded es"
proof -
  let ?sj = "\<lparr>sj_Selector = s, sj_identity = proc_target, sj_target = lab_target, sj_snapshot = lab_snapshot\<rparr>"
  let ?v = "\<lparr>fv_loaded = True, fv_recovered = False, fv_haveBaseline = False, fv_baselineUsed = 0\<rparr>"
  obtain es1 where "BPF_Snapshot lab_host 9 w = (Ok lab_snapshot, es1, w)" using lab_Snapshot by blast
  moreover have "\<exists>es. load_module lab_host lab_tools ko (module_params lab_config 9 lab_snapshot) w = (Ok (), es, w) \<and> lab_loaded es"
    by (simp add: load_module_def io_execs)
  moreover have "\<exists>es. finish lab_host lab_tools lab_config ?sj None (?v, w) = (Ok None, es, (?v, w))"
    using lab_recover [OF assms, of w] lab_log [of "''recovery_written''" "subject_fields lab_config ?sj" w]
    by (auto simp: finish_def lab_Alive unload_def eval_nat_numeral io_execs)
  then have "\<exists>es. run_experiment 1 lab_host lab_tools lab_config ?sj w = (Ok (), es, w)"
    using lab_log [of "''armed''" "armed_fields lab_config ?sj" w]
    by (auto simp: run_experiment_def deferR_def fault_tick_def io_execs)
  moreover have "sn_Wait lab_snapshot \<noteq> 0" by (simp add: lab_snapshot_def)
  ultimately show ?thesis by (fastforce simp: inject_def bindE_def)
qed

lemma lab_attach:
  assumes "s_ProcRoot s = ''/proc''"
  shows "\<exists>es. attach_and_inject 1 lab_host qemu_ebpf lab_tools lab_config s proc_target ko w = (Ok (), es, w) \<and> lab_loaded es"
  using lab_open [of w] lab_check [OF assms, of w] lab_inject [OF assms, of ko w]
  by (auto simp: attach_and_inject_def proc_target_def Duplicate_def qemu_OpenBPF qemu_BPF_Close lab_config_def Target_Close_def io_execs)

lemma lab_build: "\<exists>ko es. build lab_host lab_tools lab_config w = (Ok (ko, ''/t''), es, w)"
proof -
  have "filepath_Join [''/fault-source'', ''Makefile''] = ''/fault-source/Makefile''" "filepath_Join [''/fault-source'', ''vhost_fault.c''] = ''/fault-source/vhost_fault.c''"
    by (simp_all add: filepath_Join_def filepath_Clean_def Split_def)
  then show ?thesis
    by (simp add: build_def copy_source_def kernel_dir_def or_clean_def lab_config_def lab_ReadFile [simplified] io_execs Let_def)
qed

lemma lab_run: "\<exists>es. fault_Run 1 lab_host qemu_ebpf lab_tools lab_config () = (Ok (), es, ()) \<and> lab_loaded es"
proof -
  have v: "validate lab_config = None" by (simp add: validate_def lab_config_def)
  have c: "f_Selector lab_config = Some lab_selector" "\<not> f_Cleanup lab_config" by (simp_all add: lab_config_def)
  obtain ko es2 where b: "build lab_host lab_tools lab_config () = (Ok (ko, ''/t''), es2, ())" using lab_build by blast
  obtain es3 where a: "attach_and_inject 1 lab_host qemu_ebpf lab_tools lab_config (lab_selector\<lparr>s_anchored := [(7, ''42'')]\<rparr>)
      proc_target ko () = (Ok (), es3, ())" and l: "lab_loaded es3"
    using lab_attach [of "lab_selector\<lparr>s_anchored := [(7, ''42'')]\<rparr>" ko "()"] by (auto simp: lab_selector_def)
  show ?thesis using lab_resolve v c b a l
    by (auto simp: fault_Run_def control_def io_execs)
qed

theorem unload_ends_within_a_hundred_tries_witness:
  "\<exists>es tries. unload lab_tools () = (Ok (), es, ()) \<and> list_all busy_try tries \<and> length tries < 100 \<and>
     es = concat tries @ [EDeleteModule ''vhost_fault'' None]"
proof -
  have r: "unload lab_tools () = (Ok (), [EDeleteModule ''vhost_fault'' None], ())"
    by (simp add: unload_def eval_nat_numeral io_execs)
  show ?thesis using r unload_ends_within_a_hundred_tries [OF r] by auto
qed

theorem fault_module_never_left_behind_witness:
  "\<exists>es. fault_Run 1 lab_host qemu_ebpf lab_tools lab_config () = (Ok (), es, ()) \<and> armed es False = Some False"
proof -
  obtain es where r: "fault_Run 1 lab_host qemu_ebpf lab_tools lab_config () = (Ok (), es, ())" using lab_run by blast
  show ?thesis using r fault_module_never_left_behind [OF r] by auto
qed

end
