(* ===== verification/Fault_Safety.thy ===== *)
theory Fault_Safety
  imports Experiment
begin

text \<open>
  What a fault controller leaves behind and what it may write: descriptors, probes and the temporary directory are
  accounted for on every path, the only writes are verified kicks, and it never panics.
\<close>

section \<open>Nothing left behind\<close>

text \<open>The temporary directories that are there.\<close>

fun tempdirs :: "event list \<Rightarrow> string multiset \<Rightarrow> string multiset option" where
  "tempdirs [] M = Some M"
| "tempdirs (EMkdirTemp (Inr d) # es) M = tempdirs es (add_mset d M)"
| "tempdirs (ERemoveAll d # es) M = (if d \<in># M then tempdirs es (M - {#d#}) else None)"
| "tempdirs (_ # es) M = tempdirs es M"

lemma tempdirs_append: "tempdirs (es @ es') M = Option.bind (tempdirs es M) (tempdirs es')"
  by (induction es M rule: tempdirs.induct) auto

interpretation tempdir_account: accounting tempdirs
  by unfold_locales (auto simp: tempdirs_append)

abbreviation removed :: "event list \<Rightarrow> bool" where
  "removed es \<equiv> \<forall>M. tempdirs es M = Some M"

fun dirless :: "event \<Rightarrow> bool" where
  "dirless (EMkdirTemp _) = False"
| "dirless (ERemoveAll _) = False"
| "dirless _ = True"

lemma dirless_removed: "list_all dirless es \<Longrightarrow> tempdirs es M = Some M"
proof (induction es)
  case (Cons e es)
  then show ?case by (cases e) auto
qed simp

lemma local_dirless: "local_call e \<Longrightarrow> dirless e"
  by (cases e) auto

text \<open>A step of the build, with the directory \<open>dir\<close> there: when it fails, the directory is gone.\<close>

definition builds_in :: "string \<Rightarrow> (event, 'w, 'a) io \<Rightarrow> bool" where
  "builds_in dir m \<longleftrightarrow> (\<forall>w. ensures_at m w (\<lambda>r es w'. case r of
     Ok y \<Rightarrow> \<forall>M. tempdirs es (add_mset dir M) = Some (add_mset dir M)
   | Err e \<Rightarrow> \<forall>M. tempdirs es (add_mset dir M) = Some M | _ \<Rightarrow> False))"

lemma builds_bind: "builds_in dir m \<Longrightarrow> (\<And>y. builds_in dir (f y)) \<Longrightarrow> builds_in dir (bindE m f)"
proof -
  assume m: "builds_in dir m" and f: "\<And>y. builds_in dir (f y)"
  show ?thesis unfolding builds_in_def
  proof (intro allI, rule ensures_at_bindI [OF m [unfolded builds_in_def, THEN spec]], goal_cases)
    case (1 w y es w')
    then show ?case by (intro ensures_at_mono [OF f [unfolded builds_in_def, THEN spec]]) (auto simp: tempdirs_append split: outcome.splits)
  qed auto
qed

lemma builds_ret: "builds_in dir (retE y)"
  by (simp add: builds_in_def)

lemma builds_or_clean:
  assumes "traces (list_all dirless) m" and "\<And>w. ensures_at m w (\<lambda>r es w'. (\<exists>y. r = Ok y) \<or> (\<exists>e. r = Err e))"
  shows "builds_in dir (or_clean x dir m)"
  unfolding builds_in_def
proof
  fix w
  obtain r es w' where m: "m w = (r, es, w')" by (cases "m w")
  have "list_all dirless es" "(\<exists>y. r = Ok y) \<or> (\<exists>e. r = Err e)"
    using traces_ifD [OF assms(1) m] assms(2) [of w] m by (auto simp: ensures_at_def)
  then show "ensures_at (or_clean x dir m) w (\<lambda>r es w'. case r of
     Ok y \<Rightarrow> \<forall>M. tempdirs es (add_mset dir M) = Some (add_mset dir M)
   | Err e \<Rightarrow> \<forall>M. tempdirs es (add_mset dir M) = Some M | _ \<Rightarrow> False)"
    by (auto simp: or_clean_def ensures_at_rules ensures_at_def [of m] m ensures_at_calls tempdirs_append dirless_removed)
qed

lemma call_answers:
  "ensures_at (callE c1 ev1) w (\<lambda>r es w'. (\<exists>y. r = Ok y) \<or> (\<exists>e. r = Err e))"
  "ensures_at (callO c2 ev2) w (\<lambda>r es w'. (\<exists>y. r = Ok y) \<or> (\<exists>e. r = Err e))"
  by (auto simp: ensures_at_calls split: prod.split sum.split option.split)

lemma returned_by:
  "(\<And>x w. ensures_at (f x) w (\<lambda>r es w'. \<forall>y. r = Ok y \<longrightarrow> P y)) \<Longrightarrow> ensures_at (bindE m f) w (\<lambda>r es w'. \<forall>y. r = Ok y \<longrightarrow> P y)"
  by (rule ensures_at_bindI [where R = "\<lambda>_ _ _. True"]) (simp_all add: ensures_at_def case_prod_unfold)

lemma build_acquires:
  "ensures_at (build h x c) w (\<lambda>r es w'. case r of
      Ok kd \<Rightarrow> \<forall>M. tempdirs es M = Some (M + {#snd kd#}) | Running \<Rightarrow> True | _ \<Rightarrow> removed es)"
proof -
  have d: "traces (list_all dirless) (callE c1 (EReadFile p))" "traces (list_all dirless) (callO c2 (EWriteFile p q))"
    "traces (list_all dirless) (callE c3 EUname)" for c1 c2 c3 p q
    by (intro traces_calls; simp)+
  have "builds_in dir (copy_source h x c dir name)" for dir name
    unfolding copy_source_def by (intro builds_bind builds_or_clean d call_answers)
  then have f: "builds_in dir (forE names (copy_source h x c dir))" for dir names
    by (induction names) (auto intro!: builds_ret builds_bind)
  have k: "builds_in dir (kernel_dir x c dir)" for dir
    unfolding kernel_dir_def by (auto intro!: builds_bind builds_or_clean d call_answers builds_ret)
  let ?rest = "\<lambda>dir. bindE (forE [''Makefile'', ''vhost_fault.c''] (copy_source h x c dir)) (\<lambda>_.
    bindE (kernel_dir x c dir) (\<lambda>kdir.
    let args = [''-C'', dir, ''KDIR='' @ kdir, ''CC='' @ f_Compiler c] in
    bindE (attempt (callO (x_Make x args) (EMake args))) (\<lambda>r.
    case r of
      Inl e \<Rightarrow> bindE (RemoveAll x dir) (\<lambda>_. failE (Wrap ''build against Host kernel headers'' e))
    | Inr _ \<Rightarrow> retE (filepath_Join [dir, ''vhost_fault.ko''], dir))))"
  have m: "builds_in dir (let args = a in bindE (attempt (callO (x_Make x args) (EMake args))) (\<lambda>r.
    case r of
      Inl e \<Rightarrow> bindE (RemoveAll x dir) (\<lambda>_. failE (Wrap ''build against Host kernel headers'' e))
    | Inr _ \<Rightarrow> retE (filepath_Join [dir, ''vhost_fault.ko''], dir)))" for dir a
    by (auto simp: builds_in_def Let_def ensures_at_rules ensures_at_calls split: prod.split option.split)
  have b: "builds_in dir (?rest dir)" for dir by (intro builds_bind f k m)
  have s: "ensures_at (?rest dir) w (\<lambda>r es w'. \<forall>y. r = Ok y \<longrightarrow> snd y = dir)" for dir w
    unfolding Let_def by (intro returned_by) (auto simp: ensures_at_bind [of "callU _ _"] ensures_at_calls split: sum.split)
  obtain a w1 where t: "x_MkdirTemp x w = (a, w1)" by fastforce
  show ?thesis
  proof (cases a)
    case (Inr dir)
    have "ensures_at (?rest dir) w1 (\<lambda>r es w'. case r of
      Ok kd \<Rightarrow> \<forall>M. tempdirs ([EMkdirTemp (Inr dir)] @ es) M = Some (M + {#snd kd#}) | Running \<Rightarrow> True
      | _ \<Rightarrow> removed ([EMkdirTemp (Inr dir)] @ es))"
      by (rule ensures_at_mono [OF ensures_at_conj [OF b [unfolded builds_in_def, THEN spec] s]]) (auto split: outcome.splits)
    then show ?thesis using t Inr unfolding build_def ensures_at_bind [of "callE (x_MkdirTemp x) _"] ensures_at_calls by simp
  qed (use t in \<open>simp add: build_def ensures_at_bind [of "callE _ _"] ensures_at_calls\<close>)
qed


lemma tempdirs_kept:
  assumes "traces (list_all dirless) m" shows "traces_if b removed m"
  using assms by (rule traces_imp) (simp add: dirless_removed)

text \<open>The calls of the controller beyond the host, the temporary directory and the loading of the module aside.\<close>

fun lab_call :: "event \<Rightarrow> bool" where
  "lab_call (EDeleteModule _ _) = True"
| "lab_call (ESleep _) = True"
| "lab_call (EStat _ _) = True"
| "lab_call (EWriteFile _ _ _) = True"
| "lab_call (EMake _ _) = True"
| "lab_call (EUname _) = True"
| "lab_call (ENow _) = True"
| "lab_call (ETick _) = True"
| "lab_call _ = False"

text \<open>
  A property of call lists that holds of calm lists and of those calls holds of an experiment if it holds of the
  recovery; if it also holds of the loading, it holds of an injection.
\<close>

locale experiment_property = calm_property P for P :: "event list \<Rightarrow> bool" +
  assumes lab: "lab_call e \<Longrightarrow> P [e]"
begin

lemma log: "traces P (fault_log h x ev row)"
  unfolding fault_log_def by (intro intros traces_calls) (auto intro: call nil)

lemma unload: "traces P (Fault.unload x)"
proof -
  have "traces P (unload_tries k x)" for k
    by (induction k) (auto intro!: intros traces_calls lab)
  then show ?thesis by (simp add: unload_def)
qed

lemma stats: "traces P (moduleStats h)"
  unfolding moduleStats_def module_param_def by (intro intros traces_calls) (auto intro: call)

lemma disarm: "traces P (Fault.disarm h x sj)"
  unfolding disarm_def
  by (intro intros log unload stats calm_parts) (auto intro!: intros split: option.split jval.split)

lemma tick: "traces P (fault_tick h x c sj windowEnd)"
  unfolding fault_tick_def observe_progress_def by (intro intros disarm log calm_parts traces_calls) (auto intro: lab)

lemma experiments:
  assumes "traces P (fault_recover h c (sj_Selector sj) (sj_identity sj) (sj_target sj) (sj_snapshot sj))"
  shows "traces P (run_experiment n h x c sj)"
proof -
  have "traces P (fault_loop k h x c sj we)" for k we
    by (induction k) (use tick in \<open>auto intro!: intros\<close>)
  then show ?thesis unfolding run_experiment_def finish_def
    by (intro intros deferredR log unload assms calm_parts traces_calls) (auto intro: lab)
qed

end

locale fault_property = experiment_property P for P :: "event list \<Rightarrow> bool" +
  assumes load: "P [EFinitModule f p res]"
begin

lemma injects:
  assumes "\<And>s. traces P (fault_recover h c sel identity target s)"
  shows "traces P (inject n h x c sel identity ko target fd)"
  unfolding inject_def load_module_def
  by (intro intros calm_parts experiments traces_calls) (auto intro: load call assms)

end

lemma lab_calls: "lab_call e \<Longrightarrow> quiet e \<and> dirless e \<and> probeless e"
  by (cases e) auto

interpretation verified_fault: fault_property only_verified_kicks
  by unfold_locales (simp_all add: verified_quiet lab_calls)

interpretation kept_dirs: fault_property "list_all dirless"
  by unfold_locales (auto simp: list_all_iff local_dirless idle_local lab_calls)

interpretation kept_probes: fault_property detached
  by unfold_locales (simp_all add: attached_probeless lab_calls)

lemma dirless_of_local: "traces (list_all local_call) m \<Longrightarrow> traces (list_all dirless) m"
  by (erule traces_imp) (auto simp: list_all_iff local_dirless)

lemma attach_and_inject_dirless: "traces (list_all dirless) (attach_and_inject n h eb x c sel identity ko)"
  unfolding attach_and_inject_def Target_Close_def
  by (intro every_call.intros kept_dirs.injects dirless_of_local [OF fault_recover_local] kept_dirs.calm_parts
      kept_dirs.of_calm [OF Check_calm] dirless_of_local [OF local_calls.of_idle [OF OpenBPF_idle]]
      dirless_of_local [OF local_calls.of_idle [OF BPF_Close_idle]] traces_calls) auto


lemma fault_recover_verified: "traces only_verified_kicks (fault_recover h c sel identity t s)"
  unfolding fault_recover_def
  by (intro verified.intros verified_kicks.calm_parts verified_kicks.of_calm [OF Check_calm] Rekick_verified traces_calls)
     (auto intro: verified_quiet)

lemma fault_recover_detached: "traces detached (fault_recover h c sel identity t s)"
  unfolding fault_recover_def
  by (intro probe_account.balance.intros probes_kept.calm_parts probes_kept.of_calm [OF Check_calm] Rekick_detached traces_calls)
     auto

lemma fault_recover_neutral: "completes neutral (fault_recover h c sel identity t s)"
  unfolding fault_recover_def
  by (intro neutral.intros completes_scoped [where f = "\<lambda>fd. fd"] Check_neutral Duplicate_acquires Snapshot_neutral Inventory_neutral
      Rekick_neutral)

lemma keeps_traces:
  "traces (list_all keeps_fds) (fault_log h x ev row)" "traces (list_all keeps_fds) (unload_tries k x)"
  "traces (list_all keeps_fds) (moduleStats h)" "traces (list_all keeps_fds) (build h x c)"
proof -
  show "traces (list_all keeps_fds) (unload_tries k x)"
    by (induction k) (auto intro!: every_call.intros traces_calls)
qed (unfold fault_log_def moduleStats_def module_param_def build_def copy_source_def kernel_dir_def or_clean_def,
   (intro every_call.intros traces_calls; auto)+)

lemma experiment_neutral: "completes neutral (run_experiment n h x c sj)"
proof -
  note k = keeps_traces [THEN completes_keeps]
  have d: "completes neutral (disarm h x sj)" unfolding disarm_def unload_def
    by (intro neutral.intros k Ring_neutral) (auto intro!: neutral.intros split: option.split jval.split)
  have t: "completes neutral (fault_tick h x c sj we)" for we unfolding fault_tick_def observe_progress_def
    by (intro neutral.intros d k Ring_neutral Alive_neutral traces_calls) auto
  have "completes neutral (fault_loop i h x c sj we)" for i we
    by (induction i) (use t in \<open>auto intro!: neutral.intros\<close>)
  then show ?thesis unfolding run_experiment_def finish_def unload_def
    by (intro neutral.intros neutral.deferredR k Alive_neutral fault_recover_neutral traces_calls) auto
qed

lemma load_module_neutral: "completes neutral (load_module h x ko params)"
  unfolding load_module_def
  by (intro completes_closed_after [where f = "\<lambda>f. f"] acquires_call no_panic_calls neutral.intros traces_calls) auto

lemma attach_and_inject_neutral: "completes neutral (attach_and_inject n h eb x c sel identity ko)"
  unfolding attach_and_inject_def Target_Close_def inject_def
  by (intro completes_scoped [where f = t_pidfd] completes_scoped [where f = "\<lambda>f. f"] OpenTarget_acquires Duplicate_acquires neutral.intros Check_neutral
      OpenBPF_neutral BPF_Close_neutral Snapshot_neutral load_module_neutral experiment_neutral)


lemma cleanup_parts:
  "completes neutral (cleanup h x)" "traces detached (cleanup h x)" "traces (list_all dirless) (cleanup h x)"
  unfolding cleanup_def
  by (intro neutral.intros keeps_traces [THEN completes_keeps, folded unload_def]; simp add: unload_def keeps_traces [THEN completes_keeps])
     (intro probe_account.balance.intros kept_probes.unload kept_probes.log,
      intro every_call.intros kept_dirs.unload kept_dirs.log)

lemma fault_Run_neutral: "completes neutral (fault_Run n h eb x c)"
proof -
  have c: "completes neutral (control n h eb x c)" unfolding control_def
    by (intro neutral.intros cleanup_parts Resolve_neutral keeps_traces [THEN completes_keeps] attach_and_inject_neutral traces_calls) auto
  show ?thesis unfolding fault_Run_def
    by (intro neutral.intros completes_scoped [where f = "\<lambda>f. f"] acquires_call c traces_calls) auto
qed

lemma fault_Run_detaches: "completes detached (fault_Run n h eb x c)"
proof -
  have o: "\<forall>w. ensures_at (OpenBPF eb path ts) w (\<lambda>r es w'. case r of
      Ok b \<Rightarrow> \<forall>M. attached es M = Some (M + holds b) | Running \<Rightarrow> True | _ \<Rightarrow> detached es)" for path ts
    by (intro allI ensures_at_mono [OF OpenBPF_holds]) (auto split: outcome.split)
  note scoped = probe_account.scoped [OF o _ BPF_Close_detaches]
  note calm = probes_kept.of_calm [THEN traces_completes]
  have a: "completes detached (attach_and_inject n h eb x c sel identity ko)" for sel identity ko
    unfolding attach_and_inject_def Target_Close_def
    by (intro scoped probe_account.balance.intros calm [OF OpenTarget_calm] calm [OF Check_calm] calm [OF Duplicate_calm]
        kept_probes.injects [THEN traces_completes] fault_recover_detached traces_calls) auto
  have b: "completes detached (build h x c)" unfolding build_def copy_source_def kernel_dir_def or_clean_def
    by (intro probe_account.balance.intros traces_calls) auto
  have "completes detached (control n h eb x c)" unfolding control_def
    by (intro probe_account.balance.intros cleanup_parts(2) [THEN traces_completes] calm [OF Resolve_calm] a b traces_calls) auto
  then show ?thesis unfolding fault_Run_def by (intro probe_account.balance.intros traces_calls) auto
qed

lemma fault_Run_removes: "completes removed (fault_Run n h eb x c)"
proof -
  have b: "\<forall>w. ensures_at (build h x c) w (\<lambda>r es w'. case r of
      Ok kd \<Rightarrow> \<forall>M. tempdirs es M = Some (M + {#snd kd#}) | Running \<Rightarrow> True | _ \<Rightarrow> removed es)"
    by (intro allI build_acquires)
  have r: "ensures_at (RemoveAll x dir) w (\<lambda>r es w'. r = Ok () \<and> (\<forall>M. tempdirs es (M + {#dir#}) = Some M))" for dir w
    by (simp add: ensures_at_calls)
  have s: "completes removed (bindE (build h x c) (\<lambda>(ko, dir). deferE (attach_and_inject n h eb x c sel t ko) (RemoveAll x dir)))"
    for sel t
    unfolding case_prod_unfold
    by (rule tempdir_account.scoped [OF b _ r]) (rule tempdirs_kept [OF attach_and_inject_dirless])
  have "completes removed (control n h eb x c)" unfolding control_def
    by (intro tempdir_account.balance.cond tempdir_account.balance.case_option tempdir_account.balance.case_sum
        tempdir_account.balance.case_prod tempdir_account.balance.case_list tempdir_account.balance.fail tempdir_account.balance.panic s
        tempdirs_kept [OF cleanup_parts(3)] tempdir_account.balance.bind [OF tempdirs_kept [OF kept_dirs.of_calm [OF Resolve_calm]]]
        tempdir_account.balance.bind [where m = "callV _ _"] traces_calls) auto
  then show ?thesis unfolding fault_Run_def by (intro tempdir_account.balance.intros traces_calls) auto
qed

text \<open>
  C17. A fault controller that has ended, in whatever way, has closed exactly the descriptors it opened, detached every probe
  and unloaded the collection, and removed its temporary directory.
\<close>

theorem fault_leaves_nothing_behind:
  assumes "fault_Run n h eb x c w = (r, es, w')" and "r \<noteq> Running"
  shows "fds es M = Some M \<and> attached es {#} = Some {#} \<and> tempdirs es {#} = Some {#}"
  using traces_ifD [OF fault_Run_neutral assms(1)] traces_ifD [OF fault_Run_detaches assms(1)]
    traces_ifD [OF fault_Run_removes assms(1)] assms(2) by (simp add: neutral_def)

section \<open>Writes\<close>

lemma fault_Run_verified: "traces only_verified_kicks (fault_Run n h eb x c)"
proof -
  note idle = verified_kicks.of_idle and calm = verified_kicks.of_calm
  have b: "traces only_verified_kicks (build h x c)" unfolding build_def copy_source_def kernel_dir_def or_clean_def
    by (intro verified.intros traces_calls) (auto intro: verified_quiet)
  have "traces only_verified_kicks (control n h eb x c)" unfolding control_def cleanup_def attach_and_inject_def Target_Close_def
    by (intro verified.intros verified_fault.unload verified_fault.log verified_fault.injects fault_recover_verified b
        calm [OF Resolve_calm] calm [OF Check_calm] calm [OF OpenTarget_calm] calm [OF Duplicate_calm] idle [OF OpenBPF_idle]
        idle [OF BPF_Close_idle] traces_calls) (auto intro: verified_quiet)
  then show ?thesis unfolding fault_Run_def by (intro verified.intros traces_calls) (auto intro: verified_quiet)
qed

text \<open>The calls of a cleanup.\<close>

fun cleanup_call :: "event \<Rightarrow> bool" where
  "cleanup_call (EMkdirAll _ _) = True"
| "cleanup_call (EOpen _ _) = True"
| "cleanup_call (EFlock _ _) = True"
| "cleanup_call (EClose _) = True"
| "cleanup_call (EDeleteModule _ _) = True"
| "cleanup_call (ESleep _) = True"
| "cleanup_call (EEncode _ _) = True"
| "cleanup_call _ = False"

lemma cleanup_calls: "f_Cleanup c \<Longrightarrow> traces (list_all cleanup_call) (fault_Run n h eb x c)"
proof -
  assume c: "f_Cleanup c"
  have u: "traces (list_all cleanup_call) (unload_tries k x)" for k
    by (induction k) (auto intro!: every_call.intros traces_calls)
  have "traces (list_all cleanup_call) (control n h eb x c)" using c
    unfolding control_def cleanup_def unload_def fault_log_def by (simp, intro every_call.intros u traces_calls) auto
  then show ?thesis unfolding fault_Run_def by (intro every_call.intros traces_calls) auto
qed

text \<open>
  C18. The controller writes nothing but verified kicks, and a cleanup neither looks at a process nor writes: it takes the
  lock, unloads the module and says so.
\<close>

theorem fault_writes_only_verified_kicks:
  assumes "fault_Run n h eb x c w = (r, es, w')"
  shows "only_verified_kicks es \<and> (f_Cleanup c \<longrightarrow> list_all cleanup_call es)"
  using traces_ifD [OF fault_Run_verified assms] traces_ifD [OF cleanup_calls assms] by simp

section \<open>What the module is told\<close>

text \<open>
  Every loading of the module comes after a snapshot of the duplicate \<open>fd\<close>, of which \<open>origin\<close> holds and whose calls
  precede it, and its parameters are those of the configuration for that snapshot.
\<close>

definition loads_for :: "fault_Config \<Rightarrow> (int \<Rightarrow> event list \<Rightarrow> bool) \<Rightarrow> event list \<Rightarrow> bool" where
  "loads_for c origin es \<longleftrightarrow> (\<forall>f p res. EFinitModule f p res \<in> set es \<longrightarrow>
     (\<exists>pre fd s post. es = pre @ snapshot_events fd s @ post \<and> EFinitModule f p res \<in> set post \<and> origin fd pre \<and>
        Validate s = None \<and> sn_Wait s \<noteq> 0 \<and> p = module_params c fd s))"

lemma loads_for_before:
  assumes "loads_for c origin es" and "\<And>fd pre. origin fd pre \<Longrightarrow> origin' fd (before @ pre)"
    and "\<And>f p res. EFinitModule f p res \<notin> set before"
  shows "loads_for c origin' (before @ es)"
  unfolding loads_for_def
proof (intro allI impI)
  fix f p res
  assume "EFinitModule f p res \<in> set (before @ es)"
  then have "EFinitModule f p res \<in> set es" using assms(3) by auto
  then obtain pre fd s post where "es = pre @ snapshot_events fd s @ post" "EFinitModule f p res \<in> set post" "origin fd pre"
      "Validate s = None" "sn_Wait s \<noteq> 0" "p = module_params c fd s"
    using assms(1) unfolding loads_for_def by blast
  then show "\<exists>pre fd s post. before @ es = pre @ snapshot_events fd s @ post \<and> EFinitModule f p res \<in> set post \<and> origin' fd pre \<and>
        Validate s = None \<and> sn_Wait s \<noteq> 0 \<and> p = module_params c fd s"
    using assms(2) by (intro exI [of _ "before @ pre"] exI [of _ fd] exI [of _ s] exI [of _ post]) auto
qed

lemma loads_for_append:
  assumes "\<And>fd pre before. origin fd pre \<Longrightarrow> origin fd (before @ pre)" and "loads_for c origin es" and "loads_for c origin es'"
  shows "loads_for c origin (es @ es')"
  unfolding loads_for_def
proof (intro allI impI)
  fix f p res
  let ?G = "\<lambda>es. \<exists>pre fd s post. es = pre @ snapshot_events fd s @ post \<and> EFinitModule f p res \<in> set post \<and> origin fd pre \<and>
        Validate s = None \<and> sn_Wait s \<noteq> 0 \<and> p = module_params c fd s"
  assume "EFinitModule f p res \<in> set (es @ es')"
  then have "?G es \<or> ?G es'" using assms(2,3) unfolding loads_for_def by auto
  moreover have "?G (es @ es')" if g: "?G es"
  proof -
    from g obtain pre fd s post where "es = pre @ snapshot_events fd s @ post" "EFinitModule f p res \<in> set post" "origin fd pre"
      "Validate s = None" "sn_Wait s \<noteq> 0" "p = module_params c fd s" by blast
    then show ?thesis by (intro exI [of _ pre] exI [of _ fd] exI [of _ s] exI [of _ "post @ es'"]) auto
  qed
  moreover have "?G (es @ es')" if g: "?G es'"
  proof -
    from g obtain pre fd s post where "es' = pre @ snapshot_events fd s @ post" "EFinitModule f p res \<in> set post" "origin fd pre"
      "Validate s = None" "sn_Wait s \<noteq> 0" "p = module_params c fd s" by blast
    then show ?thesis using assms(1)
      by (intro exI [of _ "es @ pre"] exI [of _ fd] exI [of _ s] exI [of _ post]) auto
  qed
  ultimately show "?G (es @ es')" by blast
qed

text \<open>The duplicate is a given one, or it was taken from the slot of the configuration.\<close>

abbreviation given_fd :: "int \<Rightarrow> int \<Rightarrow> event list \<Rightarrow> bool" where
  "given_fd fd \<equiv> \<lambda>fd' pre. fd' = fd"

definition slot_fd :: "int \<Rightarrow> int \<Rightarrow> event list \<Rightarrow> bool" where
  "slot_fd vhostFD fd pre \<longleftrightarrow> (\<exists>pidfd. EPidfdGetfd pidfd vhostFD (Inr fd) \<in> set pre)"

interpretation given_loads: trace_property "loads_for c (given_fd fd)" for c fd
  by unfold_locales (simp add: loads_for_def, rule loads_for_append)

interpretation slot_loads: trace_property "loads_for c (slot_fd vhostFD)" for c vhostFD
  by unfold_locales (simp add: loads_for_def, rule loads_for_append, auto simp: slot_fd_def)

fun loadless :: "event \<Rightarrow> bool" where
  "loadless (EFinitModule _ _ _) = False"
| "loadless _ = True"

lemma loadless_calls: "local_call e \<Longrightarrow> loadless e" "idle e \<Longrightarrow> loadless e" "calm e \<Longrightarrow> loadless e" "lab_call e \<Longrightarrow> loadless e"
  by (cases e; simp)+

lemma loadless_loads: "list_all loadless es \<Longrightarrow> loads_for c origin es"
  by (auto simp: loads_for_def list_all_iff)

lemma loadless_traces: "traces (list_all loadless) m \<Longrightarrow> traces (loads_for c origin) m"
  by (erule traces_imp) (rule loadless_loads)

interpretation loadless_parts: experiment_property "list_all loadless"
  by unfold_locales (auto simp: list_all_iff loadless_calls)

lemma local_loadless: "traces (list_all local_call) m \<Longrightarrow> traces (list_all loadless) m"
  by (erule traces_imp) (auto simp: list_all_iff loadless_calls)

lemma inject_loads: "traces (loads_for c (given_fd fd)) (inject n h x c sel identity ko target fd)"
  unfolding traces_if_def inject_def
proof (intro allI, rule ensures_at_bindI [OF ensures_at_conj [OF Snapshot_spec
      loadless_parts.of_calm [OF Snapshot_calm, unfolded traces_if_def, THEN spec]]], goal_cases)
  case (1 w s es w1)
  then have s: "es = snapshot_events fd s" "Validate s = None" "list_all loadless es" by auto
  have e: "traces (list_all loadless) (run_experiment n h x c sj)" for sj
    by (rule loadless_parts.experiments) (rule local_loadless [OF fault_recover_local])
  let ?rest = "bindE (load_module h x ko (module_params c fd s)) (\<lambda>_. run_experiment n h x c
      \<lparr>sj_Selector = sel, sj_identity = identity, sj_target = target, sj_snapshot = s\<rparr>)"
  have "ensures_at ?rest w1 (\<lambda>r es w'. \<forall>f p res. EFinitModule f p res \<in> set es \<longrightarrow> p = module_params c fd s)"
  proof (rule ensures_at_bindI [where R = "\<lambda>r es w'. \<forall>f p res. EFinitModule f p res \<in> set es \<longrightarrow> p = module_params c fd s"], goal_cases)
    case 1
    show ?case by (auto simp: load_module_def ensures_at_rules ensures_at_calls split: prod.split sum.split option.split)
  next
    case (2 u es2 w2)
    have "ensures_at (run_experiment n h x c sj) w2 (\<lambda>r es w'. list_all loadless es)" for sj
      using e [of sj] by (simp add: traces_if_def)
    then show ?case by (rule ensures_at_mono) (use 2 in \<open>auto simp: list_all_iff\<close>)
  qed auto
  then have "ensures_at ?rest w1 (\<lambda>r es2 w'. sn_Wait s \<noteq> 0 \<longrightarrow> loads_for c (given_fd fd) (snapshot_events fd s @ es2))"
  proof (rule ensures_at_mono, unfold loads_for_def, intro allI impI, goal_cases)
    case (1 r es2 w' f p res)
    then have "EFinitModule f p res \<in> set es2" using s by (auto simp: list_all_iff)
    with 1 s(2) show ?case by (intro exI [of _ "[]"] exI [of _ fd] exI [of _ s] exI [of _ es2]) auto
  qed
  then show ?case using s loadless_loads [OF s(3)] by (auto elim!: ensures_at_mono)
qed (auto intro: loadless_loads)

lemma attach_loads: "traces (loads_for c (slot_fd (f_VhostFD c))) (attach_and_inject n h eb x c sel identity ko)"
proof -
  note idle = local_calls.of_idle [THEN local_loadless, THEN loadless_traces] and calm = loadless_parts.of_calm [THEN loadless_traces]
  let ?pinned = "\<lambda>target fd. deferE
         (bindE (OpenBPF eb (f_BPFObject c) False) (\<lambda>b.
          deferE (inject n h x c sel identity ko target fd) (BPF_Close eb b))) (Close h fd)"
  have p: "traces (loads_for c (given_fd fd)) (?pinned target fd)" for target fd
    by (intro given_loads.intros idle [OF OpenBPF_idle] idle [OF BPF_Close_idle] inject_loads traces_calls) (simp add: loads_for_def)
  have d: "traces (loads_for c (slot_fd (f_VhostFD c))) (bindE (Duplicate h target (f_VhostFD c)) (?pinned target))" for target
    unfolding traces_if_def Duplicate_def
  proof (intro allI, rule ensures_at_bindI [where R = "\<lambda>r es w'. list_all loadless es \<and>
        (\<forall>fd. r = Ok fd \<longrightarrow> slot_fd (f_VhostFD c) fd es)"], goal_cases)
    case (1 w)
    show ?case by (auto simp: ensures_at_calls slot_fd_def split: prod.split sum.split)
  next
    case (2 w fd es w1)
    have "ensures_at (?pinned target fd) w1 (\<lambda>r es w'. loads_for c (given_fd fd) es)" using p by (simp add: traces_if_def)
    moreover have "loads_for c (slot_fd (f_VhostFD c)) (es @ es2)" if "loads_for c (given_fd fd) es2" for es2
      by (rule loads_for_before [OF that]) (use 2 in \<open>auto simp: list_all_iff slot_fd_def\<close>)
    ultimately show ?case by (auto elim!: ensures_at_mono)
  qed (auto intro: loadless_loads)
  have z: "traces (loads_for c (slot_fd (f_VhostFD c))) (Close h fd)" for fd by (intro traces_calls) (simp add: loads_for_def)
  show ?thesis unfolding attach_and_inject_def Target_Close_def
    by (rule slot_loads.bind [OF calm [OF OpenTarget_calm] slot_loads.deferred [OF slot_loads.bind [OF calm [OF Check_calm] d] z]])
qed

lemma fault_Run_loads: "traces (loads_for c (slot_fd (f_VhostFD c))) (fault_Run n h eb x c)"
proof -
  have b: "traces (list_all loadless) (build h x c)" unfolding build_def copy_source_def kernel_dir_def or_clean_def
    by (intro every_call.intros traces_calls) auto
  have "traces (loads_for c (slot_fd (f_VhostFD c))) (control n h eb x c)" unfolding control_def cleanup_def
    by (intro slot_loads.intros loadless_traces [OF loadless_parts.unload] loadless_traces [OF loadless_parts.log]
        loadless_traces [OF b] loadless_traces [OF loadless_parts.of_calm [OF Resolve_calm]] attach_loads traces_calls)
       (simp_all add: loads_for_def)
  then show ?thesis unfolding fault_Run_def by (intro slot_loads.intros traces_calls) (simp_all add: loads_for_def)
qed

text \<open>
  C21. The module is told exactly what was asked for, within bounds: whenever it is loaded, the slot of the configuration was
  duplicated and a valid snapshot of that duplicate, with a waiter, was taken before; and the parameters name that duplicate, the
  waiter of that snapshot, and the configured delay, window and number of drops, in whole milliseconds of at most a minute
  each and at most a million drops.
\<close>

theorem module_gets_the_configured_fault:
  assumes "fault_Run n h eb x c w = (r, es, w')" and "EFinitModule f p res \<in> set es"
  shows "\<exists>pre fd s post pidfd delay_ms window_ms.
    es = pre @ snapshot_events fd s @ post \<and> EFinitModule f p res \<in> set post \<and>
    EPidfdGetfd pidfd (f_VhostFD c) (Inr fd) \<in> set pre \<and> Validate s = None \<and> sn_Wait s \<noteq> 0 \<and>
    p = ''target_fd='' @ Itoa fd @ '' target_wait='' @ Itoa (uint (sn_Wait s)) @ '' delay_ms='' @ Itoa delay_ms @
        '' window_ms='' @ Itoa window_ms @ '' max_drops='' @ Itoa (int (f_Drops c)) \<and>
    f_Delay c = delay_ms * 1000000 \<and> f_Window c = window_ms * 1000000 \<and> 0 \<le> delay_ms \<and> delay_ms \<le> 60000 \<and>
    1 \<le> window_ms \<and> window_ms \<le> 60000 \<and> 1 \<le> f_Drops c \<and> f_Drops c \<le> 1000000"
proof -
  have "\<not> f_Cleanup c"
  proof
    assume "f_Cleanup c"
    from traces_ifD [OF cleanup_calls [OF this] assms(1)] have "list_all cleanup_call es" by simp
    then have "cleanup_call (EFinitModule f p res)" using assms(2) unfolding list_all_iff by (rule bspec)
    then show False by simp
  qed
  moreover have "validate c = None" using assms by (cases "validate c") (auto simp: fault_Run_def checkE_def failE_def)
  ultimately obtain d k where b: "f_Delay c = d * time_Millisecond" "f_Window c = k * time_Millisecond" "0 \<le> d" "d \<le> 60000" "1 \<le> k"
      "k \<le> 60000" "1 \<le> f_Drops c" "f_Drops c \<le> 1000000" using validate_accepts [of c] by auto
  have "loads_for c (slot_fd (f_VhostFD c)) es" using traces_ifD [OF fault_Run_loads assms(1)] by simp
  then obtain pre fd s post where es: "es = pre @ snapshot_events fd s @ post" "EFinitModule f p res \<in> set post"
      "slot_fd (f_VhostFD c) fd pre" "Validate s = None" "sn_Wait s \<noteq> 0" and p: "p = module_params c fd s"
    using assms(2) unfolding loads_for_def by blast
  obtain pidfd where g: "EPidfdGetfd pidfd (f_VhostFD c) (Inr fd) \<in> set pre" using es(3) unfolding slot_fd_def by blast
  have ms: "f_Delay c div time_Millisecond = d" "f_Window c div time_Millisecond = k" using b(1,2) by simp_all
  show ?thesis
    by (intro exI conjI) (rule es(1), rule es(2), rule g, rule es(4), rule es(5), rule p [unfolded module_params_def ms], (rule b)+)
qed

section \<open>No panic\<close>

text \<open>The statistics as the controller reads them: two 64-bit counters and a flag.\<close>

definition stats_typed :: "fields \<Rightarrow> bool" where
  "stats_typed row \<longleftrightarrow> (\<exists>m d b. map_of row ''matched'' = Some (JUint64 m) \<and> map_of row ''dropped'' = Some (JUint64 d) \<and>
     map_of row ''active'' = Some (JBool b))"

definition param_typed :: "string \<Rightarrow> jval \<Rightarrow> bool" where
  "param_typed name y \<longleftrightarrow> (if name = ''active'' then \<exists>b. y = JBool b else \<exists>n. y = JUint64 n)"

lemma module_param_spec:
  "ensures_at (module_param h name row) w (\<lambda>r es w'. (\<forall>e. r \<noteq> Panic e) \<and> r \<noteq> Running \<and> (\<forall>row'. r = Ok row' \<longrightarrow>
     (\<exists>y. map_of row' = (map_of row)(name \<mapsto> y) \<and> param_typed name y)))"
proof -
  have a: "param_typed ''active'' (JBool v)" for v by (simp add: param_typed_def)
  have p: "param_typed name (JUint64 k)" if "name \<noteq> ''active''" for k using that by (simp add: param_typed_def)
  obtain r w1 where d: "h_ReadFile h (''/sys/module/vhost_fault/parameters/'' @ name) w = (r, w1)" by fastforce
  show ?thesis using a p unfolding module_param_def ensures_at_bind ensures_at_callE d
    by (auto simp: Let_def update_conv' split: sum.split)
qed

lemma moduleStats_typed:
  "ensures_at (moduleStats h) w (\<lambda>r es w'. (\<forall>e. r \<noteq> Panic e) \<and> r \<noteq> Running \<and> (\<forall>row. r = Ok row \<longrightarrow> stats_typed row))"
  unfolding moduleStats_def foldE.simps
proof (rule ensures_at_bindI [OF module_param_spec], goal_cases)
  case (1 row es w)
  show ?case
  proof (rule ensures_at_bindI [OF module_param_spec], goal_cases)
    case 2: (1 row2 es2 w2)
    show ?case
      by (rule ensures_at_bindI [OF module_param_spec]) (use 1 2 in \<open>auto simp: stats_typed_def param_typed_def\<close>)
  qed auto
qed auto

lemma lab_no_panic: "no_panic (fault_log h x ev row)" "no_panic (unload_tries k x)" "no_panic (build h x c)"
  "no_panic (Check h sel t)" "no_panic (Resolve h sel)"
proof -
  show "no_panic (unload_tries k x)" by (induction k) (auto intro!: no_panic_intros)
qed (unfold fault_log_def build_def copy_source_def kernel_dir_def or_clean_def Check_def process_def Resolve_def resolve_pid_def
   resolve_entry_def resolve_domain_def readDomain_def, (intro no_panic_intros)+)

lemma fault_recover_no_panic: "no_panic (fault_recover h c sel identity t s)"
  unfolding fault_recover_def by (intro no_panic_intros part_no_panic Rekick_no_panic lab_no_panic)

lemma disarm_safe: "safe (\<lambda>_. True) (disarm h x sj)"
proof -
  let ?rest = "\<lambda>stats. bindE (liftE (unload x)) (\<lambda>_.
    bindE (modE (\<lambda>v. v\<lparr>fv_loaded := False\<rparr>)) (\<lambda>_.
    bindE (liftE (fault_log h x ''disarmed'' (AList.update ''active'' (JBool False) stats))) (\<lambda>_.
    bindE
      (case map_of stats ''dropped'' of
         Some (JUint64 n) \<Rightarrow>
           if n = 0 then failE (ErrorString ''no matching wakeup was dropped; injection did not occur'') else retE ()
       | _ \<Rightarrow> panicE (ErrorString ''interface conversion''))
      (\<lambda>_.
       bindE (liftE (Ring h (sj_target sj) (sj_snapshot sj))) (\<lambda>(_, used).
       modE (\<lambda>v. v\<lparr>fv_baselineUsed := used, fv_haveBaseline := True\<rparr>))))))"
  have rest: "safe (\<lambda>_. True) (?rest stats)" if st: "stats_typed stats" for stats
  proof -
    obtain d where d: "map_of stats ''dropped'' = Some (JUint64 d)" using st unfolding stats_typed_def by blast
    show ?thesis unfolding d option.case jval.case unload_def
      by (intro safe_intros safe_mod lab_no_panic part_no_panic TrueI)
  qed
  show ?thesis unfolding safe_def disarm_def
  proof (intro allI impI, goal_cases)
    case (1 v w)
    have "ensures_at (liftE (moduleStats h)) (v, w) (\<lambda>r es sw. (\<forall>e. r \<noteq> Panic e) \<and> r \<noteq> Running \<and> (\<forall>row. r = Ok row \<longrightarrow> stats_typed row))"
      unfolding ensures_at_lift by (rule moduleStats_typed)
    then show ?case
    proof (rule ensures_at_bindI, goal_cases)
      case (1 stats es sw)
      then have "stats_typed stats" by simp
      from safeD [OF rest [OF this], of "fst sw" "snd sw"] show ?case by simp
    qed auto
  qed
qed

lemma fault_Run_no_panic: "no_panic (fault_Run n h eb x c)"
proof -
  have t: "safe (\<lambda>_. True) (fault_tick h x c sj we)" for sj we
    unfolding fault_tick_def observe_progress_def
    by (intro safe_intros safe_mod disarm_safe lab_no_panic part_no_panic no_panic_calls TrueI)
  have "safe (\<lambda>_. True) (fault_loop k h x c sj we)" for k sj we
    by (induction k) (use t in \<open>auto intro!: safe_intros\<close>)
  then have e: "no_panic (run_experiment n h x c sj)" for sj unfolding run_experiment_def finish_def unload_def
    by (intro safe_local [where I = "\<lambda>_. True"] no_panic_deferR safe_intros fault_recover_no_panic lab_no_panic part_no_panic
        no_panic_calls TrueI)
  have "no_panic (control n h eb x c)" if "validate c = None"
  proof -
    have s: "f_Cleanup c \<or> (\<exists>s. f_Selector c = Some s)" using that by (auto simp: validate_def split: if_splits)
    have one: "no_panic (case xs of [] \<Rightarrow> m | y # ys \<Rightarrow> f y ys)" if "\<not> length xs \<noteq> 1" "\<And>y ys. no_panic (f y ys)" for xs m f
      using that by (cases xs) auto
    show ?thesis using s unfolding control_def cleanup_def attach_and_inject_def inject_def load_module_def unload_def Target_Close_def
      by (intro no_panic_intros one e lab_no_panic part_no_panic) auto
  qed
  then show ?thesis unfolding fault_Run_def checkE_def
    by (cases "validate c") (auto intro!: no_panic_intros)
qed


section \<open>On the machine\<close>

theorem fault_leaves_nothing_behind_witness:
  "\<exists>es. fault_Run 1 lab_host qemu_ebpf lab_tools lab_config () = (Ok (), es, ()) \<and> fds es {#7#} = Some {#7#} \<and>
     attached es {#} = Some {#} \<and> tempdirs es {#} = Some {#}"
proof -
  obtain es where r: "fault_Run 1 lab_host qemu_ebpf lab_tools lab_config () = (Ok (), es, ())" using lab_run by blast
  show ?thesis using r fault_leaves_nothing_behind [OF r, of "{#7#}"] by auto
qed

theorem fault_writes_only_verified_kicks_witness:
  "\<exists>es es'. fault_Run 1 lab_host qemu_ebpf lab_tools lab_config () = (Ok (), es, ()) \<and> only_verified_kicks es \<and>
     fault_Run 1 lab_host qemu_ebpf lab_tools (lab_config\<lparr>f_Cleanup := True\<rparr>) () = (Ok (), es', ()) \<and> list_all cleanup_call es'"
proof -
  obtain es where r: "fault_Run 1 lab_host qemu_ebpf lab_tools lab_config () = (Ok (), es, ())" using lab_run by blast
  obtain es' where c: "fault_Run 1 lab_host qemu_ebpf lab_tools (lab_config\<lparr>f_Cleanup := True\<rparr>) () = (Ok (), es', ())"
    using lab_log [of "''cleaned''" "[(''recovery_written'', JBool False)]" "()"]
    by (auto simp: fault_Run_def validate_def control_def cleanup_def unload_def eval_nat_numeral io_execs)
  show ?thesis using r c fault_writes_only_verified_kicks [OF r] fault_writes_only_verified_kicks [OF c] by auto
qed

theorem module_gets_the_configured_fault_witness:
  "\<exists>es pre fd s post f p. fault_Run 1 lab_host qemu_ebpf lab_tools lab_config () = (Ok (), es, ()) \<and>
     es = pre @ snapshot_events fd s @ post \<and> EFinitModule f p None \<in> set post \<and>
     p = ''target_fd='' @ Itoa fd @ '' target_wait='' @ Itoa (uint (sn_Wait s)) @ '' delay_ms='' @ Itoa 1000 @
         '' window_ms='' @ Itoa 500 @ '' max_drops='' @ Itoa 1"
proof -
  obtain es f where r: "fault_Run 1 lab_host qemu_ebpf lab_tools lab_config () = (Ok (), es, ())"
    and l: "EFinitModule f (module_params lab_config 9 lab_snapshot) None \<in> set es" using lab_run by blast
  obtain pre fd s post delay_ms window_ms where "es = pre @ snapshot_events fd s @ post"
    and i: "EFinitModule f (module_params lab_config 9 lab_snapshot) None \<in> set post"
    and p: "module_params lab_config 9 lab_snapshot = ''target_fd='' @ Itoa fd @ '' target_wait='' @ Itoa (uint (sn_Wait s)) @
       '' delay_ms='' @ Itoa delay_ms @ '' window_ms='' @ Itoa window_ms @ '' max_drops='' @ Itoa (int (f_Drops lab_config))"
    and d: "f_Delay lab_config = delay_ms * 1000000" "f_Window lab_config = window_ms * 1000000"
    using module_gets_the_configured_fault [OF r l] by (elim exE conjE)
  have n: "delay_ms = 1000" "window_ms = 500" "int (f_Drops lab_config) = 1" using d by (simp_all add: lab_config_def)
  show ?thesis by (intro exI conjI) (rule r, fact, rule i, rule p [unfolded n])
qed

end
