(* ===== verification/Commands.thy ===== *)
theory Commands
  imports Rescue Fault_Safety
begin

text \<open>
  The two programs, \<^verbatim>\<open>cmd/vhost-watch/main_linux.go\<close> and \<^verbatim>\<open>cmd/vhost-fault/main_linux.go\<close>: from the
  arguments to the exit status.  The parsing loop of the package \<^verbatim>\<open>flag\<close> is \<open>parse_flags\<close>; what reads numbers,
  durations and regular expressions (\<^verbatim>\<open>strconv\<close>, \<^verbatim>\<open>time\<close>, \<^verbatim>\<open>regexp\<close>) is the record \<open>readers\<close>, of which
  nothing is assumed.  What is printed on the standard error is left out.
\<close>

section \<open>Flags\<close>

record readers =
  p_ParseInt :: "string \<Rightarrow> error + int"
  p_ParseUint :: "string \<Rightarrow> error + nat"
  p_ParseFloat :: "string \<Rightarrow> error + f64"
  p_ParseDuration :: "string \<Rightarrow> error + int"
  p_Compile :: "string \<Rightarrow> error + (string \<Rightarrow> bool)"

definition ParseBool :: "string \<Rightarrow> error + bool" where
  "ParseBool s =
    (if s \<in> {''1'', ''t'', ''T'', ''TRUE'', ''true'', ''True''} then Inr True
     else if s \<in> {''0'', ''f'', ''F'', ''FALSE'', ''false'', ''False''} then Inr False
     else Inl (ErrorString ''parse error''))"

text \<open>A defined flag: its name, whether it is boolean, and how its value is set.\<close>

type_synonym 'c flag = "string \<times> bool \<times> (string \<Rightarrow> 'c \<Rightarrow> error + 'c)"

definition setting :: "(string \<Rightarrow> error + 'a) \<Rightarrow> ('a \<Rightarrow> 'c \<Rightarrow> 'c) \<Rightarrow> string \<Rightarrow> 'c \<Rightarrow> error + 'c" where
  "setting parse upd s c = (case parse s of Inl e \<Rightarrow> Inl e | Inr x \<Rightarrow> Inr (upd x c))"

abbreviation value_flag :: "string \<Rightarrow> (string \<Rightarrow> error + 'a) \<Rightarrow> ('a \<Rightarrow> 'c \<Rightarrow> 'c) \<Rightarrow> 'c flag" where
  "value_flag name parse upd \<equiv> (name, False, setting parse upd)"

abbreviation bool_flag :: "string \<Rightarrow> (bool \<Rightarrow> 'c \<Rightarrow> 'c) \<Rightarrow> 'c flag" where
  "bool_flag name upd \<equiv> (name, True, setting ParseBool upd)"

text \<open>
  The name, the value and whether there is one, of an argument with one or two dashes.
\<close>

definition flag_parts :: "string \<Rightarrow> string \<times> string \<times> bool" where
  "flag_parts s = Cut (if s ! 1 = CHR ''-'' then drop 2 s else drop 1 s) (CHR ''='')"

text \<open>
  \<^verbatim>\<open>parseOne\<close>: a flag was set and the arguments remain, or there is no further flag, or the program exits with a
  status (0 for the help, 2 for an error).
\<close>

datatype 'c one = Seen 'c "string list" | Stop "string list" | Exit nat

fun parseOne :: "'c flag list \<Rightarrow> string list \<Rightarrow> 'c \<Rightarrow> 'c one" where
  "parseOne fs [] c = Stop []"
| "parseOne fs (s # args) c =
    (if length s < 2 \<or> hd s \<noteq> CHR ''-'' then Stop (s # args)
     else if s = ''--'' then Stop args
     else if hd (if s ! 1 = CHR ''-'' then drop 2 s else drop 1 s) \<in> {CHR ''-'', CHR ''=''} then Exit 2
     else (case flag_parts s of (name, val, hasValue) \<Rightarrow>
         (case map_of fs name of
            None \<Rightarrow> Exit (if name = ''help'' \<or> name = ''h'' then 0 else 2)
          | Some (isBool, set_flag) \<Rightarrow>
              if isBool \<or> hasValue
              then (case set_flag (if hasValue then val else ''true'') c of Inl e \<Rightarrow> Exit 2 | Inr c' \<Rightarrow> Seen c' args)
              else (case args of
                  [] \<Rightarrow> Exit 2
                | val # args' \<Rightarrow> (case set_flag val c of Inl e \<Rightarrow> Exit 2 | Inr c' \<Rightarrow> Seen c' args')))))"

lemma parseOne_shorter: "parseOne fs args c = Seen c' rest \<Longrightarrow> length rest < length args"
  by (cases args) (auto split: if_splits prod.splits option.splits sum.splits list.splits)

text \<open>What \<^verbatim>\<open>flag.Parse\<close> comes to: the values and the remaining arguments, or an exit.\<close>

datatype 'c parsed = Parsed 'c "string list" | Usage nat

function parse_flags :: "'c flag list \<Rightarrow> string list \<Rightarrow> 'c \<Rightarrow> 'c parsed" where
  "parse_flags fs args c =
    (case parseOne fs args c of
       Seen c' rest \<Rightarrow> parse_flags fs rest c'
     | Stop rest \<Rightarrow> Parsed c rest
     | Exit k \<Rightarrow> Usage k)"
  by pat_completeness auto

termination parse_flags
  by (relation "measure (\<lambda>(fs, args, c). length args)") (auto dest: parseOne_shorter)

declare parse_flags.simps [simp del]

section \<open>vhost-watch\<close>

record 'w watch_vars =
  wv_pids :: PIDList
  wv_pattern :: string
  wv_libvirtDir :: string
  wv_refresh :: int
  wv_once :: bool
  wv_list :: bool
  wv_listQueues :: bool
  wv_c :: "'w Config"

definition watch_defaults :: "'w watch_vars" where
  "watch_defaults =
    \<lparr>wv_pids = [], wv_pattern = '''', wv_libvirtDir = ''/run/libvirt/qemu'', wv_refresh = 5 * 1000000000, wv_once = False,
     wv_list = False, wv_listQueues = False,
     wv_c = \<lparr>c_PID = 0, c_Mode = ''observe'', c_StateDir = ''/state'', c_BPFObject = ''/watch.bpf.o'', c_Interval = Fin (1 / 4),
       c_Threshold = Fin 3, c_Cooldown = Fin 30, c_KickInterval = Fin 1, c_VerifyTimeout = Fin 5, c_SummaryInterval = Fin 5,
       c_Duration = Fin 0, c_MaxRecoveries = 3, c_Rescue = False, c_VhostFD = -1, c_InventoryInterval = Fin 1,
       c_TraceStages = False, c_BatchRings = False, c_Domain = '''', c_CheckIdentity = None\<rparr>\<rparr>"

abbreviation (input) on_c :: "('w Config \<Rightarrow> 'w Config) \<Rightarrow> 'w watch_vars \<Rightarrow> 'w watch_vars" where
  "on_c f v \<equiv> v\<lparr>wv_c := f (wv_c v)\<rparr>"

definition watch_flags :: "readers \<Rightarrow> 'w watch_vars flag list" where
  "watch_flags p =
    [(''pid'', False, \<lambda>s v. case PIDList_Set (wv_pids v) s of Inl e \<Rightarrow> Inl e | Inr l \<Rightarrow> Inr (v\<lparr>wv_pids := l\<rparr>)),
     value_flag ''domain-regex'' Inr (\<lambda>x v. v\<lparr>wv_pattern := x\<rparr>),
     value_flag ''libvirt-state-dir'' Inr (\<lambda>x v. v\<lparr>wv_libvirtDir := x\<rparr>),
     value_flag ''target-interval'' (p_ParseDuration p) (\<lambda>x v. v\<lparr>wv_refresh := x\<rparr>),
     bool_flag ''once'' (\<lambda>x v. v\<lparr>wv_once := x\<rparr>),
     bool_flag ''list'' (\<lambda>x v. v\<lparr>wv_list := x\<rparr>),
     bool_flag ''list-queues'' (\<lambda>x v. v\<lparr>wv_listQueues := x\<rparr>),
     value_flag ''mode'' Inr (\<lambda>x. on_c (c_Mode_update (\<lambda>_. x))),
     value_flag ''state-dir'' Inr (\<lambda>x. on_c (c_StateDir_update (\<lambda>_. x))),
     value_flag ''bpf-object'' Inr (\<lambda>x. on_c (c_BPFObject_update (\<lambda>_. x))),
     value_flag ''interval'' (p_ParseFloat p) (\<lambda>x. on_c (c_Interval_update (\<lambda>_. x))),
     value_flag ''inventory-interval'' (p_ParseFloat p) (\<lambda>x. on_c (c_InventoryInterval_update (\<lambda>_. x))),
     bool_flag ''trace-stages'' (\<lambda>x. on_c (c_TraceStages_update (\<lambda>_. x))),
     bool_flag ''batch-rings'' (\<lambda>x. on_c (c_BatchRings_update (\<lambda>_. x))),
     value_flag ''threshold'' (p_ParseFloat p) (\<lambda>x. on_c (c_Threshold_update (\<lambda>_. x))),
     value_flag ''cooldown'' (p_ParseFloat p) (\<lambda>x. on_c (c_Cooldown_update (\<lambda>_. x))),
     value_flag ''max-recoveries'' (p_ParseInt p) (\<lambda>x. on_c (c_MaxRecoveries_update (\<lambda>_. x))),
     value_flag ''kick-interval'' (p_ParseFloat p) (\<lambda>x. on_c (c_KickInterval_update (\<lambda>_. x))),
     value_flag ''verify-timeout'' (p_ParseFloat p) (\<lambda>x. on_c (c_VerifyTimeout_update (\<lambda>_. x))),
     value_flag ''summary-interval'' (p_ParseFloat p) (\<lambda>x. on_c (c_SummaryInterval_update (\<lambda>_. x))),
     value_flag ''duration'' (p_ParseFloat p) (\<lambda>x. on_c (c_Duration_update (\<lambda>_. x))),
     bool_flag ''rescue'' (\<lambda>x. on_c (c_Rescue_update (\<lambda>_. x))),
     value_flag ''vhost-fd'' (p_ParseInt p) (\<lambda>x. on_c (c_VhostFD_update (\<lambda>_. x)))]"

definition exit_status :: "(event, 'w, unit) io \<Rightarrow> (event, 'w, nat) io" where
  "exit_status m = bindE (attempt m) (\<lambda>r. retE (case r of Inl e \<Rightarrow> 1 | Inr _ \<Rightarrow> 0))"

definition manager_config :: "Selector \<Rightarrow> 'w watch_vars \<Rightarrow> 'w ManagerConfig" where
  "manager_config selector v =
    \<lparr>m_Agent = (wv_c v)\<lparr>c_Rescue := c_Rescue (wv_c v) \<or> wv_once v\<rparr>, m_Selector = Some selector, m_Refresh = wv_refresh v,
     m_List = wv_list v, m_ListQueues = wv_listQueues v\<rparr>"

text \<open>The context that a signal cancels is number 0.\<close>

definition watch_main ::
  "nat \<Rightarrow> 'w host \<Rightarrow> 'w ebpf \<Rightarrow> 'w scheduler \<Rightarrow> readers \<Rightarrow> string list \<Rightarrow> (event, 'w, nat) io" where
  "watch_main n h eb g p args =
    (case parse_flags (watch_flags p) args watch_defaults of
       Usage status \<Rightarrow> retE status
     | Parsed v rest \<Rightarrow>
         if length rest \<noteq> 0 then retE 2
         else (case New (p_Compile p) (wv_pids v) (wv_pattern v) ''/proc'' (wv_libvirtDir v) of
             Inl e \<Rightarrow> retE 2
           | Inr selector \<Rightarrow> exit_status (RunSelected n h eb g 0 (manager_config selector v))))"

section \<open>vhost-fault\<close>

record fault_vars =
  xv_pids :: PIDList
  xv_pattern :: string
  xv_libvirtDir :: string
  xv_c :: fault_Config

definition fault_defaults :: fault_vars where
  "fault_defaults =
    \<lparr>xv_pids = [], xv_pattern = '''', xv_libvirtDir = ''/run/libvirt/qemu'',
     xv_c = \<lparr>f_Selector = None, f_VhostFD = -1, f_Delay = 1000 * time_Millisecond, f_Window = 500 * time_Millisecond,
       f_RecoverAfter = 30000 * time_Millisecond, f_Drops = 1, f_BPFObject = ''/watch.bpf.o'', f_SourceDir = ''/fault-source'',
       f_StateDir = ''/state'', f_KernelBuildDir = '''', f_Compiler = ''gcc-12'', f_Cleanup = False\<rparr>\<rparr>"

abbreviation (input) on_xc :: "(fault_Config \<Rightarrow> fault_Config) \<Rightarrow> fault_vars \<Rightarrow> fault_vars" where
  "on_xc f v \<equiv> v\<lparr>xv_c := f (xv_c v)\<rparr>"

definition fault_flags :: "readers \<Rightarrow> fault_vars flag list" where
  "fault_flags p =
    [(''pid'', False, \<lambda>s v. case PIDList_Set (xv_pids v) s of Inl e \<Rightarrow> Inl e | Inr l \<Rightarrow> Inr (v\<lparr>xv_pids := l\<rparr>)),
     value_flag ''domain-regex'' Inr (\<lambda>x v. v\<lparr>xv_pattern := x\<rparr>),
     value_flag ''libvirt-state-dir'' Inr (\<lambda>x v. v\<lparr>xv_libvirtDir := x\<rparr>),
     value_flag ''vhost-fd'' (p_ParseInt p) (\<lambda>x. on_xc (f_VhostFD_update (\<lambda>_. x))),
     value_flag ''delay'' (p_ParseDuration p) (\<lambda>x. on_xc (f_Delay_update (\<lambda>_. x))),
     value_flag ''window'' (p_ParseDuration p) (\<lambda>x. on_xc (f_Window_update (\<lambda>_. x))),
     value_flag ''drops'' (p_ParseUint p) (\<lambda>x. on_xc (f_Drops_update (\<lambda>_. x))),
     value_flag ''recover-after'' (p_ParseDuration p) (\<lambda>x. on_xc (f_RecoverAfter_update (\<lambda>_. x))),
     value_flag ''bpf-object'' Inr (\<lambda>x. on_xc (f_BPFObject_update (\<lambda>_. x))),
     value_flag ''source-dir'' Inr (\<lambda>x. on_xc (f_SourceDir_update (\<lambda>_. x))),
     value_flag ''kernel-build-dir'' Inr (\<lambda>x. on_xc (f_KernelBuildDir_update (\<lambda>_. x))),
     value_flag ''cc'' Inr (\<lambda>x. on_xc (f_Compiler_update (\<lambda>_. x))),
     value_flag ''state-dir'' Inr (\<lambda>x. on_xc (f_StateDir_update (\<lambda>_. x))),
     bool_flag ''cleanup'' (\<lambda>x. on_xc (f_Cleanup_update (\<lambda>_. x)))]"

definition fault_main ::
  "nat \<Rightarrow> 'w host \<Rightarrow> 'w ebpf \<Rightarrow> 'w lab \<Rightarrow> readers \<Rightarrow> string list \<Rightarrow> (event, 'w, nat) io" where
  "fault_main n h eb x p args =
    (case parse_flags (fault_flags p) args fault_defaults of
       Usage status \<Rightarrow> retE status
     | Parsed v rest \<Rightarrow>
         if length rest \<noteq> 0 then retE 2
         else if f_Cleanup (xv_c v) then exit_status (fault_Run n h eb x (xv_c v))
         else (case New (p_Compile p) (xv_pids v) (xv_pattern v) ''/proc'' (xv_libvirtDir v) of
             Inl e \<Rightarrow> retE 2
           | Inr selector \<Rightarrow> exit_status (fault_Run n h eb x ((xv_c v)\<lparr>f_Selector := Some selector\<rparr>))))"

end
