(* ===== verification/Exit_Status.thy ===== *)
theory Exit_Status
  imports Commands
begin

text \<open>
  What the command lines and the exit statuses of the two programs promise: writing has to be asked for, a refused command
  line calls nothing, a one-shot recovery that exits with 0 has recovered everything it was told to, and an experiment
  that exits with 0 has left the queue settled and nothing behind.
\<close>

section \<open>Exit status\<close>

lemma exit_statusD: "exit_status m w = (Ok k, es, w') \<Longrightarrow> k \<le> 1 \<and> (k = 0 \<longrightarrow> m w = (Ok (), es, w'))"
  by (auto simp: exit_status_def bindE_def attempt_def retE_def split: prod.splits outcome.splits sum.splits)

text \<open>A refused command line: a bad flag, an argument that is not a flag, or no selection.\<close>

definition watch_refused :: "readers \<Rightarrow> 'w watch_vars parsed \<Rightarrow> bool" where
  "watch_refused p parsed \<longleftrightarrow>
    (case parsed of
       Usage status \<Rightarrow> status = 2
     | Parsed v rest \<Rightarrow> rest \<noteq> [] \<or> (\<exists>e. New (p_Compile p) (wv_pids v) (wv_pattern v) ''/proc'' (wv_libvirtDir v) = Inl e))"

lemma parseOne_status: "parseOne fs args c = Exit k \<Longrightarrow> k = 0 \<or> k = 2"
  by (cases args) (auto split: if_splits prod.splits option.splits sum.splits list.splits)

lemma usage_status: "parse_flags fs args c = Usage k \<Longrightarrow> k = 0 \<or> k = 2"
proof (induction fs args c rule: parse_flags.induct)
  case (1 fs args c)
  then show ?case using parseOne_status [of fs args c k]
    by (cases "parseOne fs args c") (auto simp: parse_flags.simps [of fs args c])
qed

text \<open>A flag that is not named leaves what it would set.\<close>

definition names_flag :: "string set \<Rightarrow> string \<Rightarrow> bool" where
  "names_flag N s \<longleftrightarrow> hd s = CHR ''-'' \<and> fst (flag_parts s) \<in> N"

definition keeps :: "('c \<Rightarrow> bool) \<Rightarrow> (string \<Rightarrow> 'c \<Rightarrow> error + 'c) \<Rightarrow> bool" where
  "keeps I f \<longleftrightarrow> (\<forall>x c c'. f x c = Inr c' \<longrightarrow> I c \<longrightarrow> I c')"

definition keeping :: "('c \<Rightarrow> bool) \<Rightarrow> string set \<Rightarrow> 'c flag list \<Rightarrow> bool" where
  "keeping I N fs \<longleftrightarrow> list_all (\<lambda>(name, b, f). name \<in> N \<or> keeps I f) fs"

lemma keeping_Nil: "keeping I N []"
  by (simp add: keeping_def)

lemma keeping_Cons: "keeps I f \<Longrightarrow> keeping I N fs \<Longrightarrow> keeping I N ((name, b, f) # fs)"
  by (simp add: keeping_def)

lemma keeping_setting:
  "name \<in> N \<or> (\<forall>x c. I c \<longrightarrow> I (upd x c)) \<Longrightarrow> keeping I N fs \<Longrightarrow> keeping I N ((name, b, setting parse upd) # fs)"
  by (auto simp: keeping_def keeps_def setting_def split: sum.splits)

lemma parseOne_frame:
  assumes "parseOne fs args c = Seen c' rest" and "\<not> list_ex (names_flag N) args" and "I c" and "keeping I N fs"
  shows "I c' \<and> \<not> list_ex (names_flag N) rest"
proof (cases args)
  case (Cons s args')
  with assms(2) have n: "hd s = CHR ''-'' \<longrightarrow> fst (flag_parts s) \<notin> N" and r: "\<not> list_ex (names_flag N) args'"
    by (auto simp: names_flag_def)
  have f: "I c'" if "map_of fs name = Some (b, f)" "name \<notin> N" "f x c = Inr c'" "I c" for name b f x c c'
    using map_of_SomeD [OF that(1)] that(2-4) assms(4) by (fastforce simp: keeping_def list_all_iff keeps_def)
  show ?thesis using assms(1,3) n r f unfolding Cons
    by (auto split: if_splits prod.splits option.splits sum.splits list.splits)
qed (use assms in simp)

lemma parse_flags_frame:
  assumes "parse_flags fs args c = Parsed v rest" and "\<not> list_ex (names_flag N) args" and "I c" and "keeping I N fs"
  shows "I v"
  using assms
proof (induction fs args c rule: parse_flags.induct)
  case (1 fs args c)
  show ?case
  proof (cases "parseOne fs args c")
    case (Seen c' rest')
    have "I c' \<and> \<not> list_ex (names_flag N) rest'" by (rule parseOne_frame [where I = I, OF Seen 1(3,4,5)])
    then show ?thesis using 1(1) [OF Seen _ _ _ 1(5)] 1(2) Seen by (auto simp: parse_flags.simps [of fs args c])
  qed (use 1 in \<open>auto simp: parse_flags.simps [of fs args c]\<close>)
qed

definition observing :: "'w watch_vars \<Rightarrow> bool" where
  "observing v \<longleftrightarrow> c_Mode (wv_c v) = ''observe'' \<and> \<not> c_Rescue (wv_c v) \<and> \<not> wv_once v"

lemma watch_flags_keep: "keeping observing {''mode'', ''once'', ''rescue''} (watch_flags p)"
proof -
  have "keeps observing (\<lambda>s v. case PIDList_Set (wv_pids v) s of Inl e \<Rightarrow> Inl e | Inr l \<Rightarrow> Inr (v\<lparr>wv_pids := l\<rparr>))"
    by (auto simp: keeps_def observing_def split: sum.splits)
  then show ?thesis unfolding watch_flags_def
    by (rule keeping_Cons, intro keeping_setting keeping_Nil) (simp_all add: observing_def)
qed

text \<open>
  C14. Writing has to be asked for: a command line that names none of the flags \<^verbatim>\<open>mode\<close>, \<^verbatim>\<open>once\<close> and
  \<^verbatim>\<open>rescue\<close>, whatever else it says, leads to a command that never writes to a descriptor, and neither does a worker it
  starts.
\<close>

theorem writing_must_be_asked_for:
  assumes "\<not> list_ex (names_flag {''mode'', ''once'', ''rescue''}) args" and "watch_main n h eb g p args w = (r, es, w')"
  shows "EWrite fd d res \<notin> set es \<and>
    (\<forall>v rest selector sel t child b w1 r1 es1 w2. parse_flags (watch_flags p) args watch_defaults = Parsed v rest \<longrightarrow>
       worker_body n h eb (worker_config h (m_Agent (manager_config selector v)) sel t) child b w1 = (r1, es1, w2) \<longrightarrow>
       EWrite fd d res \<notin> set es1)"
proof -
  have o: "observing v" if "parse_flags (watch_flags p) args (watch_defaults :: 'a watch_vars) = Parsed v rest" for v rest
    using parse_flags_frame [OF that assms(1) _ watch_flags_keep] by (simp add: watch_defaults_def observing_def)
  have m: "list_all quiet es"
  proof (cases "parse_flags (watch_flags p) args (watch_defaults :: 'a watch_vars)")
    case (Parsed v rest)
    have "traces (list_all quiet) (RunSelected n h eb g 0 (manager_config selector v))" for selector
      using o [OF Parsed] by (intro RunSelected_quiet) (simp add: manager_config_def observing_def)
    then have "traces (list_all quiet) (watch_main n h eb g p args)"
      unfolding watch_main_def Parsed parsed.case exit_status_def by (intro every_call.intros)
    then show ?thesis using assms(2) by (auto dest: traces_ifD)
  qed (use assms(2) in \<open>simp add: watch_main_def retE_def\<close>)
  have "traces (list_all quiet) (worker_body n h eb (worker_config h (m_Agent (manager_config selector v)) sel t) child b)"
    if "parse_flags (watch_flags p) args (watch_defaults :: 'a watch_vars) = Parsed v rest" for v rest selector sel t child b
  proof -
    let ?c = "worker_config h (m_Agent (manager_config selector v)) sel t"
    have "traces (list_all quiet) (run n h eb ?c child (Some b))"
      using o [OF that] by (intro observe_quiet) (simp_all add: worker_config_def policy_def manager_config_def observing_def Check_idle)
    then show ?thesis unfolding worker_body_def RunWithBPF_def by (intro every_call.intros traces_calls) auto
  qed
  with m show ?thesis by (fastforce simp: list_all_iff dest: traces_ifD)
qed

text \<open>
  C11. The exit status says what happened: 2 exactly for a refused command line, and then nothing was called; 0 after a one-shot
  recovery only if the selection was resolved without a problem to at least one machine and every TX slot in
  scope of every selected machine was given its verified kick.
\<close>

theorem exit_status_tells_the_outcome:
  assumes "watch_main n h eb g p args w = (Ok status, es, w')"
  shows "status \<le> 2 \<and> (status = 2 \<longleftrightarrow> watch_refused p (parse_flags (watch_flags p) args (watch_defaults :: 'w watch_vars))) \<and>
    (status = 2 \<longrightarrow> es = [] \<and> w' = w) \<and>
    (\<forall>v. status = 0 \<longrightarrow> parse_flags (watch_flags p) args (watch_defaults :: 'w watch_vars) = Parsed v [] \<longrightarrow>
       wv_once v \<or> c_Rescue (wv_c v) \<longrightarrow>
       (\<exists>sel0. New (p_Compile p) (wv_pids v) (wv_pattern v) ''/proc'' (wv_libvirtDir v) = Inr sel0 \<and>
          machines_rescued h 0 sel0 (c_VhostFD (wv_c v)) (w :: 'w) es))"
proof (cases "parse_flags (watch_flags p) args (watch_defaults :: 'w watch_vars)")
  case (Parsed v rest)
  show ?thesis
  proof (cases "rest = [] \<and> (\<exists>sel. New (p_Compile p) (wv_pids v) (wv_pattern v) ''/proc'' (wv_libvirtDir v) = Inr sel)")
    case True
    then obtain sel where n: "New (p_Compile p) (wv_pids v) (wv_pattern v) ''/proc'' (wv_libvirtDir v) = Inr sel" by blast
    have "exit_status (RunSelected n h eb g 0 (manager_config sel v)) w = (Ok status, es, w')"
      using assms True n by (simp add: watch_main_def Parsed)
    note e = exit_statusD [OF this]
    have "machines_rescued h 0 sel (c_VhostFD (wv_c v)) w es" if "status = 0" "wv_once v \<or> c_Rescue (wv_c v)"
      using RunSelected_rescue_OkD [of n h eb g 0 "manager_config sel v" w es w'] e that by (auto simp: manager_config_def)
    then show ?thesis using e n True Parsed by (auto simp: watch_refused_def)
  next
    case False
    then show ?thesis using assms Parsed by (auto simp: watch_main_def watch_refused_def retE_def split: sum.splits)
  qed
next
  case (Usage k)
  then show ?thesis using assms usage_status [OF Usage] by (auto simp: watch_main_def watch_refused_def retE_def)
qed

section \<open>The exit status of an experiment\<close>

text \<open>The experiment on the slot \<open>vhostFD\<close>: the process was opened, the slot pinned, and what followed its snapshot settled it.\<close>

definition experiment_settled :: "int \<Rightarrow> event list \<Rightarrow> bool" where
  "experiment_settled vhostFD es \<longleftrightarrow>
    (\<exists>pre sj fd es' post. es = pre @ snapshot_events fd (sj_snapshot sj) @ es' @ post \<and>
       EPidfdOpen (t_PID (sj_target sj)) (Inr (t_pidfd (sj_target sj))) \<in> set pre \<and>
       EPidfdGetfd (t_pidfd (sj_target sj)) vhostFD (Inr fd) \<in> set pre \<and>
       Validate (sj_snapshot sj) = None \<and> settled vhostFD sj es')"

lemma attach_settled:
  assumes "attach_and_inject n h eb x c sel identity ko w = (Ok (), es, w')"
  shows "experiment_settled (f_VhostFD c) es"
proof -
  from assms obtain target fd b o1 ch d1 o2 inj z1 z2 z3 w1 w2 w3 w4 w5 where
      t: "OpenTarget h (st_PID identity) w = (Ok target, o1, w1)" and d: "Duplicate h target (f_VhostFD c) w2 = (Ok fd, d1, w3)"
    and i: "inject n h x c sel identity ko target fd w4 = (Ok (), inj, w5)"
    and es: "es = o1 @ (ch @ d1 @ (o2 @ inj @ z1) @ z2) @ z3"
    unfolding attach_and_inject_def by (elim bindE_OkE deferE_OkE) blast
  obtain opened where o: "o1 = EPidfdOpen (t_PID target) (Inr (t_pidfd target)) # opened" using OpenTarget_OkD [OF t] by auto
  have "d1 = [EPidfdGetfd (t_pidfd target) (f_VhostFD c) (Inr fd)]" using callE_OkE [OF d [unfolded Duplicate_def]] .
  moreover obtain s es' where "inj = snapshot_events fd s @ es'" "Validate s = None"
    and s: "settled (f_VhostFD c) \<lparr>sj_Selector = sel, sj_identity = identity, sj_target = target, sj_snapshot = s\<rparr> es'"
    using inject_spec [of n h x c sel identity ko target fd w4] i by (auto simp: ensures_at_def)
  ultimately have "es = (o1 @ ch @ d1 @ o2) @ snapshot_events fd s @ es' @ (z1 @ z2 @ z3)" using es by simp
  then show ?thesis unfolding experiment_settled_def using s o \<open>d1 = _\<close> \<open>Validate s = None\<close>
    by (intro exI [of _ "o1 @ ch @ d1 @ o2"] exI [of _ "\<lparr>sj_Selector = sel, sj_identity = identity, sj_target = target, sj_snapshot = s\<rparr>"]
        exI [of _ fd] exI [of _ es'] exI [of _ "z1 @ z2 @ z3"]) simp
qed

lemma experiment_settled_in:
  assumes "experiment_settled vhostFD es"
  shows "experiment_settled vhostFD (before @ es @ after)"
proof -
  obtain pre sj fd es' post where "es = pre @ snapshot_events fd (sj_snapshot sj) @ es' @ post"
    "EPidfdOpen (t_PID (sj_target sj)) (Inr (t_pidfd (sj_target sj))) \<in> set pre"
    "EPidfdGetfd (t_pidfd (sj_target sj)) vhostFD (Inr fd) \<in> set pre" "Validate (sj_snapshot sj) = None" "settled vhostFD sj es'"
    using assms unfolding experiment_settled_def by blast
  then show ?thesis unfolding experiment_settled_def
    by (intro exI [of _ "before @ pre"] exI [of _ sj] exI [of _ fd] exI [of _ es'] exI [of _ "post @ after"]) simp
qed

lemma control_settled:
  assumes "control n h eb x c w = (Ok (), es, w')" and "\<not> f_Cleanup c"
  shows "experiment_settled (f_VhostFD c) es"
proof -
  from assms obtain e1 e2 rest sel targets w1 where es: "es = e1 @ e2 @ rest"
    and r: "(case targets of [] \<Rightarrow> panicE (ErrorString ''index out of range'') | identity # _ \<Rightarrow>
       bindE (build h x c) (\<lambda>(ko, dir). deferE (attach_and_inject n h eb x c sel identity ko) (RemoveAll x dir))) w1 = (Ok (), rest, w')"
    by (auto simp: control_def failE_def panicE_def elim!: bindE_OkE split: option.splits if_splits sum.splits)
  from r obtain e3 t ko w2 inj w3 z where a: "attach_and_inject n h eb x c sel t ko w2 = (Ok (), inj, w3)" and "rest = e3 @ inj @ z"
    by (auto simp: panicE_def elim!: bindE_OkE deferE_OkE split: list.splits prod.splits)
  with es have "es = e1 @ e2 @ e3 @ inj @ z" by simp
  then have "es = (e1 @ e2 @ e3) @ inj @ z" by simp
  then show ?thesis using experiment_settled_in [OF attach_settled [OF a]] by blast
qed

lemma fault_Run_settled:
  assumes "fault_Run n h eb x c w = (Ok (), es, w')" and "\<not> f_Cleanup c"
  shows "experiment_settled (f_VhostFD c) es"
proof -
  from assms obtain e0 e1 e2 e3 w1 ces w2 z where k: "control n h eb x c w1 = (Ok (), ces, w2)" and "es = e0 @ e1 @ e2 @ (e3 @ ces) @ z"
    unfolding fault_Run_def by (elim bindE_OkE deferE_OkE) (auto simp: failE_def split: sum.splits)
  then have "es = (e0 @ e1 @ e2 @ e3) @ ces @ z" by simp
  then show ?thesis using experiment_settled_in [OF control_settled [OF k assms(2)]] by blast
qed


text \<open>
  C13. The exit status of an experiment: 2 only when nothing was called; 0 only if the fault module is not loaded any more,
  the temporary directory is removed and, unless it was a cleanup, the queue in the slot is settled: two readings of its ring show
  that it completed something, or it was pinned again and given a complete kick, verified against a snapshot of the same attachment, or
  a poll of the process that was not interrupted did not find it alive (it reported the exit, or failed).
\<close>

theorem fault_exit_zero_means_settled:
  assumes "fault_main n h eb x p args w = (Ok status, es, w')"
  shows "status \<le> 2 \<and> (status = 2 \<longrightarrow> es = [] \<and> w' = w) \<and>
    (\<forall>v. status = 0 \<longrightarrow> parse_flags (fault_flags p) args fault_defaults = Parsed v [] \<longrightarrow>
       armed es False = Some False \<and> tempdirs es {#} = Some {#} \<and>
       (f_Cleanup (xv_c v) \<or> experiment_settled (f_VhostFD (xv_c v)) es))"
proof -
  have run: "armed es False = Some False \<and> tempdirs es {#} = Some {#} \<and> (f_Cleanup c \<or> experiment_settled (f_VhostFD c) es)"
    if r: "fault_Run n h eb x c w = (Ok (), es, w')" for c
    using fault_Run_settled [OF r] traces_ifD [OF fault_Run_removes r] fault_Run_disarms [of n h eb x c] r
    by (auto simp: disarms_def ensures_at_def dest!: spec [of _ w])
  show ?thesis
  proof (cases "parse_flags (fault_flags p) args fault_defaults")
    case (Parsed v rest)
    show ?thesis
    proof (cases "es = [] \<and> w' = w \<and> status = 2")
      case False
      then obtain c where e: "exit_status (fault_Run n h eb x c) w = (Ok status, es, w')" and "rest = []"
        and c: "f_Cleanup c = f_Cleanup (xv_c v)" "f_VhostFD c = f_VhostFD (xv_c v)"
        using assms by (auto simp: fault_main_def Parsed retE_def split: if_splits sum.splits)
      then show ?thesis using exit_statusD [OF e] run [of c] c Parsed by auto
    qed (simp add: Parsed)
  next
    case (Usage k)
    then show ?thesis using assms usage_status [OF Usage] by (auto simp: fault_main_def retE_def)
  qed
qed

section \<open>Command lines\<close>

lemma PIDList_Set_single: "0 < pid \<Longrightarrow> pid < 2 ^ 63 \<Longrightarrow> PIDList_Set [] (Itoa pid) = Inr [pid]"
proof -
  assume p: "0 < pid" "pid < 2 ^ 63"
  have "Split (str_Join (map Itoa [pid]) '','') (CHR '','') = map Itoa [pid]" by (intro Split_Join) (auto dest: Itoa_no_sep)
  then show ?thesis using p parse_items_Itoa [of "[pid]"] by (simp add: PIDList_Set_def)
qed

lemma pid_flags:
  "map_of (watch_flags p) ''pid'' = Some (False, \<lambda>s v. case PIDList_Set (wv_pids v) s of Inl e \<Rightarrow> Inl e | Inr l \<Rightarrow> Inr (v\<lparr>wv_pids := l\<rparr>))"
  "map_of (fault_flags p) ''pid'' = Some (False, \<lambda>s v. case PIDList_Set (xv_pids v) s of Inl e \<Rightarrow> Inl e | Inr l \<Rightarrow> Inr (v\<lparr>xv_pids := l\<rparr>))"
  by (simp_all add: watch_flags_def fault_flags_def)

lemma default_selection [simp]:
  "wv_pids watch_defaults = []" "wv_pattern watch_defaults = ''''" "wv_libvirtDir watch_defaults = ''/run/libvirt/qemu''"
  "xv_pids fault_defaults = []" "xv_pattern fault_defaults = ''''" "xv_libvirtDir fault_defaults = ''/run/libvirt/qemu''"
  by (simp_all add: watch_defaults_def fault_defaults_def)

lemma parse_pid:
  assumes "0 < pid" and "pid < 2 ^ 63"
  shows "parse_flags (watch_flags p) (''--pid'' # Itoa pid # args) watch_defaults =
     parse_flags (watch_flags p) args (watch_defaults\<lparr>wv_pids := [pid]\<rparr>)"
    and "parse_flags (fault_flags p) (''--pid'' # Itoa pid # args) fault_defaults =
     parse_flags (fault_flags p) args (fault_defaults\<lparr>xv_pids := [pid]\<rparr>)"
proof -
  have "flag_parts ''--pid'' = (''pid'', '''', False)" by (simp add: flag_parts_def Cut_def)
  then show "parse_flags (watch_flags p) (''--pid'' # Itoa pid # args) watch_defaults =
     parse_flags (watch_flags p) args (watch_defaults\<lparr>wv_pids := [pid]\<rparr>)"
    "parse_flags (fault_flags p) (''--pid'' # Itoa pid # args) fault_defaults =
     parse_flags (fault_flags p) args (fault_defaults\<lparr>xv_pids := [pid]\<rparr>)"
    using PIDList_Set_single [OF assms]
    by (simp_all add: parse_flags.simps [of _ "''--pid'' # _"] pid_flags)
qed

lemma parse_end: "parse_flags fs [] c = Parsed c []"
  by (simp add: parse_flags.simps)

lemma default_seconds:
  "\<not> bad_seconds (Fin (1 / 4))" "\<not> bad_seconds (Fin 1)" "\<not> bad_seconds (Fin 3)" "\<not> bad_seconds (Fin 5)" "\<not> bad_seconds (Fin 30)"
  "f64_to_int64 (f64_mul (Fin (1 / 4)) time_Second) = 250000000" "\<not> f64_lt (Fin 0) (Fin 0)" "\<not> IsInf (Fin 0)"
  by code_simp+

lemma default_valid: "0 < pid \<Longrightarrow> Config_Validate ((wv_c watch_defaults)\<lparr>c_PID := pid\<rparr>) = None"
  using default_seconds by (simp add: Config_Validate_def watch_defaults_def)

text \<open>
  C22. A command line that only names a process observes it with the default policy, which is valid: a snapshot every quarter of
  a second, a stall after three seconds, and, were recovery enabled, at least 30 seconds between two kicks and at most
  three in an hour.
\<close>

theorem plain_command_line_observes:
  assumes "0 < pid" and "pid < 2 ^ 63"
  shows "\<exists>cfg. watch_main n h eb g p [''--pid'', Itoa pid] = exit_status (RunSelected n h eb g 0 cfg) \<and>
    (\<exists>sel. m_Selector cfg = Some sel \<and> s_PIDs sel = [pid] \<and> s_re sel = None \<and> s_ProcRoot sel = ''/proc'') \<and>
    m_Refresh cfg = 5000000000 \<and> \<not> m_List cfg \<and> \<not> m_ListQueues cfg \<and> \<not> c_Rescue (m_Agent cfg) \<and>
    Config_Validate ((m_Agent cfg)\<lparr>c_PID := pid\<rparr>) = None \<and> c_Mode (m_Agent cfg) = ''observe'' \<and>
    c_Interval (m_Agent cfg) = Fin (1 / 4) \<and> c_Threshold (m_Agent cfg) = Fin 3 \<and> c_Cooldown (m_Agent cfg) = Fin 30 \<and>
    c_MaxRecoveries (m_Agent cfg) = 3"
proof -
  let ?v = "watch_defaults\<lparr>wv_pids := [pid]\<rparr>"
  let ?sel = "\<lparr>s_PIDs = [pid], s_Pattern = '''', s_ProcRoot = ''/proc'', s_LibvirtDir = ''/run/libvirt/qemu'', s_anchored = [], s_re = None\<rparr>"
  have n: "New (p_Compile p) (wv_pids ?v) (wv_pattern ?v) ''/proc'' (wv_libvirtDir ?v) = Inr ?sel"
    using assms(1) by (simp add: New_def)
  have a: "m_Agent (manager_config ?sel ?v) = wv_c watch_defaults" by (simp add: manager_config_def watch_defaults_def)
  have "watch_main n h eb g p [''--pid'', Itoa pid] = exit_status (RunSelected n h eb g 0 (manager_config ?sel ?v))"
    using n by (simp add: watch_main_def parse_pid [OF assms] parse_end)
  then show ?thesis using default_valid [OF assms(1)]
    by (intro exI [of _ "manager_config ?sel ?v"]) (simp add: a, simp add: manager_config_def watch_defaults_def)
qed

definition lab_readers :: readers where
  "lab_readers = \<lparr>p_ParseInt = Atoi, p_ParseUint = (\<lambda>s. ParseUint s 64), p_ParseFloat = (\<lambda>_. Inr (Fin 1)),
     p_ParseDuration = (\<lambda>_. Inr 1000000000), p_Compile = (\<lambda>_. Inr (\<lambda>_. True))\<rparr>"

abbreviation lab_watch :: "string list \<Rightarrow> nat outcome \<times> event list \<times> unit" where
  "lab_watch args \<equiv> watch_main 1 lab_host qemu_ebpf lone_scheduler lab_readers args ()"

theorem plain_command_line_observes_witness:
  "\<exists>cfg. lab_watch [''--pid'', Itoa 7] = exit_status (RunSelected 1 lab_host qemu_ebpf lone_scheduler 0 cfg) () \<and>
     c_Mode (m_Agent cfg) = ''observe''"
  using plain_command_line_observes [of 7 1 lab_host qemu_ebpf lone_scheduler lab_readers] by auto

theorem writing_must_be_asked_for_witness:
  "EWrite 9 (put_u64 1) (Inr 8) \<notin> set (fst (snd (lab_watch [''--pid'', Itoa 7])))"
proof -
  have n: "\<not> list_ex (names_flag {''mode'', ''once'', ''rescue''}) [''--pid'', Itoa 7]"
    by (simp add: qemu_Itoa names_flag_def flag_parts_def Cut_def)
  obtain r es w' where "lab_watch [''--pid'', Itoa 7] = (r, es, w')" by (cases "lab_watch [''--pid'', Itoa 7]")
  then show ?thesis using writing_must_be_asked_for [OF n, of 1 lab_host qemu_ebpf lone_scheduler lab_readers "()" r es w' 9 "put_u64 1" "Inr 8"]
    by simp
qed

section \<open>A one-shot recovery\<close>

abbreviation once_vars :: "unit watch_vars" where
  "once_vars \<equiv> watch_defaults\<lparr>wv_pids := [7], wv_once := True\<rparr>"

lemma once_parsed: "parse_flags (watch_flags lab_readers) [''--pid'', Itoa 7, ''--once''] watch_defaults = Parsed once_vars []"
proof -
  have "map_of (watch_flags lab_readers :: unit watch_vars flag list) ''once'' = Some (True, setting ParseBool (\<lambda>x v. v\<lparr>wv_once := x\<rparr>))" by (simp add: watch_flags_def)
  then show ?thesis
    by (simp add: parse_pid parse_flags.simps [of _ "[''--once'']"] flag_parts_def Cut_def setting_def ParseBool_def parse_end)
qed

lemma once_selector: "New (p_Compile lab_readers) (wv_pids once_vars) (wv_pattern once_vars) ''/proc'' (wv_libvirtDir once_vars) = Inr lab_selector"
  by (simp add: New_def lab_selector_def)

abbreviation once_config :: "unit Config" where
  "once_config \<equiv> (wv_c watch_defaults)\<lparr>c_Rescue := True\<rparr>"

lemma once_manager:
  "manager_config lab_selector once_vars = \<lparr>m_Agent = once_config, m_Selector = Some lab_selector, m_Refresh = 5000000000,
     m_List = False, m_ListQueues = False\<rparr>"
  by (simp add: manager_config_def watch_defaults_def)

lemma once_valid: "0 < pid \<Longrightarrow> Config_Validate (once_config\<lparr>c_PID := pid\<rparr>) = None"
  using default_seconds by (simp add: Config_Validate_def watch_defaults_def)

lemma Validate_policy: "Config_Validate (policy h agent sel t) = Config_Validate (agent\<lparr>c_PID := st_PID t\<rparr>)"
  by (simp add: policy_def Config_Validate_def)

lemma once_run:
  assumes "s_ProcRoot s = ''/proc''"
  shows "\<exists>es. RunWithBPF 1 lab_host qemu_ebpf (policy lab_host once_config s proc_target) 0 (Some b) w = (Ok (), es, w)"
proof -
  let ?c = "policy lab_host once_config s proc_target"
  have v: "Config_Validate ?c = None" using once_valid [of 7] by (simp add: Validate_policy proc_target_def)
  have c: "c_Rescue ?c" "c_PID ?c = 7" "c_CheckIdentity ?c = Some (Check lab_host s proc_target)" "c_VhostFD ?c = -1"
    by (simp_all add: policy_def proc_target_def watch_defaults_def)
  show ?thesis using v c lab_open [of w] lab_check [OF assms, of w] lab_rescue [of "\<lparr>l_err = None, l_pid = 7, l_domain = c_Domain ?c\<rparr>" w]
    by (auto simp: RunWithBPF_def run_def run_target_def run_attached_def watch_def Target_Close_def io_execs Let_def)
qed

lemma lab_once: "\<exists>es. lab_watch [''--pid'', Itoa 7, ''--once''] = (Ok 0, es, ())"
proof -
  have f: "c_VhostFD once_config = -1" "\<not> c_TraceStages once_config" by (simp_all add: watch_defaults_def)
  have "s_ProcRoot (lab_selector\<lparr>s_anchored := [(7, ''42'')]\<rparr>) = ''/proc''" by (simp add: lab_selector_def)
  note r = once_run [OF this, of proc_bpf "()"]
  have "\<exists>es. RunSelected 1 lab_host qemu_ebpf lone_scheduler 0 (manager_config lab_selector once_vars) () = (Ok (), es, ())"
    using lab_resolve once_valid [of 1] r f
    by (auto simp: RunSelected_def once_manager emit_all_def one_shot_def one_shot_target_def rescue_target_def
        qemu_OpenBPF qemu_BPF_Close io_execs)
  then show ?thesis using once_selector by (auto simp: watch_main_def once_parsed exit_status_def io_execs)
qed

theorem exit_status_tells_the_outcome_witness:
  "\<exists>es. lab_watch [''--pid'', Itoa 7, ''--once''] = (Ok 0, es, ()) \<and> machines_rescued lab_host 0 lab_selector (-1) () es"
proof -
  obtain es where r: "lab_watch [''--pid'', Itoa 7, ''--once''] = (Ok 0, es, ())" using lab_once by blast
  have "c_VhostFD (wv_c once_vars) = -1" by (simp add: watch_defaults_def)
  then show ?thesis using r exit_status_tells_the_outcome [OF r] once_parsed once_selector by force
qed

section \<open>An experiment from the command line\<close>

theorem fault_exit_zero_means_settled_witness:
  "\<exists>es. fault_main 1 lab_host qemu_ebpf lab_tools lab_readers [''--pid'', Itoa 7, ''--vhost-fd'', Itoa 42] () = (Ok 0, es, ()) \<and>
     armed es False = Some False \<and> experiment_settled 42 es"
proof -
  let ?v = "fault_defaults\<lparr>xv_pids := [7], xv_c := (xv_c fault_defaults)\<lparr>f_VhostFD := 42\<rparr>\<rparr>"
  have "map_of (fault_flags lab_readers) ''vhost-fd'' =
      Some (False, setting (p_ParseInt lab_readers) (\<lambda>x v. v\<lparr>xv_c := (xv_c v)\<lparr>f_VhostFD := x\<rparr>\<rparr>))"
    by (simp add: fault_flags_def)
  then have p: "parse_flags (fault_flags lab_readers) [''--pid'', Itoa 7, ''--vhost-fd'', Itoa 42] fault_defaults = Parsed ?v []"
    by (simp add: parse_pid parse_flags.simps [of _ "''--vhost-fd'' # _"] flag_parts_def Cut_def setting_def lab_readers_def Atoi_Itoa parse_end)
  have n: "New (p_Compile lab_readers) (xv_pids ?v) (xv_pattern ?v) ''/proc'' (xv_libvirtDir ?v) = Inr lab_selector"
    by (simp add: New_def lab_selector_def)
  have c: "(xv_c ?v)\<lparr>f_Selector := Some lab_selector\<rparr> = lab_config" "\<not> f_Cleanup (xv_c ?v)" "f_VhostFD (xv_c ?v) = 42"
    by (simp_all add: fault_defaults_def lab_config_def)
  obtain es where "fault_Run 1 lab_host qemu_ebpf lab_tools lab_config () = (Ok (), es, ())" using lab_run by blast
  then have r: "fault_main 1 lab_host qemu_ebpf lab_tools lab_readers [''--pid'', Itoa 7, ''--vhost-fd'', Itoa 42] () = (Ok 0, es, ())"
    using n c by (simp add: fault_main_def p exit_status_def io_execs)
  then have "\<forall>v. parse_flags (fault_flags lab_readers) [''--pid'', Itoa 7, ''--vhost-fd'', Itoa 42] fault_defaults = Parsed v [] \<longrightarrow>
      armed es False = Some False \<and> (f_Cleanup (xv_c v) \<or> experiment_settled (f_VhostFD (xv_c v)) es)"
    using fault_exit_zero_means_settled [OF r] by simp
  then show ?thesis using r p c(2,3) by auto
qed

end
