(* ===== verification/Fault_Deadline.thy ===== *)
theory Fault_Deadline
  imports Fault_Safety
begin

text \<open>The ticks of the fault controller: with a recovery deadline the wait for progress comes to an end.\<close>

section \<open>The deadline\<close>

text \<open>The times of the ticks.\<close>

fun ticks :: "event list \<Rightarrow> int list" where
  "ticks [] = []"
| "ticks (ETick (Some t) # es) = t # ticks es"
| "ticks (_ # es) = ticks es"

lemma ticks_append: "ticks (es @ es') = ticks es @ ticks es'"
  by (induction es rule: ticks.induct) auto

fun tickless :: "event \<Rightarrow> bool" where
  "tickless (ETick _) = False"
| "tickless _ = True"

lemma ticks_tickless: "list_all tickless es \<Longrightarrow> ticks es = []"
proof (induction es)
  case (Cons e es)
  then show ?case by (cases e) auto
qed simp


lemma calm_tickless: "calm e \<Longrightarrow> tickless e"
  by (cases e) auto

lemma tickless_of_calm: "traces (list_all calm) m \<Longrightarrow> traces (list_all tickless) m"
  by (erule traces_imp) (auto simp: list_all_iff calm_tickless)

lemma fault_log_tickless: "traces (list_all tickless) (fault_log h x ev row)"
  unfolding fault_log_def by (intro every_call.intros traces_calls) auto

lemma disarm_tickless: "traces (list_all tickless) (disarm h x sj)"
proof -
  have u: "traces (list_all tickless) (unload_tries k x)" for k
    by (induction k) (auto intro!: every_call.intros traces_calls)
  show ?thesis unfolding disarm_def unload_def moduleStats_def module_param_def
    by (intro every_call.intros u fault_log_tickless tickless_of_calm [OF Ring_calm] traces_calls)
       (auto intro!: every_call.intros split: option.split jval.split)
qed

lemma observe_tickless: "traces (list_all tickless) (observe_progress h x c sj)"
  unfolding observe_progress_def by (intro every_call.intros fault_log_tickless tickless_of_calm [OF Ring_calm])

text \<open>After a successful disarming the module is no longer loaded, and the look at the ring does not change that.\<close>

lemma unloaded_lift: "maintains (\<lambda>v es. \<not> fv_loaded v) (liftE m)"
  by (rule maintains_lift [where q = "\<lambda>_. True"]) (auto simp: traces_if_def ensures_at_def list_all_iff split: prod.split)

lemma ensures_at_top: "ensures_at m w (\<lambda>r es w'. True)"
  by (simp add: ensures_at_def split: prod.split)

lemma disarm_unloads:
  "ensures_at (disarm h x sj) sw (\<lambda>r es sw'. \<forall>u. r = Ok u \<longrightarrow> \<not> fv_loaded (fst sw'))"
proof -
  let ?rest = "\<lambda>stats. bindE (liftE (fault_log h x ''disarmed'' (AList.update ''active'' (JBool False) stats))) (\<lambda>_.
    bindE
      (case map_of stats ''dropped'' of
         Some (JUint64 n) \<Rightarrow>
           if n = 0 then failE (ErrorString ''no matching wakeup was dropped; injection did not occur'') else retE ()
       | _ \<Rightarrow> panicE (ErrorString ''interface conversion''))
      (\<lambda>_.
       bindE (liftE (Ring h (sj_target sj) (sj_snapshot sj))) (\<lambda>(_, used).
       modE (\<lambda>v. v\<lparr>fv_baselineUsed := used, fv_haveBaseline := True\<rparr>))))"
  have m: "maintains (\<lambda>v es. \<not> fv_loaded v) (?rest stats)" for stats
    by (intro maintains_intros maintains_mod unloaded_lift)
       (auto simp: maintains_pure maintains_cond split: option.split jval.split)
  have k: "ensures_at (bindE (modE (\<lambda>v. v\<lparr>fv_loaded := False\<rparr>)) (\<lambda>_. ?rest stats)) sw
      (\<lambda>r es sw'. \<forall>u. r = Ok u \<longrightarrow> \<not> fv_loaded (fst sw'))" for stats sw
    using maintainsD [OF m, where s = "(fst sw)\<lparr>fv_loaded := False\<rparr>" and w = "snd sw"]
    by (auto simp: ensures_at_bind [of "modE _"] intro: ensures_at_mono)
  have k2: "ensures_at (bindE (liftE (unload x)) (\<lambda>_. bindE (modE (\<lambda>v. v\<lparr>fv_loaded := False\<rparr>)) (\<lambda>_. ?rest stats))) sw
      (\<lambda>r es sw'. \<forall>u. r = Ok u \<longrightarrow> \<not> fv_loaded (fst sw'))" for stats sw
    by (rule ensures_at_bindI [OF ensures_at_top], rule k) auto
  show ?thesis unfolding disarm_def by (rule ensures_at_bindI [OF ensures_at_top], rule k2) auto
qed

lemma observe_keeps_loaded:
  "ensures_at (observe_progress h x c sj) (v, w) (\<lambda>r es sw. \<not> fv_loaded v \<longrightarrow> \<not> fv_loaded (fst sw))"
proof -
  have "maintains (\<lambda>v es. \<not> fv_loaded v) (observe_progress h x c sj)" unfolding observe_progress_def
    by (intro maintains_intros maintains_mod unloaded_lift) auto
  then show ?thesis by (cases "fv_loaded v") (auto simp: maintains_def ensures_at_def split: prod.split)
qed

text \<open>A pass that goes on saw one tick, before the deadline.\<close>

lemma tick_spec:
  assumes "0 < f_RecoverAfter c"
  shows "ensures_at (fault_tick h x c sj windowEnd) (v, w) (\<lambda>r es sw. length (ticks es) \<le> 1 \<and>
     (r = Ok True \<longrightarrow> length (ticks es) = 1 \<and> list_all (\<lambda>t. t < windowEnd + f_RecoverAfter c) (ticks es)))"
proof -
  obtain tick w1 where t: "x_Tick x w = (tick, w1)" by fastforce
  show ?thesis
  proof (cases tick)
    case None
    then show ?thesis using t by (simp add: fault_tick_def ensures_at_bind ensures_at_lift ensures_at_calls)
  next
    case (Some now)
    let ?late = "windowEnd + f_RecoverAfter c \<le> now"
    let ?last = "bindE getE (\<lambda>v. if \<not> fv_loaded v \<and> f_RecoverAfter c > 0 \<and> ?late
          then bindE (liftE (fault_log h x ''recovery_deadline'' [])) (\<lambda>_. retE False) else retE True)"
    let ?look = "bindE (observe_progress h x c sj) (\<lambda>progress. if progress then retE False else ?last)"
    let ?alive = "bindE (liftE (Alive h (sj_target sj))) (\<lambda>alive.
        if \<not> alive then failE (ErrorString ''target QEMU exited'')
        else bindE getE (\<lambda>v. bindE (if fv_loaded v \<and> windowEnd \<le> now then disarm h x sj else retE ()) (\<lambda>_. ?look)))"
    have tl: "traces (list_all tickless) ?alive"
      by (intro every_call.intros tickless_of_calm [OF Alive_calm] disarm_tickless observe_tickless fault_log_tickless)
    have e: "ensures_at ?last (v, w) (\<lambda>r es sw. ?late \<and> \<not> fv_loaded v \<longrightarrow> r \<noteq> Ok True)" for v w
      using assms by (auto simp: ensures_at_bind ensures_at_lift intro!: ensures_at_mono [OF fault_log_returns])
    have l: "ensures_at ?look (v, w) (\<lambda>r es sw. ?late \<and> \<not> fv_loaded v \<longrightarrow> r \<noteq> Ok True)" for v w
    proof (rule ensures_at_bindI [OF observe_keeps_loaded], goal_cases)
      case (1 p es sw)
      then show ?case using e [of "fst sw" "snd sw"] by (cases p) (auto intro: ensures_at_mono)
    qed auto
    have "ensures_at ?alive (v, w1) (\<lambda>r es sw. ?late \<longrightarrow> r \<noteq> Ok True)"
    proof (rule ensures_at_bindI [where R = "\<lambda>r es sw. \<forall>y. r = Ok y \<longrightarrow> fst sw = v"], goal_cases)
      case 1
      show ?case unfolding ensures_at_lift by (simp add: ensures_at_def split: prod.split)
    next
      case (2 alive es sw)
      then obtain w2 where sw: "sw = (v, w2)" by (cases sw) auto
      let ?d = "if fv_loaded v \<and> windowEnd \<le> now then disarm h x sj else retE ()"
      have d: "ensures_at ?d (v, w2) (\<lambda>r es sw. \<forall>u. r = Ok u \<longrightarrow> windowEnd \<le> now \<longrightarrow> \<not> fv_loaded (fst sw))"
        using disarm_unloads [of h x sj "(v, w2)"] by (auto intro: ensures_at_mono)
      have "ensures_at (bindE ?d (\<lambda>_. ?look)) (v, w2) (\<lambda>r es sw. ?late \<longrightarrow> r \<noteq> Ok True)"
      proof (rule ensures_at_bindI [OF d], goal_cases)
        case (1 u es sw)
        then show ?case using l [of "fst sw" "snd sw"] assms by (auto intro: ensures_at_mono)
      qed auto
      then show ?case unfolding sw by (auto simp: ensures_at_bind [of getE])
    qed auto
    from ensures_at_conj [OF this tl [unfolded traces_if_def, THEN spec]]
    have "ensures_at ?alive (v, w1) (\<lambda>r es sw. length (ticks (ETick (Some now) # es)) \<le> 1 \<and> (r = Ok True \<longrightarrow>
      length (ticks (ETick (Some now) # es)) = 1 \<and> list_all (\<lambda>t. t < windowEnd + f_RecoverAfter c) (ticks (ETick (Some now) # es))))"
      by (rule ensures_at_mono) (auto simp: ticks_tickless)
    then show ?thesis using t Some unfolding fault_tick_def ensures_at_bind [of "liftE (Tick x)"] ensures_at_lift ensures_at_callV
      by simp
  qed
qed

lemma loop_ticks:
  assumes "0 < f_RecoverAfter c"
  shows "ensures_at (fault_loop n h x c sj windowEnd) (v, w) (\<lambda>r es sw.
     list_all (\<lambda>t. t < windowEnd + f_RecoverAfter c) (butlast (ticks es)) \<and> length (ticks es) \<le> n)"
proof (induction n arbitrary: v w)
  case (Suc n)
  show ?case unfolding fault_loop.simps
  proof (rule ensures_at_bindI [OF tick_spec [OF assms]], goal_cases)
    case (1 go es sw)
    then show ?case
    proof (cases go)
      case True
      with 1 obtain t where t: "ticks es = [t]" "t < windowEnd + f_RecoverAfter c" by (cases "ticks es") auto
      then show ?thesis using True Suc.IH [of "fst sw" "snd sw"]
        by (auto simp: ticks_append intro: ensures_at_mono)
    next
      case False
      with 1 show ?thesis by (cases "ticks es") auto
    qed
  next
    case (2 e es sw)
    then show ?case by (cases "ticks es") auto
  next
    case (3 e es sw)
    then show ?case by (cases "ticks es") auto
  next
    case (4 es sw)
    then show ?case by (cases "ticks es") auto
  qed
qed simp

text \<open>Nothing in a pass waits for ever but a poll of the process that is interrupted again and again.\<close>

definition ends :: "('e, 'w, 'a) io \<Rightarrow> bool" where
  "ends m \<longleftrightarrow> (\<forall>w. ensures_at m w (\<lambda>r es w'. r \<noteq> Running))"

lemma ends_bind: "ends m \<Longrightarrow> (\<And>y. ends (f y)) \<Longrightarrow> ends (bindE m f)"
  unfolding ends_def by (intro allI, rule ensures_at_bindI [where R = "\<lambda>r es w'. r \<noteq> Running"]) auto

lemma ends_pure: "ends (retE y)" "ends (failE e)" "ends (panicE e)" "ends getE" "ends (modE f)"
  by (simp_all add: ends_def)

lemma ends_lift: "ends m \<Longrightarrow> ends (liftE m)"
  by (auto simp: ends_def ensures_at_lift)

lemma ends_cases:
  "(b \<Longrightarrow> ends m) \<Longrightarrow> (\<not> b \<Longrightarrow> ends m') \<Longrightarrow> ends (if b then m else m')"
  "(\<And>a b. p = (a, b) \<Longrightarrow> ends (l a b)) \<Longrightarrow> ends (case p of (a, b) \<Rightarrow> l a b)"
  by (auto split: prod.split)

lemma parts_end: "ends (fault_log h x ev row)" "ends (Fault.unload x)" "ends (moduleStats h)" "ends (Ring h t s)"
  unfolding ends_def
  by (auto intro: ensures_at_mono [OF fault_log_returns] ensures_at_mono [OF unload_armed] ensures_at_mono [OF moduleStats_typed])
     (simp add: Ring_def ensures_at_rules ensures_at_calls split: prod.split sum.split)

lemma pass_ends: "ends (disarm h x sj)" "ends (observe_progress h x c sj)"
  unfolding disarm_def observe_progress_def
  by (intro ends_bind ends_lift parts_end ends_pure ends_cases; auto simp: ends_pure split: option.split jval.split)+

definition stuck_polls :: "nat \<Rightarrow> int \<Rightarrow> event list \<Rightarrow> bool" where
  "stuck_polls k pidfd es \<longleftrightarrow> (\<exists>es' polls. es = es' @ polls \<and> length polls = k \<and> list_all (interrupted_poll pidfd) polls)"

lemma Alive_stuck: "ensures_at (Alive h t) w (\<lambda>r es w'. r = Running \<longrightarrow> stuck_polls (h_polls h) (t_pidfd t) es)"
proof -
  obtain r es w' where c: "CheckAlive h t w = (r, es, w')" by (cases "CheckAlive h t w")
  have "r = Running \<Longrightarrow> length es = h_polls h \<and> list_all (interrupted_poll (t_pidfd t)) es"
    using pollAlive_spec [of "h_polls h" h "t_pidfd t" w] c by (auto simp: CheckAlive_def ensures_at_def)
  then have "r = Running \<Longrightarrow> stuck_polls (h_polls h) (t_pidfd t) es" unfolding stuck_polls_def by (metis append_Nil)
  then show ?thesis
    by (cases r) (auto simp: Alive_def ensures_at_rules ensures_at_def [of "CheckAlive h t"] c)
qed

lemma stuck_append: "stuck_polls k pidfd es' \<Longrightarrow> stuck_polls k pidfd (es @ es')"
  unfolding stuck_polls_def by (metis append.assoc)

lemma tick_stuck:
  "ensures_at (fault_tick h x c sj we) (v, w) (\<lambda>r es sw. r = Running \<longrightarrow> stuck_polls (h_polls h) (t_pidfd (sj_target sj)) es)"
proof -
  have rest: "ends (bindE getE (\<lambda>v.
          bindE (if fv_loaded v \<and> we \<le> now then disarm h x sj else retE ()) (\<lambda>_.
          bindE (observe_progress h x c sj) (\<lambda>progress.
          if progress then retE False
          else bindE getE (\<lambda>v.
          if \<not> fv_loaded v \<and> f_RecoverAfter c > 0 \<and> we + f_RecoverAfter c \<le> now
          then bindE (liftE (fault_log h x ''recovery_deadline'' [])) (\<lambda>_. retE False)
          else retE True)))))" for now
    by (intro ends_bind ends_pure ends_cases ends_lift parts_end pass_ends)
  show ?thesis unfolding fault_tick_def
  proof (rule ensures_at_bindI [where R = "\<lambda>r es sw. r \<noteq> Running"], goal_cases)
    case (2 tick es sw)
    show ?case
    proof (cases tick)
      case (Some now)
      show ?thesis unfolding Some option.case
      proof (rule ensures_at_bindI [where R = "\<lambda>r es sw. r = Running \<longrightarrow> stuck_polls (h_polls h) (t_pidfd (sj_target sj)) es"], goal_cases)
        case 1
        show ?case using Alive_stuck by (cases sw) (simp add: ensures_at_lift)
      next
        case (2 alive es2 sw2)
        then show ?case using rest [of now, unfolded ends_def, THEN spec, of sw2] by (cases alive) (auto elim!: ensures_at_mono)
      qed (auto intro: stuck_append)
    qed simp
  qed (auto simp: ensures_at_lift ensures_at_calls split: prod.split)
qed

lemma loop_running:
  assumes "0 < f_RecoverAfter c"
  shows "ensures_at (fault_loop n h x c sj we) (v, w) (\<lambda>r es sw. r = Running \<longrightarrow>
     length (ticks es) = n \<and> list_all (\<lambda>t. t < we + f_RecoverAfter c) (ticks es) \<or>
     stuck_polls (h_polls h) (t_pidfd (sj_target sj)) es)"
proof (induction n arbitrary: v w)
  case (Suc n)
  show ?case unfolding fault_loop.simps
  proof (rule ensures_at_bindI [OF ensures_at_conj [OF tick_spec [OF assms] tick_stuck]], goal_cases)
    case (1 go es sw)
    then show ?case
    proof (cases go)
      case True
      with 1 have t: "length (ticks es) = 1" "list_all (\<lambda>t. t < we + f_RecoverAfter c) (ticks es)" by auto
      have "ensures_at (fault_loop n h x c sj we) sw (\<lambda>r es2 sw. r = Running \<longrightarrow>
          length (ticks (es @ es2)) = Suc n \<and> list_all (\<lambda>t. t < we + f_RecoverAfter c) (ticks (es @ es2)) \<or>
          stuck_polls (h_polls h) (t_pidfd (sj_target sj)) (es @ es2))"
        using Suc.IH [of "fst sw" "snd sw"] t by (auto simp: ticks_append stuck_append elim!: ensures_at_mono)
      with True show ?thesis by simp
    qed simp
  qed auto
qed simp

lemma increasing_bounded: "sorted_wrt (<) ts \<Longrightarrow> \<forall>t \<in> set ts. a \<le> t \<and> t < (b::int) \<Longrightarrow> int (length ts) \<le> max 0 (b - a)"
proof -
  assume s: "sorted_wrt (<) ts" and b: "\<forall>t \<in> set ts. a \<le> t \<and> t < b"
  have "distinct ts" using s strict_sorted_iff by blast
  then have "length ts = card (set ts)" by (simp add: distinct_card)
  also have "\<dots> \<le> card {a..<b}" using b by (intro card_mono) auto
  finally show ?thesis by simp
qed

text \<open>
  C15. With a recovery deadline the wait comes to an end: the first tick at or after the deadline is the last one, and
  when the ticks come at increasing times, a bound on the number of passes as long as the time to the deadline is enough
  for the loop to return, unless the poll of the process is interrupted without end.
\<close>

theorem deadline_ends_the_wait:
  assumes "fault_loop n h x c sj windowEnd (v, w) = (r, es, sw)" and "0 < f_RecoverAfter c"
    and "sorted_wrt (<) (ticks es)" and "\<forall>t \<in> set (ticks es). start \<le> t" and "windowEnd + f_RecoverAfter c - start < int n" and "0 < n"
  shows "list_all (\<lambda>t. t < windowEnd + f_RecoverAfter c) (butlast (ticks es)) \<and>
    (r \<noteq> Running \<or> stuck_polls (h_polls h) (t_pidfd (sj_target sj)) es)"
proof -
  have l: "list_all (\<lambda>t. t < windowEnd + f_RecoverAfter c) (butlast (ticks es))"
    using loop_ticks [OF assms(2), of n h x sj windowEnd v w] assms(1) by (simp add: ensures_at_def)
  have "r = Running \<longrightarrow> length (ticks es) = n \<and> list_all (\<lambda>t. t < windowEnd + f_RecoverAfter c) (ticks es) \<or>
     stuck_polls (h_polls h) (t_pidfd (sj_target sj)) es"
    using loop_running [OF assms(2), of n h x sj windowEnd v w] assms(1) by (simp add: ensures_at_def)
  moreover have False if "length (ticks es) = n" "list_all (\<lambda>t. t < windowEnd + f_RecoverAfter c) (ticks es)"
  proof -
    have "int n \<le> max 0 (windowEnd + f_RecoverAfter c - start)"
      using increasing_bounded [OF assms(3), of start "windowEnd + f_RecoverAfter c"] assms(4) that by (simp add: list_all_iff)
    with assms(5,6) show False by linarith
  qed
  ultimately show ?thesis using l by blast
qed

text \<open>The module is unloaded, and the first tick is at the deadline.\<close>

theorem deadline_ends_the_wait_witness:
  "\<exists>es sw. fault_loop 1 lab_host (lab_tools\<lparr>x_Tick := (\<lambda>w. (Some 1, w))\<rparr>) (lab_config\<lparr>f_RecoverAfter := 1\<rparr>)
      \<lparr>sj_Selector = lab_selector, sj_identity = proc_target, sj_target = lab_target, sj_snapshot = lab_snapshot\<rparr> 0
      (\<lparr>fv_loaded = False, fv_recovered = False, fv_haveBaseline = False, fv_baselineUsed = 0\<rparr>, ()) = (Ok (), es, sw) \<and>
    ticks es = [1] \<and> list_all (\<lambda>t. t < 1) (butlast (ticks es))"
proof -
  let ?sj = "\<lparr>sj_Selector = lab_selector, sj_identity = proc_target, sj_target = lab_target, sj_snapshot = lab_snapshot\<rparr>"
  let ?v = "\<lparr>fv_loaded = False, fv_recovered = False, fv_haveBaseline = False, fv_baselineUsed = 0\<rparr>"
  obtain fs where r: "fault_loop 1 lab_host (lab_tools\<lparr>x_Tick := (\<lambda>w. (Some 1, w))\<rparr>) (lab_config\<lparr>f_RecoverAfter := 1\<rparr>) ?sj 0 (?v, ()) =
      (Ok (), [ETick (Some 1), EPoll 5 (Inr (0, 0)), EEncode fs None], (?v, ()))"
    by (simp add: fault_tick_def lab_Alive observe_progress_def fault_log_def io_execs Let_def)
  show ?thesis using r deadline_ends_the_wait [OF r, of 1] by simp
qed

end
