(* ===== verification/Pace.thy ===== *)
theory Pace
  imports Agent
begin

text \<open>
  How often the agent kicks.  The kicks of a run are read off its call list: a write of eight bytes
  counts for the vhost descriptor whose duplicate was taken right before that of the eventfd, at the
  last reading of the clock.  An invariant ties the detectors of a loop to the kicks its calls
  show, so that the policy of the configuration holds of whole runs.
\<close>

section \<open>The kicks of a call list\<close>

record scan =
  sc_now :: f64
  sc_vhost :: int
  sc_last :: int
  sc_kicks :: "(int \<times> f64) list"

fun scan_step :: "event \<Rightarrow> scan \<Rightarrow> scan" where
  "scan_step (EClock (Inr ts)) sc = sc\<lparr>sc_now := seconds ts\<rparr>"
| "scan_step (EPidfdGetfd _ fd (Inr _)) sc = sc\<lparr>sc_vhost := sc_last sc, sc_last := fd\<rparr>"
| "scan_step (EWrite _ _ r) sc = (if r = Inr 8 then sc\<lparr>sc_kicks := sc_kicks sc @ [(sc_vhost sc, sc_now sc)]\<rparr> else sc)"
| "scan_step _ sc = sc"

definition scan_calls :: "event list \<Rightarrow> scan" where
  "scan_calls es = fold scan_step es \<lparr>sc_now = NInf, sc_vhost = 0, sc_last = 0, sc_kicks = []\<rparr>"

definition kick_times :: "int \<Rightarrow> event list \<Rightarrow> f64 list" where
  "kick_times fd es = map snd (filter (\<lambda>k. fst k = fd) (sc_kicks (scan_calls es)))"

fun clock_reading :: "event \<Rightarrow> f64 option" where
  "clock_reading (EClock (Inr ts)) = Some (seconds ts)"
| "clock_reading _ = None"

definition clock_readings :: "event list \<Rightarrow> f64 list" where
  "clock_readings es = List.map_filter clock_reading es"

text \<open>Calls that move neither the clock nor the kicks, and among them those that leave the scan as it is.\<close>

fun steady :: "event \<Rightarrow> bool" where
  "steady (EClock _) = False"
| "steady (EWrite _ _ r) = (r \<noteq> Inr 8)"
| "steady _ = True"

fun calm :: "event \<Rightarrow> bool" where
  "calm (EPidfdGetfd _ _ _) = False"
| "calm e = steady e"

lemma scan_calls_append: "scan_calls (es @ es') = fold scan_step es' (scan_calls es)"
  by (simp add: scan_calls_def)

lemma scan_steady: "steady e \<Longrightarrow> sc_now (scan_step e sc) = sc_now sc \<and> sc_kicks (scan_step e sc) = sc_kicks sc"
  by (cases "(e, sc)" rule: scan_step.cases) auto

lemma scan_calm: "list_all calm es \<Longrightarrow> fold scan_step es sc = sc"
proof (induction es)
  case (Cons e es)
  then have "scan_step e sc = sc" by (cases "(e, sc)" rule: scan_step.cases) auto
  with Cons show ?case by simp
qed simp

lemma steady_reading: "steady e \<Longrightarrow> clock_reading e = None"
  by (cases e rule: clock_reading.cases) auto

lemma clock_readings_append: "clock_readings (es @ es') = clock_readings es @ clock_readings es'"
  by (simp add: clock_readings_def map_filter_def)

lemma steady_calls:
  assumes "list_all steady es'"
  shows "clock_readings (es @ es') = clock_readings es" "kick_times fd (es @ es') = kick_times fd es"
    "sc_now (scan_calls (es @ es')) = sc_now (scan_calls es)"
proof -
  have "sc_now (fold scan_step es' sc) = sc_now sc \<and> sc_kicks (fold scan_step es' sc) = sc_kicks sc" for sc
    using assms by (induction es' arbitrary: sc) (auto simp: scan_steady)
  then show "kick_times fd (es @ es') = kick_times fd es" "sc_now (scan_calls (es @ es')) = sc_now (scan_calls es)"
    by (simp_all add: kick_times_def scan_calls_append)
  have "clock_readings es' = []" using assms
    by (induction es') (auto simp: clock_readings_def map_filter_def steady_reading)
  then show "clock_readings (es @ es') = clock_readings es" by (simp add: clock_readings_append)
qed

section \<open>The policies\<close>

definition policy_ok :: "'w Config \<Rightarrow> f64 list \<Rightarrow> f64 \<Rightarrow> bool" where
  "policy_ok c ks now \<longleftrightarrow>
    (if c_Mode c = ''guarded''
     then (ks \<noteq> [] \<longrightarrow> f64_le (c_Cooldown c) (f64_sub now (last ks))) \<and>
          int (length (filter (recent now) ks)) < c_MaxRecoveries c
     else c_Mode c = ''periodic'' \<and> (ks \<noteq> [] \<longrightarrow> f64_le (c_KickInterval c) (f64_sub now (last ks))))"

definition paced :: "'w Config \<Rightarrow> f64 list \<Rightarrow> bool" where
  "paced c ks \<longleftrightarrow> (\<forall>j < length ks. policy_ok c (take j ks) (ks ! j))"

lemma paced_Nil [simp]: "paced c []"
  by (simp add: paced_def)

lemma paced_snoc: "paced c (ks @ [now]) \<longleftrightarrow> paced c ks \<and> policy_ok c ks now"
  by (auto simp: paced_def nth_append less_Suc_eq)

lemma paced_guarded:
  "c_Mode c = ''guarded'' \<Longrightarrow> list_all is_fin ks \<Longrightarrow> paced c ks \<Longrightarrow> rate_ok (c_Cooldown c) (c_MaxRecoveries c) ks"
proof (induction ks rule: rev_induct)
  case (snoc now ks)
  then show ?case by (intro rate_ok_snoc) (auto simp: paced_snoc policy_ok_def)
qed simp

text \<open>The detector \<open>d\<close> of a slot knows the kicks \<open>ks\<close> of that slot as far as its policy needs them.\<close>

definition tracks :: "'w Config \<Rightarrow> Detector \<Rightarrow> f64 list \<Rightarrow> f64 \<Rightarrow> bool" where
  "tracks c d ks t \<longleftrightarrow> list_all is_fin ks \<and>
    (if c_Mode c = ''guarded'' then budget_tracks (c_Cooldown c) (c_MaxRecoveries c) d ks t
     else d_LastKick d = (if ks = [] then NInf else last ks))"

lemma tracks_new:
  "c_Cooldown c \<noteq> NaN \<Longrightarrow> tracks c (NewDetector (c_Threshold c) (c_Cooldown c) (c_MaxRecoveries c)) [] t"
  using budget_tracks_new by (auto simp: tracks_def NewDetector_def)

lemma tracks_later: "tracks c d ks t \<Longrightarrow> f64_le t t' \<Longrightarrow> tracks c d ks t'"
  by (auto simp: tracks_def intro: budget_tracks_later)

lemma tracks_fields [simp]:
  "tracks c (d\<lparr>d_Since := a\<rparr>) ks t = tracks c d ks t" "tracks c (d\<lparr>d_Reported := b\<rparr>) ks t = tracks c d ks t"
  "tracks c (snd (Observe d s avail used busy now)) ks t = tracks c d ks t"
  by (simp_all add: tracks_def) (simp add: Observe_def Let_def)

lemma tracks_Allowed:
  "tracks c d ks t \<Longrightarrow> f64_le t now \<Longrightarrow> is_fin now \<Longrightarrow> c_Mode c = ''guarded'' \<Longrightarrow>
   tracks c (snd (Allowed d now)) ks now \<and> (fst (Allowed d now) \<longleftrightarrow> policy_ok c ks now)"
  using budget.allowed_tracks budget.allowed_iff by (auto simp: tracks_def policy_ok_def)

lemma kick_due_policy:
  assumes "tracks c d ks now" "is_fin now" "kick_due c d stalled now = (periodic, guarded, d')"
  shows "tracks c d' ks now" "periodic \<or> guarded \<Longrightarrow> policy_ok c ks now \<and> (guarded \<longleftrightarrow> c_Mode c = ''guarded'')"
proof -
  have n: "f64_le now now" using assms(2) by (auto elim: is_finE)
  have "tracks c d' ks now \<and> (periodic \<or> guarded \<longrightarrow> policy_ok c ks now \<and> (guarded \<longleftrightarrow> c_Mode c = ''guarded''))"
  proof (cases "c_Mode c = ''guarded''")
    case True
    then show ?thesis using assms tracks_Allowed [OF assms(1) n assms(2) True]
      by (auto simp: kick_due_def Let_def split: if_splits prod.splits)
  next
    case False
    then show ?thesis using assms
      by (auto simp: kick_due_def Let_def policy_ok_def tracks_def split: if_splits prod.splits)
  qed
  then show "tracks c d' ks now" "periodic \<or> guarded \<Longrightarrow> policy_ok c ks now \<and> (guarded \<longleftrightarrow> c_Mode c = ''guarded'')"
    by blast+
qed

lemma tracks_kicked:
  assumes "tracks c d ks now" "is_fin now"
  shows "tracks c (if c_Mode c = ''guarded'' then Kicked (d\<lparr>d_LastKick := now\<rparr>) now else d\<lparr>d_LastKick := now\<rparr>) (ks @ [now]) now"
proof -
  have "Kicked (d\<lparr>d_LastKick := now\<rparr>) now = Kicked d now" by (simp add: Kicked_def)
  then show ?thesis using assms budget.kicked_tracks by (auto simp: tracks_def)
qed

section \<open>One kick\<close>

lemma calm_kick_body:
  "kick_body_calls pidfd kfd cur s res es \<Longrightarrow> \<exists>pre. es = pre @ [EWrite kfd (put_u64 1) res] \<and> list_all calm pre"
proof -
  have "list_all calm polls" if "polled_alive pidfd polls" for polls
    using that by (fastforce simp: polled_alive_def list_all_iff interrupted_poll_def)
  then show "kick_body_calls pidfd kfd cur s res es \<Longrightarrow> ?thesis"
    by (fastforce simp: kick_body_calls_def snapshot_events_def)
qed

lemma scan_kick:
  assumes "verified_kick pidfd cur s m res es"
  shows "fold scan_step (EPidfdGetfd pidfd fd (Inr cur) # es @ [EClose cur]) sc =
    sc\<lparr>sc_vhost := fd, sc_last := m, sc_kicks := sc_kicks sc @ (if res = Inr 8 then [(fd, sc_now sc)] else [])\<rparr>"
proof -
  obtain kfd pre where "es = EPidfdGetfd pidfd m (Inr kfd) # (pre @ [EWrite kfd (put_u64 1) res]) @ [EClose kfd]"
    "list_all calm pre" using assms calm_kick_body by (fastforce simp: verified_kick_def)
  then show ?thesis by (simp add: scan_calm)
qed

fun is_clock :: "event \<Rightarrow> bool" where
  "is_clock (EClock _) = True"
| "is_clock _ = False"

lemma idle_no_clock: "traces (list_all idle) m \<Longrightarrow> traces (list_all (\<lambda>e. \<not> is_clock e)) m"
  by (erule traces_imp, erule list.pred_mono_strong) (auto elim!: idle.elims)

lemma Rekick_no_clock: "traces (list_all (\<lambda>e. \<not> is_clock e)) (Rekick h (recovery_of h t) (BPF_Snapshot h) cur s events)"
  unfolding Rekick_def recovery_of_def recoveryTarget.simps
  by (intro every_call.intros traces_calls idle_calls [THEN idle_no_clock]) auto

lemma no_clock_reading: "\<not> is_clock e \<Longrightarrow> clock_reading e = None"
  by (cases e) auto

lemma steady_unwritten:
  assumes "list_all (\<lambda>e. \<not> is_clock e) es" and "filter (\<lambda>e. \<not> quiet e) es = ws"
    and "\<And>fd d r. EWrite fd d r \<in> set ws \<Longrightarrow> r \<noteq> Inr 8"
  shows "list_all steady es"
proof -
  have "steady e" if "e \<in> set es" for e
    using assms that by (cases e) (fastforce simp: list_all_iff)+
  then show ?thesis by (simp add: list_all_iff)
qed

lemma Rekick_kicks:
  "ensures_at (Rekick h (recovery_of h t) (BPF_Snapshot h) cur s events) w (\<lambda>r es w'.
     (\<forall>e. r \<noteq> Panic e) \<and>
     (if r = Ok () then verified_kick (t_pidfd t) cur s (Min (set (events (sn_EventID s)))) (Inr 8) es else list_all steady es))"
proof -
  obtain r es w' where R: "Rekick h (recovery_of h t) (BPF_Snapshot h) cur s events w = (r, es, w')"
    by (cases "Rekick h (recovery_of h t) (BPF_Snapshot h) cur s events w")
  let ?K = "\<lambda>res es. Validate s = None \<and> events (sn_EventID s) \<noteq> [] \<and>
       verified_kick (t_pidfd t) cur s (Min (set (events (sn_EventID s)))) res es"
  have k: "kick_outcome ?K r es" using Rekick_spec [of h t cur s events w] R by (simp add: ensures_at_def)
  have nc: "list_all (\<lambda>e. \<not> is_clock e) es" using traces_ifD [OF Rekick_no_clock R] by simp
  have "list_all steady es" if "r \<noteq> Ok ()"
  proof (cases "list_all quiet es")
    case True
    then have "filter (\<lambda>e. \<not> quiet e) es = []" by (simp add: filter_empty_conv list_all_iff)
    then show ?thesis by (rule steady_unwritten [OF nc]) simp
  next
    case False
    then obtain res where "res \<noteq> Inr 8" "?K res es" using k \<open>r \<noteq> Ok ()\<close> by (auto simp: kick_outcome_def)
    then show ?thesis using verified_kick_writes steady_unwritten [OF nc] by fastforce
  qed
  with k R show ?thesis by (auto simp: ensures_at_def kick_outcome_def split: if_splits)
qed

definition kicked_once :: "int \<Rightarrow> event list \<Rightarrow> event list \<Rightarrow> bool" where
  "kicked_once fd es es2 \<longleftrightarrow> clock_readings (es @ es2) = clock_readings es \<and>
     sc_now (scan_calls (es @ es2)) = sc_now (scan_calls es) \<and>
     (\<forall>fd'. kick_times fd' (es @ es2) = kick_times fd' es @ (if fd' = fd then [sc_now (scan_calls es)] else []))"

lemma rekick_current_kicks:
  "ensures_at (rekick_current h t fd s events) w (\<lambda>r es2 w'.
     if r = Ok () then kicked_once fd es es2 else list_all steady es2)"
proof (cases "h_PidfdGetfd h (t_pidfd t) fd w")
  case (Pair a w1)
  show ?thesis
  proof (cases a)
    case (Inl e)
    then show ?thesis using Pair by (simp add: rekick_current_def Duplicate_def ensures_at_rules ensures_at_calls)
  next
    case (Inr cur)
    obtain r es1 w2 where R: "Rekick h (recovery_of h t) (BPF_Snapshot h) cur s events w1 = (r, es1, w2)"
      by (cases "Rekick h (recovery_of h t) (BPF_Snapshot h) cur s events w1")
    let ?es = "EPidfdGetfd (t_pidfd t) fd (Inr cur) # es1 @ [EClose cur]"
    note k = Rekick_kicks [of h t cur s events w1, unfolded ensures_at_def R prod.case]
    have "kicked_once fd es ?es" if "r = Ok ()"
    proof -
      have v: "verified_kick (t_pidfd t) cur s (Min (set (events (sn_EventID s)))) (Inr 8) es1" using k that by simp
      have "list_all (\<lambda>e. \<not> is_clock e) es1" using traces_ifD [OF Rekick_no_clock R] by simp
      then have "clock_readings ?es = []"
        by (auto simp: clock_readings_def map_filter_def filter_empty_conv list_all_iff no_clock_reading)
      then show ?thesis using scan_kick [OF v, of fd "scan_calls es"]
        by (simp add: kicked_once_def kick_times_def scan_calls_append clock_readings_append)
    qed
    then show ?thesis using Pair Inr k
      by (cases r) (auto simp: rekick_current_def Duplicate_def ensures_at_rules ensures_at_calls ensures_at_def [of "Rekick _ _ _ _ _ _"] R)
  qed
qed

section \<open>The invariant\<close>

definition pace_inv :: "'c Config \<Rightarrow> 'v ledger_scheme \<Rightarrow> event list \<Rightarrow> bool" where
  "pace_inv c v es \<longleftrightarrow> (clock_ok (clock_readings es) \<longrightarrow>
     (\<forall>fd. paced c (kick_times fd es) \<and> tracks c (detector_of c v fd) (kick_times fd es) (sc_now (scan_calls es))))"

text \<open>Within a round, \<open>now\<close> is the last reading.\<close>

definition pace_now :: "'c Config \<Rightarrow> f64 \<Rightarrow> 'v ledger_scheme \<Rightarrow> event list \<Rightarrow> bool" where
  "pace_now c now v es \<longleftrightarrow> pace_inv c v es \<and>
     (clock_ok (clock_readings es) \<longrightarrow> sc_now (scan_calls es) = now \<and> is_fin now)"

text \<open>Where the policy has been asked for \<open>fd\<close> and grants a kick.\<close>

definition pace_due :: "'c Config \<Rightarrow> f64 \<Rightarrow> int \<Rightarrow> 'v ledger_scheme \<Rightarrow> event list \<Rightarrow> bool" where
  "pace_due c now fd v es \<longleftrightarrow> pace_now c now v es \<and> (clock_ok (clock_readings es) \<longrightarrow> policy_ok c (kick_times fd es) now)"

lemma detector_of_set: "detector_of c (set_detector fd d v) fd' = (if fd' = fd then d else detector_of c v fd')"
  by (simp add: detector_of_def set_detector_def update_conv')

lemma detector_of_cong: "v_detectors v' = v_detectors v \<Longrightarrow> detector_of c v' = detector_of c v"
  by (simp add: detector_of_def fun_eq_iff)

lemma pace_cong:
  assumes "v_detectors v' = v_detectors v"
  shows "pace_inv c v' es = pace_inv c v es" "pace_now c now v' es = pace_now c now v es"
    "pace_due c now fd v' es = pace_due c now fd v es"
  by (simp_all add: pace_inv_def pace_now_def pace_due_def detector_of_cong [OF assms])

lemma pace_calls:
  assumes "list_all steady es'"
  shows "pace_inv c v (es @ es') = pace_inv c v es" "pace_now c now v (es @ es') = pace_now c now v es"
    "pace_due c now fd v (es @ es') = pace_due c now fd v es"
  by (simp_all add: pace_inv_def pace_now_def pace_due_def steady_calls [OF assms])

lemma pace_set:
  "pace_now c now v es \<Longrightarrow> (\<And>ks. tracks c (detector_of c v fd) ks now \<Longrightarrow> is_fin now \<Longrightarrow> tracks c d ks now) \<Longrightarrow>
   pace_now c now (set_detector fd d v) es"
  by (auto simp: pace_now_def pace_inv_def detector_of_set)

lemma idle_steady: "idle e \<Longrightarrow> steady e"
  by (cases e) auto

lemma pace_lift:
  assumes "traces (list_all idle) m"
  shows "maintains (pace_inv c) (liftE m)" "maintains (pace_now c now) (liftE m)" "maintains (pace_due c now fd) (liftE m)"
  by (rule maintains_lift [OF assms]; simp add: pace_calls idle_steady)+

lemma pace_mod:
  assumes "\<And>v. v_detectors (f v) = v_detectors v"
  shows "maintains (pace_inv c) (modE f)" "maintains (pace_now c now) (modE f)" "maintains (pace_due c now fd) (modE f)"
  by (rule maintains_mod, simp only: pace_cong [OF assms])+

lemma pace_log:
  "maintains (pace_inv c) (logV h ev fs)" "maintains (pace_now c now) (logV h ev fs)" "maintains (pace_due c now fd) (logV h ev fs)"
  unfolding logV_def by (intro maintains_intros pace_lift emit_idle pace_mod; simp)+

lemma pace_check_log:
  "maintains I check_log" "maintains I return_log"
  unfolding return_log_def check_log_def by (intro maintains_intros)+

text \<open>From one invariant to another: \<open>I\<close> holds as long as the computation goes on, \<open>J\<close> in the end.\<close>

definition leads :: "('s \<Rightarrow> 'e list \<Rightarrow> bool) \<Rightarrow> ('e, 's \<times> 'w, 'a) io \<Rightarrow> ('s \<Rightarrow> 'e list \<Rightarrow> bool) \<Rightarrow> bool" where
  "leads I m J \<longleftrightarrow> (\<forall>s w es. I s es \<longrightarrow> ensures_at m (s, w) (\<lambda>r es2 sw. J (fst sw) (es @ es2)))"

lemma leads_ret: "(\<And>s es. I s es \<Longrightarrow> J s es) \<Longrightarrow> leads I (retE x) J" "(\<And>s es. I s es \<Longrightarrow> J s es) \<Longrightarrow> leads I (failE e) J"
  by (simp_all add: leads_def)

lemma leads_bind:
  assumes "maintains I m" and "\<And>s es. I s es \<Longrightarrow> J s es" and "\<And>x. leads I (f x) J"
  shows "leads I (bindE m f) J"
  unfolding leads_def
proof (intro allI impI)
  fix s w es
  assume "I s es"
  then show "ensures_at (bindE m f) (s, w) (\<lambda>r es2 sw. J (fst sw) (es @ es2))"
  proof (rule ensures_at_bindI [OF maintainsD [OF assms(1)]], goal_cases)
    case (1 x es2 sw)
    then show ?case using assms(3) [of x, unfolded leads_def, rule_format, of "fst sw" "es @ es2" "snd sw"] by simp
  qed (auto intro: assms(2))
qed

lemma leads_get:
  "(\<And>s w es. I s es \<Longrightarrow> ensures_at (f s) (s, w) (\<lambda>r es2 sw. J (fst sw) (es @ es2))) \<Longrightarrow> leads I (bindE getE f) J"
  by (simp add: leads_def ensures_at_bind)

lemma leads_cond: "(b \<Longrightarrow> leads I m J) \<Longrightarrow> (\<not> b \<Longrightarrow> leads I m' J) \<Longrightarrow> leads I (if b then m else m') J"
  by simp

lemma leadsD: "leads I m J \<Longrightarrow> I s es \<Longrightarrow> ensures_at m (s, w) (\<lambda>r es2 sw. J (fst sw) (es @ es2))"
  by (simp add: leads_def)

section \<open>The kick of a round\<close>

lemma pace_kicked:
  assumes "pace_due c now fd v es" and "kicked_once fd es es2"
    and "g \<longleftrightarrow> c_Mode c = ''guarded''"
  shows "pace_now c now (set_detector fd (let d = (detector_of c v fd)\<lparr>d_LastKick := now\<rparr> in if g then Kicked d now else d) v)
    (es @ es2)"
  using assms tracks_kicked [of c "detector_of c v fd" "kick_times fd es" now]
  by (auto simp: pace_due_def pace_now_def pace_inv_def kicked_once_def detector_of_set paced_snoc Let_def)

lemma pace_rekick:
  assumes "g \<longleftrightarrow> c_Mode c = ''guarded''" and "pace_due c now fd v es"
    and "\<And>v'. v_detectors (rec v') = v_detectors (set_detector fd
           (let d = (detector_of c v' fd)\<lparr>d_LastKick := now\<rparr> in if g then Kicked d now else d) v')"
    and "maintains (pace_now c now) rest"
  shows "ensures_at (bindE (liftE (rekick_current h t fd s events)) (\<lambda>_. bindE (modE rec) (\<lambda>_. rest))) (v, w)
     (\<lambda>r es2 sw. pace_now c now (fst sw) (es @ es2))"
proof (rule ensures_at_bindI [where R = "\<lambda>r es2 sw. fst sw = v \<and> (if r = Ok () then kicked_once fd es es2 else list_all steady es2)"],
    goal_cases)
  case 1
  show ?case unfolding ensures_at_lift using rekick_current_kicks [of h t fd s events w es] by simp
next
  case (2 x es2 sw)
  then have "kicked_once fd es es2" by simp
  then have "pace_now c now (rec v) (es @ es2)"
    using pace_kicked [OF assms(2) _ assms(1)] by (simp only: pace_cong [OF assms(3)])
  then show ?case using 2 maintainsD [OF assms(4), of "rec v" "es @ es2" "snd sw"]
    by (cases sw) (simp add: ensures_at_rules)
qed (use assms(2) in \<open>auto simp: pace_calls pace_due_def\<close>)

lemma pace_refresh_events: "maintains (pace_due c now fd) (refresh_events h t remoteFD)"
  unfolding refresh_events_def
  by (intro maintains_intros pace_lift idle_calls pace_mod) simp

lemma kick_due_mode: "kick_due c d stalled now = (p, g, d') \<Longrightarrow> p \<or> g \<Longrightarrow> g \<longleftrightarrow> c_Mode c = ''guarded''"
  by (auto simp: kick_due_def Let_def split: if_splits prod.splits)

lemma record_kick_detectors:
  "v_detectors (record_kick c now fd g v) = v_detectors (set_detector fd
     (let d = (detector_of c v fd)\<lparr>d_LastKick := now\<rparr> in if g then Kicked d now else d) v)"
  by (simp add: record_kick_def Let_def)

lemma pace_kick_queue: "maintains (pace_now c now) (kick_queue h c t ctx now fd s row)"
  unfolding kick_queue_def
proof (rule maintains_bind_get, goal_cases)
  case (1 v w es)
  obtain periodic guarded d where kd: "kick_due c (detector_of c v fd) (row_Stalled row) now = (periodic, guarded, d)"
    by (metis prod_cases3)
  let ?v = "set_detector fd d v"
  have now: "pace_now c now ?v es" using 1 by (rule pace_set) (rule kick_due_policy(1) [OF _ _ kd])
  show ?case
  proof (cases "periodic \<or> guarded")
    case False
    then show ?thesis using now by (simp add: kd ensures_at_rules)
  next
    case due: True
    note mode = kick_due_mode [OF kd due]
    have "pace_due c now fd ?v es"
      using now 1 kick_due_policy(2) [OF _ _ kd due, of "kick_times fd es"]
      by (auto simp: pace_due_def pace_now_def pace_inv_def)
    then show ?thesis
    proof (unfold kd prod.case ensures_at_bind [of "modE _"] ensures_at_mod outcome.case append_Nil fst_conv snd_conv,
        rule leadsD [rotated], goal_cases)
      case 1
      show ?case
        by (intro leads_bind leads_cond leads_ret leads_get pace_lift maintains_intros pace_refresh_events traces_calls
            pace_rekick [OF mode _ record_kick_detectors] pace_log pace_mod) (use due in \<open>simp_all add: pace_due_def\<close>)
    qed
  qed
qed

section \<open>The rounds\<close>

lemma pace_setter:
  "(\<And>v ks. tracks c (detector_of c v fd) ks now \<Longrightarrow> tracks c (g v) ks now) \<Longrightarrow>
   maintains (pace_now c now) (modE (\<lambda>v. set_detector fd (g v) v))"
  by (intro maintains_mod pace_set) auto

lemma pace_take_snapshot: "maintains (pace_now c now) (take_snapshot h fd remoteFD)"
  unfolding take_snapshot_def by (intro maintains_intros pace_lift idle_calls pace_mod) simp_all

lemma pace_verify_kick: "maintains (pace_now c now) (verify_kick h c now fd row)"
  unfolding verify_kick_def by (intro maintains_intros pace_log pace_mod) simp_all

lemma maintains_conj: "maintains I m \<Longrightarrow> maintains J m \<Longrightarrow> maintains (\<lambda>s es. I s es \<and> J s es) m"
  by (auto simp: maintains_def intro: ensures_at_conj)

lemma pace_report_stall: "maintains (pace_now c now) (report_stall h c now fd row)"
  unfolding report_stall_def
proof (rule maintains_bind_get, goal_cases)
  case (1 v w es)
  let ?d = "detector_of c v fd"
  have "leads (\<lambda>(v' :: vars) es. pace_now c now v' es \<and> v_detectors v' = v_detectors v)
      (bindE (logV h ''stall'' fs) (\<lambda>_. modE (set_detector fd (?d\<lparr>d_Reported := True\<rparr>)))) (pace_now c now)" for fs
  proof (rule leads_bind)
    have same: "maintains (\<lambda>(v' :: vars) es. v_detectors v' = v_detectors v) (logV h ''stall'' fs)"
      unfolding logV_def by (intro maintains_intros maintains_lift [OF emit_idle] maintains_mod) simp_all
    show "maintains (\<lambda>(v' :: vars) es. pace_now c now v' es \<and> v_detectors v' = v_detectors v) (logV h ''stall'' fs)"
      by (rule maintains_conj [OF pace_log(2) same])
    have "pace_now c now (set_detector fd (?d\<lparr>d_Reported := True\<rparr>) v') es"
      if "pace_now c now v' es" "v_detectors v' = v_detectors v" for v' :: vars and es
      using that(1) detector_of_cong [OF that(2), of c] by (intro pace_set) simp_all
    then show "leads (\<lambda>(v' :: vars) es. pace_now c now v' es \<and> v_detectors v' = v_detectors v)
        (modE (set_detector fd (?d\<lparr>d_Reported := True\<rparr>))) (pace_now c now)" by (simp add: leads_def)
  qed auto
  then show ?case using 1 by (auto simp: Let_def dest: leadsD)
qed

lemma pace_get_set:
  assumes "\<And>v ks. tracks c (detector_of c v fd) ks now \<Longrightarrow> tracks c (g v) ks now" and "\<And>v. maintains (pace_now c now) (rest v)"
  shows "maintains (pace_now c now) (bindE getE (\<lambda>v. bindE (modE (set_detector fd (g v))) (\<lambda>_. rest v)))"
proof (rule maintains_bind_get, goal_cases)
  case (1 v w es)
  then have "pace_now c now (set_detector fd (g v) v) es" by (rule pace_set) (rule assms(1))
  then show ?case using maintainsD [OF assms(2)] by (simp add: ensures_at_rules)
qed

lemma pace_queue_row: "maintains (pace_now c now) (queue_row h c t b ctx now fd)"
  unfolding queue_row_def Let_def case_prod_unfold
  by (intro pace_get_set maintains_defer pace_setter maintains_bind pace_lift idle_calls traces_calls pace_take_snapshot
      pace_verify_kick pace_report_stall pace_check_log pace_kick_queue maintains_pure) simp_all

lemma pace_visit_queue: "maintains (pace_now c now) (visit_queue h c t b ctx now fd)"
proof -
  have "pace_now c now ((case map_of (v_detectors v) fd of
        Some d \<Rightarrow> set_detector fd (d\<lparr>d_Since := now, d_Reported := False\<rparr>) v | None \<Rightarrow> v)\<lparr>v_pending := p\<rparr>) es"
    if "pace_now c now v es" for v :: vars and es p
  proof (cases "map_of (v_detectors v) fd")
    case (Some d)
    then have "detector_of c v fd = d" by (simp add: detector_of_def)
    then have "pace_now c now (set_detector fd (d\<lparr>d_Since := now, d_Reported := False\<rparr>) v) es"
      using that by (intro pace_set) simp_all
    moreover have "v_detectors ((set_detector fd (d\<lparr>d_Since := now, d_Reported := False\<rparr>) v)\<lparr>v_pending := p\<rparr>) =
      v_detectors (set_detector fd (d\<lparr>d_Since := now, d_Reported := False\<rparr>) v)" by simp
    ultimately have "pace_now c now ((set_detector fd (d\<lparr>d_Since := now, d_Reported := False\<rparr>) v)\<lparr>v_pending := p\<rparr>) es"
      by (rule iffD2 [OF pace_cong(2), rotated])
    then show ?thesis using Some by simp
  next
    case None
    then show ?thesis using iffD2 [OF pace_cong(2) that, of "v\<lparr>v_pending := p\<rparr>"] by simp
  qed
  then show ?thesis unfolding visit_queue_def
    by (intro maintains_intros pace_queue_row pace_log pace_check_log pace_mod maintains_mod) simp_all
qed

lemma scan_now_step: "sc_now (scan_step e sc) = (case clock_reading e of Some t \<Rightarrow> t | None \<Rightarrow> sc_now sc)"
  by (cases "(e, sc)" rule: scan_step.cases) auto

lemma pace_clock:
  assumes "pace_inv c v es"
  shows "ensures_at (liftE (monotonic h)) (v, w) (\<lambda>r es2 sw. fst sw = v \<and> pace_inv c v (es @ es2) \<and>
    (\<forall>now. r = Ok now \<longrightarrow> pace_now c now v (es @ es2)))"
proof -
  have "pace_inv c v (es @ [EClock (Inl e)])" for e
    using assms by (simp add: pace_inv_def scan_calls_append kick_times_def clock_readings_append)
      (simp add: clock_readings_def map_filter_def)
  moreover have "pace_now c (seconds ts) v (es @ [EClock (Inr ts)])" for ts
  proof -
    have r: "clock_readings (es @ [EClock (Inr ts)]) = clock_readings es @ [seconds ts]"
      by (simp add: clock_readings_def map_filter_def)
    have k: "kick_times fd (es @ [EClock (Inr ts)]) = kick_times fd es" for fd
      by (simp add: kick_times_def scan_calls_append)
    have "sc_now (scan_calls es) = NInf \<or> sc_now (scan_calls es) \<in> set (clock_readings es)"
    proof (induction es rule: rev_induct)
      case (snoc e es)
      then show ?case
        by (cases "clock_reading e") (auto simp: scan_calls_append clock_readings_append scan_now_step, auto simp: clock_readings_def map_filter_def)
    qed (simp add: scan_calls_def)
    then have le: "f64_le (sc_now (scan_calls es)) (seconds ts)" if "clock_ok (clock_readings es @ [seconds ts])"
      using that is_fin_not_NaN by (auto simp: clock_ok_snoc)
    show ?thesis using assms tracks_later [OF _ le] le
      by (auto simp: pace_now_def pace_inv_def r k scan_calls_append) (auto simp: clock_ok_snoc)
  qed
  ultimately show ?thesis by (auto simp: ensures_at_lift ensures_at_clock pace_now_def split: prod.split sum.split)
qed

lemma pace_from_clock:
  assumes "\<And>now. maintains (pace_now c now) (f now)"
  shows "maintains (pace_inv c) (bindE (liftE (monotonic h)) f)"
  unfolding maintains_def
proof (intro allI impI, goal_cases)
  case init: (1 v w es)
  then show ?case
  proof (rule ensures_at_bindI [OF pace_clock], goal_cases)
    case (1 now es1 sw)
    then have "ensures_at (f now) (v, snd sw) (\<lambda>r es2 sw. pace_now c now (fst sw) ((es @ es1) @ es2))"
      using maintainsD [OF assms] by blast
    then show ?case using 1 by (cases sw) (auto simp: pace_now_def elim: ensures_at_mono)
  qed auto
qed

lemma pace_round_steps:
  "maintains (pace_now c now) (refresh_inventory h c t now)" "maintains (pace_now c now) (forget_gone h seen)"
  "maintains (pace_now c now) (summarise h c now)"
  unfolding refresh_inventory_def forget_gone_def summarise_def
  by (intro maintains_intros pace_lift idle_calls pace_mod pace_log; simp)+

lemma pace_run_loop: "maintains (pace_inv c) (run_loop n h c t b ctx started)"
proof (induction n)
  case (Suc n)
  have "maintains (pace_inv c) (run_tick h c t b ctx started)" unfolding run_tick_def
    by (intro pace_from_clock pace_lift idle_calls traces_calls pace_log pace_check_log pace_round_steps pace_visit_queue pace_mod
        maintains_intros) simp_all
  with Suc show ?case by (auto intro!: maintains_intros)
qed (simp add: maintains_pure)

section \<open>The batched rounds\<close>

lemma leads_rekick:
  assumes "g \<longleftrightarrow> c_Mode c = ''guarded''"
    and "\<And>v. v_detectors (rec v) = v_detectors (set_detector fd
           (let d = (detector_of c v fd)\<lparr>d_LastKick := now\<rparr> in if g then Kicked d now else d) v)"
    and "maintains (pace_now c now) rest"
  shows "leads (pace_due c now fd) (bindE (liftE (rekick_current h t fd s events)) (\<lambda>_. bindE (modE rec) (\<lambda>_. rest))) (pace_now c now)"
  using pace_rekick [OF assms(1) _ assms(2,3)] by (simp add: leads_def)

lemma pace_recover_queue:
  assumes "c_Mode c = ''guarded''"
  shows "maintains (pace_now c now) (recover_queue h c t ctx now i fd s row)"
  unfolding recover_queue_def
proof (rule maintains_bind, goal_cases)
  case 1
  show ?case unfolding report_batched_def by (intro maintains_intros pace_log pace_mod) (simp add: update_queue_def)
next
  case 2
  show ?case
  proof (rule maintains_bind_get, goal_cases)
    case (1 v w es)
    obtain allowed d where a: "Allowed (detector_of c v fd) now = (allowed, d)" by fastforce
    let ?v = "set_detector fd d v"
    have T: "tracks c d ks now \<and> (allowed \<longleftrightarrow> policy_ok c ks now)" if "tracks c (detector_of c v fd) ks now" "is_fin now" for ks
      using tracks_Allowed [OF that(1) _ that(2) assms] that(2) a by (auto elim: is_finE)
    have now: "pace_now c now ?v es" using 1 by (rule pace_set) (use T in blast)
    show ?case
    proof (cases allowed)
      case False
      then show ?thesis using now by (simp add: a ensures_at_rules)
    next
      case True
      then have due: "pace_due c now fd ?v es"
        using now 1 T by (auto simp: pace_due_def pace_now_def pace_inv_def)
      have rec: "v_detectors ((set_detector fd (Kicked (detector_of c v' fd) now) v')\<lparr>bv_writes := n\<rparr>) =
          v_detectors (set_detector fd (let d = (detector_of c v' fd)\<lparr>d_LastKick := now\<rparr> in if True then Kicked d now else d) v')"
        for v' n by (simp add: Kicked_def)
      from due show ?thesis
      proof (unfold a prod.case ensures_at_bind [of "modE _"] ensures_at_mod outcome.case append_Nil fst_conv snd_conv,
          rule leadsD [rotated], goal_cases)
        case 1
        have mode: "True \<longleftrightarrow> c_Mode c = ''guarded''" using assms by simp
        show ?case unfolding case_prod_unfold
          by (intro leads_rekick [OF mode] leads_bind leads_cond leads_ret pace_lift maintains_intros traces_calls idle_calls pace_log pace_mod rec)
            (use True in \<open>simp_all add: pace_due_def update_queue_def\<close>)
      qed
    qed
  qed
qed

lemma update_queue_detectors [simp]: "v_detectors (update_queue i f v) = v_detectors v"
  by (simp add: update_queue_def)

lemma pace_discover: "maintains (pace_now c now) (discover_queues h c t now)"
proof -
  have "maintains (pace_now c now) (rediscover h c t fd acc)" for fd acc unfolding rediscover_def
    by (intro maintains_intros pace_lift idle_calls pace_log pace_mod pace_setter) simp_all
  then show ?thesis unfolding discover_queues_def
    by (intro maintains_intros pace_lift idle_calls pace_log pace_mod) simp_all
qed

lemma pace_poll_batch:
  assumes "c_Mode c = ''guarded''"
  shows "maintains (pace_now c now) (poll_batch h c t ctx now)"
proof -
  have v: "maintains (pace_now c now) (verify_batched h c now i row)" for i row
    unfolding verify_batched_def by (intro maintains_intros pace_log pace_mod) simp_all
  have "maintains (pace_now c now) (confirm_queue h c t ctx now i used ready)" for i used ready
    unfolding confirm_queue_def
    by (intro maintains_intros pace_lift idle_calls v pace_log pace_mod pace_recover_queue assms) simp_all
  then show ?thesis unfolding poll_batch_def poll_queue_def
    by (intro maintains_intros pace_lift idle_calls pace_log pace_mod) simp_all
qed

lemma pace_batched_loop:
  assumes "c_Mode c = ''guarded''"
  shows "maintains (pace_inv c) (batched_loop n h c t ctx started)"
proof (induction n)
  case (Suc n)
  have "maintains (pace_now c now) (summarise_batched h c t now)" for now
    unfolding summarise_batched_def summary_row_def by (intro maintains_intros pace_lift idle_calls pace_log pace_mod) simp_all
  then have "maintains (pace_inv c) (batched_tick h c t ctx started)" unfolding batched_tick_def
    by (intro pace_from_clock pace_lift idle_calls traces_calls pace_log pace_check_log pace_discover pace_poll_batch
        maintains_intros assms) simp_all
  with Suc show ?case by (auto intro!: maintains_intros)
qed (simp add: maintains_pure)

section \<open>Whole runs\<close>

definition paced_calls :: "'c Config \<Rightarrow> event list \<Rightarrow> bool" where
  "paced_calls c es \<longleftrightarrow> (clock_ok (clock_readings es) \<longrightarrow> (\<forall>fd. paced c (kick_times fd es) \<and> list_all is_fin (kick_times fd es)))"

text \<open>After calls that are no part of a round.\<close>

definition paced_after :: "'c Config \<Rightarrow> (event, 'w, 'a) io \<Rightarrow> bool" where
  "paced_after c m \<longleftrightarrow> (\<forall>w es. list_all idle es \<longrightarrow> ensures_at m w (\<lambda>r es2 w'. paced_calls c (es @ es2)))"

lemma list_idle_steady: "list_all idle es \<Longrightarrow> list_all steady es"
  by (erule list.pred_mono_strong) (rule idle_steady)

lemma idle_no_kicks: "list_all idle es \<Longrightarrow> kick_times fd es = []"
  using steady_calls(2) [OF list_idle_steady, of es fd "[]"] by simp (simp add: kick_times_def scan_calls_def)

lemma idle_calls_paced: "list_all idle es \<Longrightarrow> paced_calls c es"
  by (simp add: paced_calls_def idle_no_kicks)

lemma paced_after_idle: "traces (list_all idle) m \<Longrightarrow> paced_after c m"
  by (auto simp: paced_after_def traces_if_def idle_calls_paced intro: ensures_at_mono)

lemma paced_after_bind:
  assumes "traces (list_all idle) m" and "\<And>x. paced_after c (f x)"
  shows "paced_after c (bindE m f)"
  unfolding paced_after_def
proof (intro allI impI, goal_cases)
  case start: (1 w es)
  have m: "ensures_at m w (\<lambda>r es1 w'. list_all idle es1)" using assms(1) by (simp add: traces_if_def)
  show ?case
  proof (rule ensures_at_bindI [OF m], goal_cases)
    case (1 x es1 w1)
    then show ?case using assms(2) [of x, unfolded paced_after_def, rule_format, of "es @ es1" w1] start by simp
  qed (use start in \<open>auto intro: idle_calls_paced\<close>)
qed

lemma paced_calls_idle: "paced_calls c es \<Longrightarrow> list_all idle es' \<Longrightarrow> paced_calls c (es @ es')"
  by (simp add: paced_calls_def steady_calls [OF list_idle_steady])

lemma paced_after_defer:
  assumes "paced_after c m" and "traces (list_all idle) d"
  shows "paced_after c (deferE m d)"
  unfolding paced_after_def
proof (intro allI impI, goal_cases)
  case start: (1 w es)
  then have m: "ensures_at m w (\<lambda>r es1 w'. paced_calls c (es @ es1))" using assms(1) by (simp add: paced_after_def)
  have d: "ensures_at d w1 (\<lambda>r es2 w'. list_all idle es2)" for w1 using assms(2) by (simp add: traces_if_def)
  show ?case
    by (rule ensures_at_deferI [OF m]) (auto simp: paced_calls_idle simp flip: append_assoc intro: ensures_at_mono [OF d])
qed

lemma pace_inv_start:
  assumes "c_Cooldown c \<noteq> NaN" and "v_detectors v = []" and "list_all idle es"
  shows "pace_inv c v es"
  unfolding pace_inv_def idle_no_kicks [OF assms(3)] by (simp add: detector_of_def assms(2) tracks_new [OF assms(1)])

lemma pace_inv_calls: "pace_inv c v es \<Longrightarrow> paced_calls c es"
  by (auto simp: pace_inv_def paced_calls_def tracks_def)

lemma paced_after_loop:
  assumes "\<And>started. maintains (pace_inv c) (m started)" and "c_Cooldown c \<noteq> NaN" and "v_detectors v = []"
  shows "paced_after c (bindE (monotonic h) (\<lambda>started. localE v (m started)))"
  unfolding paced_after_def
proof (intro allI impI, goal_cases)
  case start: (1 w es)
  have "pace_inv c v es" by (rule pace_inv_start [OF assms(2,3) start])
  then have clk: "ensures_at (monotonic h) w (\<lambda>r es1 w'. pace_inv c v (es @ es1))"
    using pace_clock [of c v es h w] by (auto simp: ensures_at_lift elim: ensures_at_mono)
  show ?case
  proof (rule ensures_at_bindI [OF clk], goal_cases)
    case (1 started es1 w1)
    show ?case unfolding ensures_at_local
      by (rule ensures_at_mono [OF maintainsD [OF assms(1) 1]]) (use pace_inv_calls in simp)
  qed (auto intro: pace_inv_calls)
qed

lemma paced_watch:
  assumes "\<not> c_Rescue c" and "c_Cooldown c \<noteq> NaN" and "c_BatchRings c \<longrightarrow> c_Mode c = ''guarded''"
  shows "paced_after c (watch n h c ctx t b)"
proof -
  have "paced_after c (run_queues n h c t b ctx l)" for l unfolding run_queues_def
    by (intro paced_after_loop maintains_intros pace_run_loop pace_log assms) (simp add: init_vars_def)
  moreover have "paced_after c (runBatched n h c t ctx l)" if "c_BatchRings c" for l unfolding runBatched_def
    using that assms by (intro paced_after_loop maintains_intros pace_batched_loop pace_log) (auto simp: init_bvars_def)
  ultimately show ?thesis unfolding watch_def using assms(1)
    by (auto simp: Let_def intro!: paced_after_bind emit_idle traces_calls)
qed

lemma Config_Validate_ok:
  "Config_Validate c = None \<Longrightarrow> c_Cooldown c \<noteq> NaN \<and> (c_BatchRings c \<longrightarrow> c_Mode c = ''guarded'')"
  by (auto simp: Config_Validate_def bad_seconds_def split: if_splits)

lemma paced_run:
  assumes "\<not> c_Rescue c" and "identity_check (list_all idle) c"
  shows "paced_after c (run n h eb c ctx shared)"
proof (cases "Config_Validate c")
  case (Some e)
  then show ?thesis unfolding run_def by (intro paced_after_idle) (simp add: checkE_def every_call.fail)
next
  case None
  note ok = Config_Validate_ok [OF None]
  have check: "traces (list_all idle) (case c_CheckIdentity c of None \<Rightarrow> retE () | Some check \<Rightarrow> check)"
    using assms(2) by (auto intro: every_call.ret split: option.splits)
  have "paced_after c (run_attached n h eb c ctx shared t)" for t unfolding run_attached_def
    using paced_watch [OF assms(1)] ok
    by (intro paced_after_bind [OF check]) (auto intro!: paced_after_bind [OF OpenBPF_idle] paced_after_defer BPF_Close_idle split: option.split)
  then have "paced_after c (run_target n h eb c ctx shared)" unfolding run_target_def Target_Close_def
    by (intro paced_after_bind paced_after_defer OpenTarget_idle traces_calls) auto
  then show ?thesis unfolding run_def using assms(1)
    by (auto intro!: paced_after_bind paced_after_defer every_call.intros paced_after_idle [OF every_call.fail] traces_calls split: sum.split)
qed

text \<open>
  C1. The agent keeps its policy over whole runs, however long: when the readings of the monotonic clock never
  go back, the kicks of every descriptor slot follow the mode of the configuration.  In the guarded mode each comes
  at least the cooldown after the one before and never exceeds the hourly budget; in the periodic mode each comes at least the kick
  interval after the one before; in the observe mode there is none.
\<close>

theorem kicks_keep_policy:
  assumes "run n h eb c ctx shared w = (r, es, w')" and "\<not> c_Rescue c" and "identity_check (list_all idle) c"
    and "clock_ok (clock_readings es)"
  shows "paced c (kick_times fd es)"
  using paced_run [OF assms(2,3), of n h eb ctx shared] assms(1,4)
  by (auto simp: paced_after_def paced_calls_def ensures_at_def dest!: spec [of _ w] spec [of _ "[]"])

lemma cancelled_clock: "\<exists>es. cancelled_qemu qemu_config = (Ok (), es, ()) \<and> clock_ok (clock_readings es)"
  using qemu_cancelled
  by (auto simp: clock_readings_def map_filter_def clock_ok_def seconds_def f64_of_int_def time_Second_def)

theorem kicks_keep_policy_witness:
  "\<exists>es. cancelled_qemu qemu_config = (Ok (), es, ()) \<and> paced qemu_config (kick_times 42 es)"
proof -
  obtain es where r: "cancelled_qemu qemu_config = (Ok (), es, ())" and c: "clock_ok (clock_readings es)"
    using cancelled_clock by blast
  show ?thesis using r kicks_keep_policy [OF r _ _ c, of 42] by (simp add: qemu_config_run)
qed

end
