(* ===== verification/Confirmation.thy ===== *)
theory Confirmation
  imports Agent
begin

text \<open>
  The batched loop confirms a suspected stall twice: whatever the memory of QEMU seemed to show, a queue is kicked only
  after two readings of its live state, at different times, that both show the same unserved backlog.
\<close>

section \<open>Live readings\<close>

text \<open>
  The calls of one reading of a slot that found it stuck: the slot is pinned, a snapshot is taken, the indices of the
  ring are read, and they show a consistent backlog that no worker of vhost is serving.
\<close>

definition stuck_reading :: "Target \<Rightarrow> int \<Rightarrow> Snapshot \<Rightarrow> u16 \<Rightarrow> event list \<Rightarrow> bool" where
  "stuck_reading t fd s used es \<longleftrightarrow>
    (\<exists>f data. es = EPidfdGetfd (t_pidfd t) fd (Inr f) # snapshot_events f s @
         [EProcessVMReadv (t_PID t) (ring_iovecs s) (Inr data), EClose f] \<and> Validate s = None \<and> length data = 4 \<and>
       (let avail = le16 (data ! 0) (data ! 1); pending = avail - sn_LastAvail s in
          le16 (data ! 2) (data ! 3) = used \<and> pending \<noteq> 0 \<and> ucast pending \<le> sn_Num s \<and> ucast (avail - used) \<le> sn_Num s \<and>
          \<not> work_queued s))"

definition seen_stuck :: "Target \<Rightarrow> int \<Rightarrow> Snapshot \<Rightarrow> u16 \<Rightarrow> event list \<Rightarrow> bool" where
  "seen_stuck t fd s used es \<longleftrightarrow> (\<exists>e1 l e2. es = e1 @ l @ e2 \<and> stuck_reading t fd s used l)"

text \<open>Two readings, one after the other, of the same queue with nothing consumed and nothing used in between.\<close>

definition confirmed_stuck :: "Target \<Rightarrow> int \<Rightarrow> Snapshot \<Rightarrow> event list \<Rightarrow> bool" where
  "confirmed_stuck t fd s es \<longleftrightarrow>
    (\<exists>e1 l e2 s1 used. es = e1 @ l @ e2 \<and> seen_stuck t fd s1 used e1 \<and> stuck_reading t fd s used l \<and>
       Identity s1 = Identity s \<and> sn_LastAvail s1 = sn_LastAvail s)"

text \<open>
  The calls of a worker all of whose kicks are confirmed: a write occurs only in a verified kick, through a fresh pin of
  the slot, of a queue that was confirmed to be stuck.
\<close>

inductive confirmed_kicks :: "Target \<Rightarrow> event list \<Rightarrow> bool" for t where
  none: "confirmed_kicks t []"
| other: "confirmed_kicks t es \<Longrightarrow> quiet e \<Longrightarrow> confirmed_kicks t (es @ [e])"
| kick: "confirmed_kicks t es \<Longrightarrow> confirmed_stuck t fd s es \<Longrightarrow> verified_kick (t_pidfd t) vhostFD s m res k \<Longrightarrow>
    confirmed_kicks t (es @ EPidfdGetfd (t_pidfd t) fd (Inr vhostFD) # k)"

lemma confirmed_quiet: "confirmed_kicks t es \<Longrightarrow> list_all quiet es' \<Longrightarrow> confirmed_kicks t (es @ es')"
proof (induction es' rule: rev_induct)
  case (snoc e es')
  then show ?case using confirmed_kicks.other [of t "es @ es'" e] by simp
qed simp

lemma seen_stuck_append: "seen_stuck t fd s used es \<Longrightarrow> seen_stuck t fd s used (es @ es')"
  unfolding seen_stuck_def by (metis append.assoc)

lemma confirmed_stuck_append: "confirmed_stuck t fd s es \<Longrightarrow> confirmed_stuck t fd s (es @ es')"
  unfolding confirmed_stuck_def by (metis append.assoc)

lemma liveRow_OkD:
  assumes "liveRow h t fd w = (Ok (s, row), es, w')" and "live_stuck used s row"
  shows "stuck_reading t fd s used es \<and> row_Used row = used"
proof -
  from assms(1) obtain f es1 w1 es2 where d: "Duplicate h t fd w = (Ok f, es1, w1)" and es: "es = es1 @ es2"
    and r: "deferE (bindE (BPF_Snapshot h f) (\<lambda>s.
       bindE (Ring h t s) (\<lambda>(avail, used).
       retE (s, \<lparr>row_VhostFD = fd, row_EventID = sn_EventID s, row_Num = sn_Num s, row_Avail = avail,
         row_Used = used, row_Consumed = sn_LastAvail s, row_Pending = avail - sn_LastAvail s,
         row_Outstanding = avail - used, row_Stalled = False, row_Busy = work_queued s, row_Stages = zero_Counters\<rparr>))))
      (Close h f) w1 = (Ok (s, row), es2, w')"
    unfolding liveRow_def by (elim bindE_OkE)
  from r obtain es3 w2 avail used' where s: "BPF_Snapshot h f w1 = (Ok s, es3, w2)" and
    q: "\<exists>w3 es4. Ring h t s w2 = (Ok (avail, used'), es4, w3) \<and> es2 = es3 @ es4 @ [EClose f]"
    and row: "row_Used row = used'" "row_Pending row = avail - sn_LastAvail s" "row_Outstanding row = avail - used'"
      "row_Busy row = work_queued s"
    by (elim deferE_OkE bindE_OkE) (auto simp: retE_def callU_def)
  have v: "es3 = snapshot_events f s" "Validate s = None" using Snapshot_spec [of h f w1] s by (auto simp: ensures_at_def)
  from q obtain data where "es2 = es3 @ [EProcessVMReadv (t_PID t) (ring_iovecs s) (Inr data), EClose f]" and l: "length data = 4"
    and "avail = le16 (data ! 0) (data ! 1)" "used' = le16 (data ! 2) (data ! 3)"
    unfolding Ring_def by (auto elim!: bindE_OkE dest!: callE_OkE simp: retE_def failE_def split: if_splits)
  moreover have "es1 = [EPidfdGetfd (t_pidfd t) fd (Inr f)]" using callE_OkE [OF d [unfolded Duplicate_def]] .
  ultimately show ?thesis unfolding stuck_reading_def using assms(2) v row es by (auto simp: live_stuck_def Let_def not_less)
qed


section \<open>The invariant\<close>

text \<open>
  Every candidate of a queue is a reading of its slot in the calls so far.  \<open>F\<close> are the slots of the queues, \<open>X\<close> is
  what else is known of the calls; it only grows with them.
\<close>

definition candidate_seen :: "Target \<Rightarrow> event list \<Rightarrow> batchedQueue \<Rightarrow> bool" where
  "candidate_seen t es q \<longleftrightarrow> (\<forall>lc. q_candidate q = Some lc \<longrightarrow> seen_stuck t (q_fd q) (lc_snapshot lc) (lc_used lc) es)"

definition confirming :: "Target \<Rightarrow> (int list \<Rightarrow> bool) \<Rightarrow> (event list \<Rightarrow> bool) \<Rightarrow> bvars \<Rightarrow> event list \<Rightarrow> bool" where
  "confirming t F X v es \<longleftrightarrow> confirmed_kicks t es \<and> list_all (candidate_seen t es) (bv_queues v) \<and> F (map q_fd (bv_queues v)) \<and> X es"

abbreviation always :: "'a \<Rightarrow> bool" where
  "always \<equiv> \<lambda>_. True"

definition growing :: "(event list \<Rightarrow> bool) \<Rightarrow> bool" where
  "growing X \<longleftrightarrow> (\<forall>es es'. X es \<longrightarrow> X (es @ es'))"

lemma candidate_seen_append: "candidate_seen t es q \<Longrightarrow> candidate_seen t (es @ es') q"
  by (auto simp: candidate_seen_def intro: seen_stuck_append)

lemma confirming_quiet: "confirming t F X v es \<Longrightarrow> growing X \<Longrightarrow> list_all quiet es' \<Longrightarrow> confirming t F X v (es @ es')"
  by (auto simp: confirming_def growing_def intro: confirmed_quiet candidate_seen_append elim: list.pred_mono_strong)

lemma confirming_lift: "traces (list_all quiet) m \<Longrightarrow> growing X \<Longrightarrow> maintains (confirming t F X) (liftE m)"
  by (rule maintains_lift [where q = quiet]) (auto intro: confirming_quiet)

lemma confirming_same:
  "(\<And>v. bv_queues (f v) = bv_queues v) \<Longrightarrow> maintains (confirming t F X) (modE f)"
  by (rule maintains_mod) (simp add: confirming_def)

lemma confirming_log: "growing X \<Longrightarrow> maintains (confirming t F X) (logV h ev fs)"
  unfolding logV_def by (intro maintains_intros confirming_lift emit_quiet confirming_same) simp_all

text \<open>An update of a queue that stays in its slot and keeps its candidate or drops it.\<close>

lemma map_list_update_same: "f y = f (xs ! i) \<Longrightarrow> map f (xs[i := y]) = map f xs"
  by (cases "i < length xs") (simp_all add: map_update list_update_beyond, metis list_update_id map_update nth_map)

lemma confirming_updated:
  assumes c: "confirming t F X v es" and "\<And>q. q_fd (f q) = q_fd q"
    and "i < length (bv_queues v) \<Longrightarrow> candidate_seen t es (bv_queues v ! i) \<Longrightarrow> candidate_seen t es (f (bv_queues v ! i))"
  shows "confirming t F X (update_queue i f v) es"
proof -
  let ?q = "bv_queues v ! i"
  have "list_all (candidate_seen t es) ((bv_queues v)[i := f ?q])"
  proof (cases "i < length (bv_queues v)")
    case True
    then have "candidate_seen t es (f ?q)" using c assms(3) by (simp add: confirming_def list_all_length)
    then show ?thesis using c by (auto simp: confirming_def list_all_iff dest!: set_update_subset_insert [THEN subsetD])
  qed (use c in \<open>simp add: confirming_def list_update_beyond\<close>)
  then show ?thesis using c assms(2) by (simp add: confirming_def update_queue_def map_list_update_same)
qed

lemma confirming_update:
  assumes "\<And>q. q_fd (f q) = q_fd q" and "\<And>q. q_candidate (f q) \<in> {None, q_candidate q}"
  shows "maintains (confirming t F X) (modE (update_queue i f))"
proof (rule maintains_mod)
  fix v es
  assume "confirming t F X v es"
  moreover have "candidate_seen t es (f q)" if "candidate_seen t es q" for q
    using that assms(1,2) [of q] by (auto simp: candidate_seen_def)
  ultimately show "confirming t F X (update_queue i f v) es" using assms(1) by (intro confirming_updated)
qed

section \<open>Confirming a queue\<close>

lemma verify_batched_confirming: "growing X \<Longrightarrow> maintains (confirming t F X) (verify_batched h c now i row)"
  unfolding verify_batched_def by (intro maintains_intros confirming_log confirming_update) simp_all

lemma rekick_confirming:
  assumes "growing X" and "\<And>es. X es \<Longrightarrow> confirmed_stuck t fd s es"
  shows "maintains (confirming t F X) (liftE (rekick_current h t fd s events))"
proof -
  have r: "ensures_at (rekick_current h t fd s events) w (\<lambda>r es2 w'. confirmed_kicks t (es @ es2))"
    if k: "confirmed_kicks t es" "confirmed_stuck t fd s es" for es w
    unfolding rekick_current_def
  proof (rule ensures_at_bindI [where R = "\<lambda>r es2 w'. es2 = [EPidfdGetfd (t_pidfd t) fd (case r of Ok f \<Rightarrow> Inr f | Err e \<Rightarrow> Inl e)]"],
      goal_cases)
    case 1
    show ?case by (auto simp: Duplicate_def ensures_at_callE split: prod.split sum.split)
  next
    case (2 f es2 w1)
    have a: "ensures_at (attempt (Rekick h (recovery_of h t) (BPF_Snapshot h) f s events)) w1
        (\<lambda>r es3 w'. confirmed_kicks t ((es @ es2) @ es3))"
      unfolding ensures_at_attempt
    proof (rule ensures_at_mono [OF Rekick_spec], goal_cases)
      case (1 r es3 w')
      then have "list_all quiet es3 \<or> (\<exists>m res. verified_kick (t_pidfd t) f s m res es3)"
        by (auto simp: kick_outcome_def split: if_splits)
      moreover have "confirmed_kicks t (es @ es2)" using k(1) 2 by (intro confirmed_quiet) simp_all
      ultimately show ?case using 2 confirmed_kicks.kick [OF k, of f _ _ es3] confirmed_quiet [of t "es @ es2" es3] by auto
    qed
    show ?case
    proof (rule ensures_at_bindI [OF a], goal_cases)
      case (1 x es3 w2)
      then have "confirmed_kicks t (((es @ es2) @ es3) @ [EClose f])" by (rule confirmed_quiet) simp
      then show ?case by (cases x) (simp_all add: ensures_at_bind ensures_at_callU)
    qed simp_all
  qed (use k in \<open>auto intro: confirmed_quiet\<close>)
  show ?thesis unfolding maintains_def
  proof (intro allI impI)
    fix v w es
    assume c: "confirming t F X v es"
    then have "confirmed_kicks t es" "confirmed_stuck t fd s es" using assms(2) by (auto simp: confirming_def)
    from r [OF this] show "ensures_at (liftE (rekick_current h t fd s events)) (v, w) (\<lambda>r es2 sw. confirming t F X (fst sw) (es @ es2))"
      unfolding ensures_at_lift
    proof (rule ensures_at_mono, goal_cases)
      case (1 r es2 w')
      moreover have "list_all (candidate_seen t (es @ es2)) (bv_queues v)" using c
        by (auto simp: confirming_def intro: candidate_seen_append elim: list.pred_mono_strong)
      ultimately show ?case using c assms(1) by (simp add: confirming_def growing_def)
    qed
  qed
qed


lemma recover_queue_confirming:
  assumes "growing X" and "\<And>es. X es \<Longrightarrow> confirmed_stuck t fd s es"
  shows "maintains (confirming t F X) (recover_queue h c t ctx now i fd s row)"
  unfolding recover_queue_def report_batched_def
  by (intro maintains_intros confirming_log confirming_lift rekick_confirming confirming_update Inventory_quiet
      confirming_same traces_calls assms) (simp_all add: set_detector_def)

lemma candidate_confirming:
  assumes "i < length slots" and "\<And>es. X es \<Longrightarrow> seen_stuck t (slots ! i) s used es"
  shows "maintains (confirming t ((=) slots) X) (modE (update_queue i (\<lambda>q. q\<lparr>q_candidate := Some \<lparr>lc_snapshot = s, lc_used = used\<rparr>\<rparr>)))"
proof (rule maintains_mod)
  fix v es
  assume c: "confirming t ((=) slots) X v es"
  then have "i < length (bv_queues v)" "q_fd (bv_queues v ! i) = slots ! i" "X es" using assms(1) by (auto simp: confirming_def)
  with c assms(2) show "confirming t ((=) slots) X (update_queue i (\<lambda>q. q\<lparr>q_candidate := Some \<lparr>lc_snapshot = s, lc_used = used\<rparr>\<rparr>) v) es"
    by (intro confirming_updated) (simp_all add: candidate_seen_def)
qed

lemma confirm_queue_confirming:
  assumes "i < length slots"
  shows "maintains (confirming t ((=) slots) always) (confirm_queue h c t ctx now i used ready)"
  unfolding confirm_queue_def
proof (rule maintains_bind_get, unfold Let_def, goal_cases)
  case (1 v w es)
  let ?q = "bv_queues v ! i"
  have q: "candidate_seen t es ?q" "q_fd ?q = slots ! i" using 1 assms by (auto simp: confirming_def list_all_length)
  show ?case
  proof (rule ensures_at_bindI [where R = "\<lambda>r es2 sw. fst sw = v \<and> list_all quiet es2 \<and>
      (\<forall>s row used. r = Ok (s, row) \<longrightarrow> live_stuck used s row \<longrightarrow> stuck_reading t (slots ! i) s used es2 \<and> row_Used row = used)"],
      goal_cases)
    case 1
    have "ensures_at (liveRow h t (slots ! i)) w (\<lambda>r es2 w'. list_all quiet es2)"
      using liveRow_quiet [of h t "slots ! i"] by (simp add: traces_if_def)
    then show ?case unfolding q(2) ensures_at_lift by (auto simp: ensures_at_def dest!: liveRow_OkD split: prod.splits)
  next
    case (2 x es2 sw)
    obtain s row where x: "x = (s, row)" by fastforce
    let ?X = "\<lambda>es. (live_stuck used s row \<longrightarrow> seen_stuck t (slots ! i) s used es \<and> row_Used row = used) \<and>
       (\<forall>lc. q_candidate ?q = Some lc \<longrightarrow> live_stuck used s row \<longrightarrow> Identity (lc_snapshot lc) = Identity s \<longrightarrow> lc_used lc = used \<longrightarrow>
          sn_LastAvail (lc_snapshot lc) = sn_LastAvail s \<longrightarrow> confirmed_stuck t (slots ! i) s es)"
    have g: "growing ?X" by (auto simp: growing_def intro: seen_stuck_append confirmed_stuck_append)
    have "?X (es @ es2)"
      using 2 q x unfolding seen_stuck_def confirmed_stuck_def candidate_seen_def by (metis append_Nil2)
    then have c: "confirming t ((=) slots) ?X (fst sw) (es @ es2)"
      using 1 2 confirming_quiet [OF 1, of es2] by (simp add: confirming_def growing_def)
    have m: "maintains (confirming t ((=) slots) ?X)
      (if Identity s \<noteq> Identity (q_snapshot ?q) then failE (ErrorString ''queue identity changed during cached ring polling'')
       else bindE (verify_batched h c now i row) (\<lambda>_.
         if \<not> ready then retE ()
         else if \<not> live_stuck used s row then modE (update_queue i (restart_queue now))
         else (case q_candidate ?q of
             None \<Rightarrow>
               bindE (modE (update_queue i (\<lambda>q. q\<lparr>q_candidate := Some \<lparr>lc_snapshot = s, lc_used = row_Used row\<rparr>\<rparr>))) (\<lambda>_.
               logV h ''candidate'' (row_fields row))
           | Some previous \<Rightarrow>
               if Identity (lc_snapshot previous) \<noteq> Identity s \<or> lc_used previous \<noteq> row_Used row \<or>
                  sn_LastAvail (lc_snapshot previous) \<noteq> sn_LastAvail s
               then modE (update_queue i (restart_queue now))
               else recover_queue h c t ctx now i (slots ! i) s (row\<lparr>row_Stalled := True\<rparr>))))"
      using assms
      by (intro maintains_intros verify_batched_confirming confirming_update candidate_confirming confirming_log
          recover_queue_confirming g) (auto simp: restart_queue_def)
    show ?case using maintainsD [OF m c, of "snd sw"] unfolding x prod.case q(2)
      by (auto simp: confirming_def elim!: ensures_at_mono)
  qed (use 1 in \<open>auto simp: growing_def intro: confirming_quiet\<close>)
qed


section \<open>The loop\<close>

lemma confirming_reset:
  "maintains (confirming t F X) (modE (\<lambda>v. (update_queue i (reset_queue now) v)\<lparr>bv_lastInventory := x\<rparr>))"
proof -
  have "maintains (confirming t F X) (modE (update_queue i (reset_queue now)))"
    by (rule confirming_update) (simp_all add: reset_queue_def)
  then show ?thesis by (auto simp: maintains_def confirming_def)
qed

lemma poll_queue_confirming:
  assumes "i < length slots"
  shows "maintains (confirming t ((=) slots) always) (poll_queue h c t ctx now b i)"
proof (cases "RingBatch_Indices b i")
  case (Some a)
  obtain avail used where a: "a = (avail, used)" by fastforce
  show ?thesis unfolding poll_queue_def Some a option.case prod.case
  proof (rule maintains_bind_get, goal_cases)
    case (1 v w es)
    let ?q = "bv_queues v ! i"
    obtain ready p where o: "RingProgress_Observe (q_progress ?q) avail used (sn_Num (q_snapshot ?q)) now (c_Threshold c) = (ready, p)"
      by fastforce
    let ?f = "\<lambda>q. if \<not> ready then q\<lparr>q_progress := p, q_candidate := None, q_reported := False\<rparr> else q\<lparr>q_progress := p\<rparr>"
    have u: "update_queue i (\<lambda>_. ?f ?q) v = update_queue i ?f v" by (simp add: update_queue_def)
    have c: "confirming t ((=) slots) (\<lambda>_. True) (update_queue i ?f v) es"
      using 1 by (intro confirming_updated) (auto simp: candidate_seen_def)
    have m: "maintains (confirming t ((=) slots) (\<lambda>_. True))
      (if \<not> ready \<and> q_verification (?f ?q) = None then retE ()
       else bindE (attempt (confirm_queue h c t ctx now i used ready)) (\<lambda>r.
         case r of
           Inr _ \<Rightarrow> retE ()
         | Inl e \<Rightarrow>
             bindE (logV h ''queue_unavailable'' [(''vhost_fd'', JInt (q_fd ?q)), (''error'', JError e)]) (\<lambda>_.
             modE (\<lambda>v. (update_queue i (reset_queue now) v)\<lparr>bv_lastInventory := NInf\<rparr>))))"
      using assms by (intro maintains_intros confirm_queue_confirming confirming_log confirming_reset) (simp_all add: growing_def)
    show ?case using maintainsD [OF m c, of w] u by (simp add: o Let_def ensures_at_bind [of "modE _"])
  qed
qed (simp add: poll_queue_def maintains_pure)


lemma poll_batch_confirming: "maintains (confirming t always always) (poll_batch h c t ctx now)"
  unfolding poll_batch_def
proof (rule maintains_bind_get, goal_cases)
  case (1 v w es)
  let ?slots = "map q_fd (bv_queues v)"
  have g: "growing always" by (simp add: growing_def)
  have q: "q_candidate (reset_queue now q) = None" "q_fd (reset_queue now q) = q_fd q" for q by (simp_all add: reset_queue_def)
  have r: "maintains (confirming t ((=) ?slots) always)
      (modE (\<lambda>v. v\<lparr>bv_queues := map (reset_queue now) (bv_queues v), bv_lastInventory := NInf\<rparr>))"
    by (rule maintains_mod) (simp add: confirming_def list_all_iff candidate_seen_def q comp_def)
  have m: "maintains (confirming t ((=) ?slots) always)
     (case bv_batch v of
       None \<Rightarrow> retE ()
     | Some b \<Rightarrow>
        bindE (liftE (RingBatch_Read h b)) (\<lambda>(err, b').
        bindE (modE (\<lambda>v. v\<lparr>bv_batch := Some b'\<rparr>)) (\<lambda>_.
        case err of
          Some e \<Rightarrow>
            bindE (logV h ''queue_unavailable'' [(''error'', JError e), (''scope'', JString ''ring_batch'')]) (\<lambda>_.
            modE (\<lambda>v. v\<lparr>bv_queues := map (reset_queue now) (bv_queues v), bv_lastInventory := NInf\<rparr>))
        | None \<Rightarrow> forE [0..<length (bv_queues v)] (poll_queue h c t ctx now b'))))"
    by (intro maintains_intros confirming_lift Read_quiet confirming_same confirming_log r poll_queue_confirming g) simp_all
  have "confirming t ((=) ?slots) always v es" using 1 by (simp add: confirming_def)
  from maintainsD [OF m this] show ?case by (rule ensures_at_mono) (simp add: confirming_def)
qed

text \<open>A loop whose carried variable satisfies \<open>J\<close>.\<close>

lemma maintains_fold_inv:
  assumes "\<And>x a. J a \<Longrightarrow> maintains I (body x a)" and "\<And>x a w a' es w'. J a \<Longrightarrow> body x a w = (Ok a', es, w') \<Longrightarrow> J a'" and "J a"
  shows "maintains I (foldE body xs a)"
  using assms(3)
proof (induction xs arbitrary: a)
  case (Cons x xs)
  show ?case unfolding maintains_def foldE.simps
  proof (intro allI impI)
    fix s w es
    assume i: "I s es"
    have "ensures_at (body x a) (s, w) (\<lambda>r es2 sw. I (fst sw) (es @ es2) \<and> (\<forall>a'. r = Ok a' \<longrightarrow> J a'))"
      using maintainsD [OF assms(1) [OF Cons.prems] i, of x w] assms(2) [OF Cons.prems, of x "(s, w)"]
      by (cases "body x a (s, w)") (simp add: ensures_at_def)
    then show "ensures_at (bindE (body x a) (\<lambda>s'. foldE body xs s')) (s, w) (\<lambda>r es2 sw. I (fst sw) (es @ es2))"
    proof (rule ensures_at_bindI, goal_cases)
      case (1 a' es2 sw)
      then show ?case using maintainsD [OF Cons.IH, where s = "fst sw" and es = "es @ es2" and w = "snd sw"] by simp
    qed auto
  qed
qed (simp add: maintains_pure)

lemma rediscover_confirming:
  assumes "growing X" and "\<And>es q. q \<in> snd ` set (fst acc) \<Longrightarrow> X es \<Longrightarrow> candidate_seen t es q"
  shows "maintains (confirming t always X) (rediscover h c t fd acc)"
proof -
  have n: "candidate_seen t es (new_queue f)" for es f by (simp add: candidate_seen_def new_queue_def)
  have add: "maintains (confirming t always X) (modE (\<lambda>v. v\<lparr>bv_queues := bv_queues v @ [q\<lparr>q_snapshot := s\<rparr>]\<rparr>))"
    if "\<And>es. X es \<Longrightarrow> candidate_seen t es q" for q s
    by (rule maintains_mod) (use that in \<open>auto simp: confirming_def candidate_seen_def\<close>)
  have set: "maintains (confirming t always X) (modE (\<lambda>v. set_detector f (detector_of c v f) v))" for f
    by (rule confirming_same) (simp add: set_detector_def)
  note rules = maintains_intros confirming_lift liveRow_quiet Forget_quiet confirming_log add set n assms
  show ?thesis
  proof (cases "map_of (fst acc) fd")
    case None
    then show ?thesis unfolding rediscover_def by (simp only: option.case bindE_retE) (intro rules)
  next
    case (Some q)
    then have "q \<in> snd ` set (fst acc)" by (force dest: map_of_SomeD)
    then show ?thesis unfolding rediscover_def Some option.case
      by (simp only: if_distrib [of "\<lambda>m. bindE m _"] bindE_assoc bindE_retE) (intro rules)
  qed
qed


lemma rediscover_rest:
  assumes "rediscover h c t fd acc w = (Ok acc', es, w')"
  shows "set (fst acc') \<subseteq> set (fst acc)"
  using assms unfolding rediscover_def
  by (elim bindE_OkE) (auto simp: retE_def elim!: bindE_OkE split: sum.splits simp: AList.delete_eq)

lemma fold_update_snd: "snd ` set (fold (\<lambda>q. AList.update (q_fd q) q) qs al) \<subseteq> set qs \<union> snd ` set al"
proof (induction qs arbitrary: al)
  case (Cons q qs)
  have "snd ` set (AList.update (q_fd q) q al) \<subseteq> insert q (snd ` set al)"
    by (induction al) auto
  then show ?case using Cons.IH [of "AList.update (q_fd q) q al"] by (simp, blast)
qed simp

lemma discover_confirming: "maintains (confirming t always always) (discover_queues h c t now)"
  unfolding discover_queues_def
proof (rule maintains_bind_get, goal_cases)
  case (1 v w es)
  let ?X = "\<lambda>es. \<forall>q \<in> set (bv_queues v). candidate_seen t es q"
  let ?old = "fold (\<lambda>q. AList.update (q_fd q) q) (bv_queues v) []"
  have g: "growing ?X" by (auto simp: growing_def intro: candidate_seen_append)
  have f: "maintains (confirming t always ?X) (foldE (rediscover h c t) vhosts (?old, []))" for vhosts
  proof (rule maintains_fold_inv [where J = "\<lambda>acc. snd ` set (fst acc) \<subseteq> set (bv_queues v)"])
    show "maintains (confirming t always ?X) (rediscover h c t fd acc)" if "snd ` set (fst acc) \<subseteq> set (bv_queues v)" for fd acc
      using that by (intro rediscover_confirming g) auto
    show "snd ` set (fst acc') \<subseteq> set (bv_queues v)"
      if "snd ` set (fst acc) \<subseteq> set (bv_queues v)" "rediscover h c t fd acc w = (Ok acc', es, w')" for fd acc w acc' es w'
      using that(1) rediscover_rest [OF that(2)] by blast
  qed (use fold_update_snd [of "bv_queues v" "[]"] in simp)
  have e: "maintains (confirming t always ?X) (modE (\<lambda>v. v\<lparr>bv_queues := []\<rparr>))"
    by (rule maintains_mod) (simp add: confirming_def)
  have m: "maintains (confirming t always ?X)
    (if \<not> f64_le (c_InventoryInterval c) (f64_sub now (bv_lastInventory v)) then retE ()
    else bindE (liftE (Inventory h t)) (\<lambda>(vhosts, _).
    let old = ?old in
    bindE (modE (\<lambda>v. v\<lparr>bv_queues := []\<rparr>)) (\<lambda>_.
    bindE (foldE (rediscover h c t) vhosts (old, [])) (\<lambda>(gone, snapshots).
    bindE (forE gone (\<lambda>(fd, q). liftE (BPF_Forget h (q_snapshot q)))) (\<lambda>_.
    bindE (modE (\<lambda>v. v\<lparr>bv_batch := None\<rparr>)) (\<lambda>_.
    bindE
      (if length snapshots \<noteq> 0
       then bindE (outcomeE (NewRingBatch t snapshots)) (\<lambda>b. modE (\<lambda>v. v\<lparr>bv_batch := Some b\<rparr>))
       else retE ())
      (\<lambda>_. modE (\<lambda>v. v\<lparr>bv_lastInventory := now\<rparr>))))))))"
    by (intro f e maintains_intros confirming_lift Inventory_quiet Forget_quiet confirming_same g) simp_all
  have "confirming t always ?X v es" using 1 by (simp add: confirming_def list_all_iff)
  from maintainsD [OF m this] show ?case by (rule ensures_at_mono) (simp add: confirming_def)
qed

lemma batched_loop_confirming: "maintains (confirming t always always) (batched_loop n h c t ctx started)"
proof (induction n)
  case (Suc n)
  have g: "growing always" by (simp add: growing_def)
  have s: "maintains (confirming t always always) (summarise_batched h c t now)" for now
    unfolding summarise_batched_def summary_row_def
    by (intro maintains_intros confirming_lift liveRow_quiet confirming_log confirming_same g) simp_all
  have "maintains (confirming t always always) (batched_tick h c t ctx started)"
    unfolding batched_tick_def return_log_def check_log_def
    by (intro maintains_intros confirming_lift CheckAlive_quiet traces_calls traces_clock confirming_log discover_confirming poll_batch_confirming s g)
      simp_all
  with Suc show ?case by (auto intro!: maintains_intros)
qed (simp add: maintains_pure)

text \<open>
  C3. In the batched mode a queue is kicked only when two live readings, at different times, have confirmed the stall: both found a consistent
  backlog that nobody serves, of the same attachment, with the same position of vhost and the same used index; the kick then goes through a
  fresh pin of the slot and is verified against the second of the two snapshots.
\<close>

theorem batched_kicks_are_confirmed_twice:
  assumes "runBatched n h c t ctx l w = (r, es, w')"
  shows "confirmed_kicks t es"
proof -
  have g: "growing always" by (simp add: growing_def)
  have m: "maintains (confirming t always always)
      (deferE (bindE (NewTicker d) (\<lambda>_. batched_loop n h c t ctx started)) (bindE getE (\<lambda>v. logV h ''stopped'' (bsummary_fields v))))"
    for started d
    by (intro maintains_intros batched_loop_confirming confirming_log g)
  have "ensures_at (runBatched n h c t ctx l) w (\<lambda>r es w'. confirmed_kicks t es)"
    unfolding runBatched_def
  proof (rule ensures_at_bindI [where R = "\<lambda>r es w'. list_all quiet es"], goal_cases)
    case 1
    show ?case using traces_clock [of "list_all quiet" "\<lambda>r. [EClock r]" False h] by (simp add: traces_if_def)
  next
    case (2 started es w1)
    then have "confirming t always always (init_bvars l) es"
      using confirmed_quiet [OF confirmed_kicks.none, of es t] by (simp add: confirming_def init_bvars_def)
    from maintainsD [OF m this] show ?case unfolding ensures_at_local by (rule ensures_at_mono) (simp add: confirming_def)
  qed (use confirmed_quiet [OF confirmed_kicks.none] in auto)
  then show ?thesis using assms by (simp add: ensures_at_def)
qed


theorem batched_kicks_are_confirmed_twice_witness:
  "\<exists>es. runBatched 1 cancelled_host qemu_config \<lparr>t_PID = 7, t_pidfd = 5\<rparr> 0 \<lparr>l_err = None, l_pid = 7, l_domain = ''''\<rparr> () =
      (Ok (), es, ()) \<and> confirmed_kicks \<lparr>t_PID = 7, t_pidfd = 5\<rparr> es"
proof -
  let ?l = "\<lparr>l_err = None, l_pid = 7, l_domain = ''''\<rparr>"
  obtain fs where "emit cancelled_host ?l ''stopped'' (bsummary_fields (init_bvars ?l)) () = (Ok ?l, [EEncode fs None], ())"
    using cancelled_emit [of ?l] by fastforce
  then have r: "runBatched 1 cancelled_host qemu_config \<lparr>t_PID = 7, t_pidfd = 5\<rparr> 0 ?l () =
      (Ok (), [EClock (Inr (100, 0)), ECtxErr 0 (Some (ErrorString ''context canceled'')), EEncode fs None], ())"
    by (simp add: runBatched_def valid_ticker [OF qemu_valid] batched_tick_def return_log_def check_log_def logV_def io_execs init_bvars_def)
  show ?thesis using r batched_kicks_are_confirmed_twice [OF r] by blast
qed

end
