(* ===== verification/Spec2Isabelle.thy ===== *)
theory Spec2Isabelle
  imports Exit_Status Fault_Deadline Pace Confirmation
begin

text \<open>
  Verification of the vhost-net recovery agent: the programs \<^verbatim>\<open>vhost-watch\<close>, which watches the TX queues of
  QEMU processes and can wake a stuck one by a verified write to its kick eventfd, and \<^verbatim>\<open>vhost-fault\<close>, which
  provokes a lost wakeup on purpose.  The model covers all Go code of the repository.

  \<^bold>\<open>How the code is modelled.\<close>  A function of Go that calls the operating system is a computation of the type \<open>io\<close>
  (\<open>Go_Prelude\<close>): from a world of an arbitrary type to an outcome (\<open>Ok\<close>, \<open>Err\<close>, \<open>Panic\<close>, or \<open>Running\<close> for a loop
  whose bound is used up), the list of the calls it made with their answers, and the next world.  Sequence, error
  checks, \<^verbatim>\<open>defer\<close>, loops and closures over local variables have one combinator each.  Whatever is not Go code
  of the repository is a field of a record of functions on the world: \<open>host\<close> (system calls, files, BPF maps, clock, context, log
  encoder), \<open>ebpf\<close> (loading and attaching probes), \<open>scheduler\<close> (goroutines), \<open>lab\<close> (make, module system calls, ticker)
  and \<open>readers\<close> (numbers and durations on the command line).  The theorems hold for all of them, that is for every behaviour of kernel,
  QEMU and file system between any two calls; the few assumptions (a readable clock, say) are premises.
  Integers of Go are words where the code relies on their width (ring indices, identifiers, kernel addresses), else \<open>int\<close> with the
  conversions written out; floating point numbers are binary64 values with correct rounding (\<open>Go_Float\<close>); pure
  functions are HOL functions.

  \<^bold>\<open>Theories and sources\<close> (below \<^verbatim>\<open>internal/watch\<close> unless said otherwise).
    \<^item> \<open>Go_Prelude\<close>, \<open>Go_Float\<close>, \<open>Go_Strings\<close>, \<open>Timers\<close>: the language and its library: errors, computations and
      their proof rules, binary64 arithmetic, strings and paths, intervals of time.
    \<^item> \<open>Model\<close> (\<^verbatim>\<open>model.go\<close>): snapshots, their validation and identity, the stall detector with its budget.
      \<open>Progress\<close> (\<^verbatim>\<open>progress.go\<close>): candidates seen in user memory.
    \<^item> \<open>Host\<close>: the calls and their events; \<open>emit\<close> and \<open>clock\<close> of \<^verbatim>\<open>run_linux.go\<close>.  \<open>Descriptors\<close>: an account of open
      descriptors over a list of calls (locale \<open>accounting\<close>).
    \<^item> \<open>Bpf\<close> (\<^verbatim>\<open>bpf_linux.go\<close>): \<open>OpenBPF\<close>, \<open>BPF_Snapshot\<close>, \<open>BPF_Counters\<close>, \<open>BPF_Forget\<close>, \<open>BPF_Close\<close>.
    \<^item> \<open>Target\<close> (\<^verbatim>\<open>target_linux.go\<close>): \<open>OpenTarget\<close>, \<open>pollAlive\<close>, \<open>Inventory\<close>, \<open>Ring\<close>, the batch of rings, and the verified kick \<open>Rekick\<close>.
    \<^item> \<open>Selection\<close> (\<^verbatim>\<open>internal/selection/selection.go\<close>): \<open>New\<close>, \<open>process\<close>, \<open>Check\<close>, \<open>Resolve\<close>, \<open>PIDList_Set\<close>.
    \<^item> \<open>Live\<close>, \<open>Run\<close>, \<open>Batched\<close>, \<open>Agent\<close> (\<^verbatim>\<open>list_linux.go\<close>, \<^verbatim>\<open>run_linux.go\<close>, \<^verbatim>\<open>batched_linux.go\<close>): live rows and the list of queues, the
      configuration, the two loops of a worker, its frame with lock, target and probes, and the rescue.
    \<^item> \<open>Manager\<close> (\<^verbatim>\<open>manager_linux.go\<close>): the one-shot commands and the supervisor of the workers.
    \<^item> \<open>Fault\<close> (\<^verbatim>\<open>internal/fault/run_linux.go\<close>): the experiment.
    \<^item> \<open>Commands\<close> (\<^verbatim>\<open>cmd/vhost-watch\<close>, \<^verbatim>\<open>cmd/vhost-fault\<close>): from the arguments to the exit status.

  \<^bold>\<open>What is shown.\<close>
    \<^item> Detection: after any history the detector of \<open>Model\<close> and the candidates of \<open>Progress\<close> report exactly the windows without progress that the
      specification names; the detector's verdicts do not change when the ring positions wrap; the budget grants a kick exactly when the
      policy allows it; a batched read equals single reads and an inventory examines every descriptor (\<open>Target\<close>).
    \<^item> Writes: every write of a worker, of a one-shot command and of an experiment belongs to a fully verified kick
      (\<open>Agent\<close>, \<open>Supervision\<close>, \<open>Fault_Safety\<close>); the kicks of a slot keep cooldown and budget over whole runs (\<open>Pace\<close>);
      in the batched mode each is preceded by two live readings of the same stall (\<open>Confirmation\<close>);
      observing never writes, and writing has to be asked for on the command line (\<open>Exit_Status\<close>).
    \<^item> Success: a rescue that succeeds has kicked each slot in scope exactly once (\<open>Rescue\<close>); exit status 0 says that everything was recovered, or that the
      experiment is settled, and status 2 that nothing was called (\<open>Exit_Status\<close>).
    \<^item> Resources: descriptors, probes, temporary directories and the kernel module are given back on every path (\<open>Agent\<close>, \<open>Probes\<close>, \<open>Experiment\<close>, \<open>Fault_Safety\<close>).
    \<^item> Supervision: no process has two workers, a retired one is not restarted, and all have ended when the command returns (\<open>Supervision\<close>).
    \<^item> The module of an experiment is told exactly the configured fault, within bounds (\<open>Fault_Safety\<close>); a duration of the command is the timeout of
      its workers' context, and wrong from 9223372037 seconds on (\<open>Supervision\<close>).
    \<^item> No panics (\<open>Panics\<close>, \<open>Fault_Safety\<close>).  What can panic is a branch of the model: a clock that cannot be read, a ticker without a positive
      interval (\<open>NewTicker\<close>), an index or slice out of range (the first byte of a batch, a ring of it, the first selected target), a nil selector, a map
      that the BPF collection does not have, and the assertion of a dynamic type.
    \<^item> Termination of \<open>unload\<close> (\<open>Experiment\<close>) and of the wait with a
      deadline (\<open>Fault_Deadline\<close>).
    \<^item> Selection: the selected processes are justified by what was read, and an explicit PID never follows a reused one (\<open>Selection\<close>).

  \<open>Machine\<close> is a small host on which theorems about whole commands are applied; \<open>demo_host\<close>, \<open>qemu_host\<close> and \<open>proc_host\<close> in
  the other theories serve theirs.

  \<^bold>\<open>Interfaces.\<close>  \<open>trace_property\<close> (\<open>Go_Prelude\<close>) is the contract of a property of call lists, with the rule
  for every combinator proved once; \<open>accounting\<close> (\<open>Descriptors\<close>) extends it to accounts of resources, for descriptors, probes and directories; \<open>calm_property\<close>
  and \<open>idle_property\<close> (\<open>Agent\<close>) carry it through a whole worker, \<open>experiment_property\<close> and \<open>fault_property\<close> (\<open>Fault_Safety\<close>) through an experiment;
  \<open>stall_timer\<close> and \<open>rate_limiter\<close> (\<open>Timers\<close>) are the contracts of detection and budget.  Each is
  interpreted on the model.

  \<^bold>\<open>Bounds.\<close>  The loops of workers, manager and experiment run until their context is cancelled and take the number of
  passes; \<open>Running\<close> says that they have not returned.  Statements about what is called hold for every number of passes, also for loops that have not
  returned.  The number of polls that are interrupted in a row is bounded by the field \<open>h_polls\<close> of the host.
  With a recovery deadline as many passes as there are nanoseconds to it are enough for the experiment.

  \<^bold>\<open>Not modelled.\<close>  The BPF program \<^verbatim>\<open>agent/watch.bpf.c\<close>, the kernel module \<^verbatim>\<open>fault-injection/host\<close> (kernel code in C: their
  answers may be any), images and scripts; JSON tags and the text of log lines and error messages beyond what the
  code compares; the mutex of the snapshot map and of \<^verbatim>\<open>lockedWriter\<close> (the calls of one worker are one sequence, a log line is one event);
  the order in which Go ranges over a map is that of insertion; descriptors are below 2147483648, so that the conversion of a pidfd to 32 bits in
  \<^verbatim>\<open>pollAlive\<close> keeps it; the white space that \<^verbatim>\<open>TrimSpace\<close> removes is that of ASCII.
\<close>

end
